(* ===== verification/Prelude.thy ===== *)
theory Prelude
  imports Main "HOL-Library.AList" "HOL-Library.Word"
begin

text \<open>
  Shared vocabulary of the development: byte strings, Go maps as association lists with
  distinct keys, error results, and the generic lemmas that the component theories use.

  A Go \<^verbatim>\<open>map[K]V\<close> is modelled by the list of its key/value pairs in some iteration order.
  Reading is \<^const>\<open>map_of\<close>, writing is \<^const>\<open>AList.update\<close>, \<^verbatim>\<open>delete\<close> is
  \<^const>\<open>AList.delete\<close>, \<^verbatim>\<open>len\<close> is the length and ranging is recursion over the list;
  \<open>wf_map\<close> says that no key occurs twice. A nil map reads like an empty one, and no
  operation of the program writes to a nil map, so nil and empty are both \<open>[]\<close>.
  \<^verbatim>\<open>string\<close> and \<^verbatim>\<open>[]byte\<close> values are both lists of 8-bit characters.
\<close>

section \<open>Types\<close>

type_synonym bytes = string

type_synonym ('k, 'v) gomap = "('k \<times> 'v) list"

type_synonym strmap = "(string, string) gomap"

text \<open>A Go pair \<^verbatim>\<open>(T, error)\<close>: \<open>Inl\<close> is the error's message, \<open>Inr\<close> the result.\<close>

type_synonym 'a result = "string + 'a"

section \<open>Go maps\<close>

definition wf_map :: "('k, 'v) gomap \<Rightarrow> bool" where
  "wf_map m \<longleftrightarrow> distinct (map fst m)"

definition has_key :: "('k, 'v) gomap \<Rightarrow> 'k \<Rightarrow> bool" where
  "has_key m k \<longleftrightarrow> map_of m k \<noteq> None"

definition get_bool :: "('k, bool) gomap \<Rightarrow> 'k \<Rightarrow> bool" where
  "get_bool m k = (case map_of m k of None \<Rightarrow> False | Some b \<Rightarrow> b)"

definition get_int :: "('k, int) gomap \<Rightarrow> 'k \<Rightarrow> int" where
  "get_int m k = (case map_of m k of None \<Rightarrow> 0 | Some i \<Rightarrow> i)"

named_theorems map_simps \<open>rewriting of the Go map operations\<close>

lemma has_key_set [map_simps]: "has_key m k \<longleftrightarrow> k \<in> fst ` set m"
  by (simp add: has_key_def map_of_eq_None_iff)

lemma has_key_update [map_simps]: "has_key (AList.update k v m) k' \<longleftrightarrow> k' = k \<or> has_key m k'"
  by (simp add: has_key_def update_conv')

lemma has_key_delete [map_simps]: "has_key (AList.delete k m) k' \<longleftrightarrow> k' \<noteq> k \<and> has_key m k'"
  by (simp add: has_key_def delete_conv')

lemma get_bool_update [map_simps]:
  "get_bool (AList.update k v m) k' = (if k' = k then v else get_bool m k')"
  by (simp add: get_bool_def update_conv')

lemma get_int_update [map_simps]:
  "get_int (AList.update k v m) k' = (if k' = k then v else get_int m k')"
  by (simp add: get_int_def update_conv')

lemma get_bool_Nil [simp]: "get_bool [] k = False"
  by (simp add: get_bool_def)

lemma wf_map_Nil [simp, intro!]: "wf_map []"
  by (simp add: wf_map_def)

lemma wf_map_Cons [simp]: "wf_map ((k, v) # m) \<longleftrightarrow> map_of m k = None \<and> wf_map m"
  by (simp add: wf_map_def map_of_eq_None_iff)

lemma wf_map_update [simp, intro]: "wf_map m \<Longrightarrow> wf_map (AList.update k v m)"
  by (simp add: wf_map_def distinct_update)

lemma wf_map_delete [simp, intro]: "wf_map m \<Longrightarrow> wf_map (AList.delete k m)"
  by (simp add: wf_map_def distinct_delete)

lemma wf_map_filter [simp, intro]: "wf_map m \<Longrightarrow> wf_map (filter P m)"
  by (induction m) (auto simp: wf_map_def)

lemma wf_map_card: "wf_map m \<Longrightarrow> length m = card (fst ` set m)"
  by (metis distinct_card length_map list.set_map wf_map_def)

lemma wf_map_map_of: "wf_map m \<Longrightarrow> (k, v) \<in> set m \<Longrightarrow> map_of m k = Some v"
  by (simp add: wf_map_def)

lemma update_fresh: "k \<notin> fst ` set m \<Longrightarrow> AList.update k v m = m @ [(k, v)]"
  by (induction m) auto

lemma delete_eq_filter: "AList.delete k m = filter (\<lambda>p. fst p \<noteq> k) m"
  by (induction m) auto

section \<open>Cardinalities of majorities\<close>

text \<open>
  Two subsets of a finite set that are together larger than the set meet. This is the one
  counting fact behind every quorum argument of the development.
\<close>

lemma large_subsets_meet:
  assumes "finite E" "A \<subseteq> E" "B \<subseteq> E" "card E < card A + card B"
  shows "A \<inter> B \<noteq> {}"
proof
  assume "A \<inter> B = {}"
  with assms(1,2,3) have "card (A \<union> B) = card A + card B"
    by (meson card_Un_disjoint finite_subset)
  with assms show False
    using card_mono [OF assms(1), of "A \<union> B"] by auto
qed

section \<open>Lists\<close>

lemma last_append_neq [simp]: "xs \<noteq> [] \<Longrightarrow> last (ys @ xs) = last xs"
  by simp

lemma filter_upto_eq_take:
  assumes "\<And>i. i < length xs \<Longrightarrow> P (xs ! i) \<longleftrightarrow> i < n"
  shows "filter P xs = take n xs"
proof -
  have "filter P (take n xs) = take n xs"
    using assms by (auto simp: filter_id_conv in_set_conv_nth)
  moreover have "filter P (drop n xs) = []"
  proof (clarsimp simp: filter_empty_conv in_set_conv_nth)
    fix i assume "i < length xs - n" "P (xs ! (n + i))"
    then have "n + i < length xs" by simp
    with assms [of "n + i"] \<open>P (xs ! (n + i))\<close> show False by simp
  qed
  ultimately show ?thesis
    by (metis append_take_drop_id filter_append append_Nil2)
qed

end
