(* ===== verification/Proto.thy ===== *)
theory Proto
  imports Prelude
begin

text \<open>
  The protocol messages (\<^verbatim>\<open>src/proto/raft.pb.go\<close>, generated from \<^verbatim>\<open>raft.proto\<close>) as records.
  An \<^verbatim>\<open>int64\<close> field is an unbounded \<^typ>\<open>int\<close>: terms and indexes start at zero and grow
  by one. Field names that several messages share carry a short prefix of the message.
  Pointers to messages are never nil in the program: every message is built by the code
  that sends it or by the decoder that receives it.
\<close>

record LogEntry =
  Index :: int
  Term :: int
  Command :: bytes

record RequestVoteRequest =
  rvTerm :: int
  CandidateId :: string
  LastLogIndex :: int
  LastLogTerm :: int

record RequestVoteResponse =
  rvrTerm :: int
  VoteGranted :: bool

record AppendEntriesRequest =
  aeTerm :: int
  aeLeaderId :: string
  PrevLogIndex :: int
  PrevLogTerm :: int
  Entries :: "LogEntry list"
  LeaderCommit :: int

record AppendEntriesResponse =
  aerTerm :: int
  Success :: bool
  MatchIndex :: int

record InstallSnapshotRequest =
  isTerm :: int
  isLeaderId :: string
  isLastIncludedIndex :: int
  isLastIncludedTerm :: int
  Offset :: int
  Data :: bytes
  Done :: bool

record InstallSnapshotResponse =
  isrTerm :: int

record StateMetadata =
  smTerm :: int
  smVotedFor :: string

text \<open>The \<^verbatim>\<open>oneof\<close> of a WAL record; a message with no variant set matches no case.\<close>

datatype WALRecord =
    WALRecord_State StateMetadata
  | WALRecord_Entry LogEntry
  | WALRecord_TruncateIndex int
  | WALRecord_Unset

end
