(* ===== verification/WAL.thy ===== *)
theory WAL
  imports Proto
begin

text \<open>
  The write-ahead log (\<^verbatim>\<open>src/storage/wal.go\<close>). A record is framed as a big-endian 32-bit
  length, a big-endian CRC-32 and the marshalled record; \<^verbatim>\<open>Replay\<close> reads the frames back
  and folds the records into (term, votedFor, entries). Protobuf marshalling is third-party
  code: \<open>marshal\<close> and \<open>unmarshal\<close> are parameters. The CRC (\<^verbatim>\<open>hash/crc32\<close>, IEEE polynomial)
  and \<^verbatim>\<open>io.ReadFull\<close> are standard library and are defined here.

  The record-level replay \<open>replayRecords\<close> is what the node theory uses; the byte level is
  tied to it by the round-trip theorem.
\<close>

unbundle bit_operations_syntax

section \<open>Big-endian words and CRC-32\<close>

definition be32 :: "32 word \<Rightarrow> bytes" where
  "be32 w = (let n = unat w in
     [char_of (n div 16777216), char_of (n div 65536), char_of (n div 256), char_of n])"

fun Uint32 :: "bytes \<Rightarrow> 32 word" where
  "Uint32 [a, b, c, d] =
     word_of_nat (((of_char a * 256 + of_char b) * 256 + of_char c) * 256 + of_char d)"
| "Uint32 _ = 0"

definition crc32_shift :: "32 word \<Rightarrow> 32 word" where
  "crc32_shift c = (if bit c 0 then drop_bit 1 c XOR 0xEDB88320 else drop_bit 1 c)"

definition crc32_byte :: "32 word \<Rightarrow> char \<Rightarrow> 32 word" where
  "crc32_byte c b = (crc32_shift ^^ 8) (c XOR word_of_nat (of_char b))"

definition ChecksumIEEE :: "bytes \<Rightarrow> 32 word" where
  "ChecksumIEEE data = NOT (foldl crc32_byte (NOT 0) data)"

section \<open>Writing\<close>

record WAL =
  contents :: bytes
  isOpen :: bool

text \<open>What the operating system does with one write and sync.\<close>

datatype write_outcome = WriteOk | WriteFails nat string | SyncFails string

text \<open>
  The buffer of \<^verbatim>\<open>writeRecord\<close>: its size \<^verbatim>\<open>8+length\<close> is computed in 32 bits, and \<^verbatim>\<open>copy\<close>
  fills at most what it holds; a size below eight makes the slicing panic.
\<close>

definition frame :: "bytes \<Rightarrow> bytes result" where
  "frame data =
     (let len = (word_of_nat (length data) :: 32 word); n = unat (8 + len)
      in if n < 8 then Inl ''panic: slice bounds out of range''
         else Inr (be32 len @ be32 (ChecksumIEEE data) @ take (n - 8) data))"

definition writeRecord ::
  "(WALRecord \<Rightarrow> bytes result) \<Rightarrow> write_outcome \<Rightarrow> WAL \<Rightarrow> WALRecord \<Rightarrow> WAL \<times> string option" where
  "writeRecord marshal os w rec =
     (case marshal rec of
        Inl e \<Rightarrow> (w, Some (''failed to marshal WAL record: '' @ e))
      | Inr data \<Rightarrow>
          (case frame data of
             Inl e \<Rightarrow> (w, Some e)
           | Inr buf \<Rightarrow>
               if \<not> isOpen w then (w, Some ''failed to write to WAL: invalid argument'')
               else (case os of
                   WriteFails n e \<Rightarrow>
                     (w\<lparr>contents := contents w @ take n buf\<rparr>, Some (''failed to write to WAL: '' @ e))
                 | SyncFails e \<Rightarrow> (w\<lparr>contents := contents w @ buf\<rparr>, Some e)
                 | WriteOk \<Rightarrow> (w\<lparr>contents := contents w @ buf\<rparr>, None))))"

definition AppendState ::
  "(WALRecord \<Rightarrow> bytes result) \<Rightarrow> write_outcome \<Rightarrow> WAL \<Rightarrow> int \<Rightarrow> string \<Rightarrow> WAL \<times> string option" where
  "AppendState marshal os w t votedFor =
     writeRecord marshal os w (WALRecord_State \<lparr>smTerm = t, smVotedFor = votedFor\<rparr>)"

definition AppendEntry ::
  "(WALRecord \<Rightarrow> bytes result) \<Rightarrow> write_outcome \<Rightarrow> WAL \<Rightarrow> LogEntry \<Rightarrow> WAL \<times> string option" where
  "AppendEntry marshal os w entry = writeRecord marshal os w (WALRecord_Entry entry)"

definition AppendTruncate ::
  "(WALRecord \<Rightarrow> bytes result) \<Rightarrow> write_outcome \<Rightarrow> WAL \<Rightarrow> int \<Rightarrow> WAL \<times> string option" where
  "AppendTruncate marshal os w index = writeRecord marshal os w (WALRecord_TruncateIndex index)"

text \<open>Opening an existing file keeps its contents; \<^verbatim>\<open>Reset\<close> empties the file.\<close>

definition OpenWAL :: "bytes option \<Rightarrow> WAL" where
  "OpenWAL existing =
     \<lparr>contents = (case existing of None \<Rightarrow> [] | Some bs \<Rightarrow> bs), isOpen = True\<rparr>"

definition Reset :: "string option \<Rightarrow> string option \<Rightarrow> WAL \<Rightarrow> WAL \<times> string option" where
  "Reset truncErr openErr w =
     (case truncErr of
        Some e \<Rightarrow> (w\<lparr>isOpen := False\<rparr>, Some (''failed to truncate WAL file: '' @ e))
      | None \<Rightarrow>
          (case openErr of
             Some e \<Rightarrow> (\<lparr>contents = [], isOpen = False\<rparr>,
                         Some (''failed to reopen WAL file after truncate: '' @ e))
           | None \<Rightarrow> (\<lparr>contents = [], isOpen = True\<rparr>, None)))"

definition Close :: "WAL \<Rightarrow> WAL" where
  "Close w = w\<lparr>isOpen := False\<rparr>"

section \<open>Replaying\<close>

text \<open>\<^verbatim>\<open>io.ReadFull\<close>: exactly \<open>n\<close> bytes and the rest, or the error it reports.\<close>

definition ReadFull :: "nat \<Rightarrow> bytes \<Rightarrow> (bytes \<times> bytes) result" where
  "ReadFull n bs =
     (if n \<le> length bs then Inr (take n bs, drop n bs)
      else if bs = [] then Inl ''EOF'' else Inl ''unexpected EOF'')"

type_synonym replay_state = "int \<times> string \<times> LogEntry list"

text \<open>
  The search loop over the entries: the first entry with the same index is replaced and
  everything after it is dropped; without one the record is appended.
\<close>

fun placeEntry :: "LogEntry \<Rightarrow> LogEntry list \<Rightarrow> LogEntry list" where
  "placeEntry e [] = [e]"
| "placeEntry e (x # xs) = (if Index x = Index e then [e] else x # placeEntry e xs)"

fun replayRecord :: "replay_state \<Rightarrow> WALRecord \<Rightarrow> replay_state" where
  "replayRecord (t, v, es) (WALRecord_State m) = (smTerm m, smVotedFor m, es)"
| "replayRecord (t, v, es) (WALRecord_Entry e) = (t, v, placeEntry e es)"
| "replayRecord (t, v, es) (WALRecord_TruncateIndex i) = (t, v, filter (\<lambda>e. Index e < i) es)"
| "replayRecord (t, v, es) WALRecord_Unset = (t, v, es)"

definition replayRecords :: "WALRecord list \<Rightarrow> replay_state" where
  "replayRecords recs = foldl replayRecord (0, [], []) recs"

function replayLoop :: "(bytes \<Rightarrow> WALRecord result) \<Rightarrow> bytes \<Rightarrow> replay_state \<Rightarrow> replay_state result" where
  "replayLoop unmarshal bs st =
     (case ReadFull 4 bs of
        Inl e \<Rightarrow> Inr st
      | Inr (lenBuf, bs1) \<Rightarrow>
          (case ReadFull 4 bs1 of
             Inl e \<Rightarrow> Inl (''failed to read record crc: '' @ e)
           | Inr (crcBuf, bs2) \<Rightarrow>
               (case ReadFull (unat (Uint32 lenBuf)) bs2 of
                  Inl e \<Rightarrow> Inl (''failed to read record data: '' @ e)
                | Inr (data, bs3) \<Rightarrow>
                    if ChecksumIEEE data \<noteq> Uint32 crcBuf
                    then Inl ''WAL corruption: CRC32 mismatch''
                    else (case unmarshal data of
                            Inl e \<Rightarrow> Inl (''failed to unmarshal WAL record: '' @ e)
                          | Inr rec \<Rightarrow> replayLoop unmarshal bs3 (replayRecord st rec)))))"
  by pat_completeness auto
termination
  by (relation "measure (\<lambda>(u, bs, st). length bs)") (auto simp: ReadFull_def split: if_splits)

definition Replay :: "(bytes \<Rightarrow> WALRecord result) \<Rightarrow> WAL \<Rightarrow> replay_state result" where
  "Replay unmarshal w =
     (if \<not> isOpen w then Inl ''failed to seek WAL: invalid argument''
      else replayLoop unmarshal (contents w) (0, [], []))"

declare replayLoop.simps [simp del]

section \<open>Framing\<close>

definition fits :: "bytes \<Rightarrow> bool" where
  "fits data \<longleftrightarrow> length data < 4294967288"

lemma length_be32 [simp]: "length (be32 w) = 4"
  by (simp add: be32_def Let_def)

lemma be_digits:
  assumes "(n::nat) < 4294967296"
  shows "((n div 16777216 mod 256 * 256 + n div 65536 mod 256) * 256 + n div 256 mod 256) * 256
    + n mod 256 = n"
proof -
  have d: "n div 65536 = n div 256 div 256" "n div 16777216 = n div 256 div 256 div 256"
    by (simp_all add: div_mult2_eq [symmetric])
  have "n div 16777216 < 256" using assms by simp
  then have "n div 16777216 mod 256 = n div 16777216" by simp
  then show ?thesis unfolding d by simp
qed

lemma Uint32_be32 [simp]: "Uint32 (be32 w) = w"
proof -
  have "unat w < 4294967296"
    using unsigned_less [of w] by simp
  then have "word_of_nat (((unat w div 16777216 mod 256 * 256 + unat w div 65536 mod 256) * 256
      + unat w div 256 mod 256) * 256 + unat w mod 256) = w"
    by (subst be_digits) simp_all
  then show ?thesis
    by (simp only: be32_def Let_def Uint32.simps of_char_of)
qed

lemma unat_len: "fits data \<Longrightarrow> unat (word_of_nat (length data) :: 32 word) = length data"
  by (simp add: fits_def unat_of_nat)

lemma frame_fits:
  assumes "fits data"
  shows "frame data = Inr (be32 (word_of_nat (length data)) @ be32 (ChecksumIEEE data) @ data)"
proof -
  have "unat (8 + word_of_nat (length data) :: 32 word) = 8 + length data"
    using assms by (simp add: unat_word_ariths unat_of_nat fits_def)
  then show ?thesis by (simp add: frame_def Let_def)
qed

lemma ReadFull_append [simp]: "length xs = n \<Longrightarrow> ReadFull n (xs @ ys) = Inr (xs, ys)"
  by (simp add: ReadFull_def)

lemma ReadFull_short: "length bs < n \<Longrightarrow> isl (ReadFull n bs)"
  by (simp add: ReadFull_def)

lemma replayLoop_Nil [simp]: "replayLoop u [] st = Inr st"
  by (simp add: replayLoop.simps ReadFull_def)

text \<open>One complete frame whose stored checksum is \<open>c\<close>, followed by anything.\<close>

lemma replayLoop_one:
  assumes "fits data"
  shows "replayLoop u (be32 (word_of_nat (length data)) @ be32 c @ data @ rest) st =
    (if ChecksumIEEE data \<noteq> c then Inl ''WAL corruption: CRC32 mismatch''
     else (case u data of
             Inl e \<Rightarrow> Inl (''failed to unmarshal WAL record: '' @ e)
           | Inr rec \<Rightarrow> replayLoop u rest (replayRecord st rec)))"
  by (subst replayLoop.simps) (simp add: unat_len [OF assms])

text \<open>
  What the WAL relies on in the protobuf library: a marshalled record is unmarshalled to
  itself, and it is smaller than four gigabytes.
\<close>

definition codec_ok :: "(WALRecord \<Rightarrow> bytes result) \<Rightarrow> (bytes \<Rightarrow> WALRecord result) \<Rightarrow> WALRecord \<Rightarrow> bool" where
  "codec_ok marshal unmarshal rec \<longleftrightarrow>
     (\<exists>d. marshal rec = Inr d \<and> fits d \<and> unmarshal d = Inr rec)"

definition writeAll :: "(WALRecord \<Rightarrow> bytes result) \<Rightarrow> WAL \<Rightarrow> WALRecord list \<Rightarrow> WAL" where
  "writeAll marshal w recs = foldl (\<lambda>w rec. fst (writeRecord marshal WriteOk w rec)) w recs"

definition framed :: "(WALRecord \<Rightarrow> bytes result) \<Rightarrow> WALRecord \<Rightarrow> bytes" where
  "framed marshal rec = (case marshal rec of Inl e \<Rightarrow> [] | Inr d \<Rightarrow>
     be32 (word_of_nat (length d)) @ be32 (ChecksumIEEE d) @ d)"

lemma writeRecord_ok:
  assumes "codec_ok marshal u rec" "isOpen w"
  shows "writeRecord marshal WriteOk w rec = (w\<lparr>contents := contents w @ framed marshal rec\<rparr>, None)"
  using assms by (auto simp: codec_ok_def writeRecord_def framed_def frame_fits)

lemma writeAll_contents:
  "\<forall>rec \<in> set recs. codec_ok marshal u rec \<Longrightarrow> isOpen w \<Longrightarrow>
     writeAll marshal w recs = w\<lparr>contents := contents w @ concat (map (framed marshal) recs)\<rparr>"
proof (induction recs arbitrary: w)
  case Nil
  then show ?case by (simp add: writeAll_def)
next
  case (Cons rec recs)
  then show ?case
    using writeRecord_ok [of marshal u rec w] by (simp add: writeAll_def)
qed

lemma replayLoop_framed:
  assumes "codec_ok marshal u rec"
  shows "replayLoop u (framed marshal rec @ rest) st = replayLoop u rest (replayRecord st rec)"
  using assms by (auto simp: codec_ok_def framed_def replayLoop_one)

lemma replayLoop_frames:
  "\<forall>rec \<in> set recs. codec_ok marshal u rec \<Longrightarrow>
     replayLoop u (concat (map (framed marshal) recs) @ rest) st =
     replayLoop u rest (foldl replayRecord st recs)"
  by (induction recs arbitrary: st) (simp_all add: replayLoop_framed)

section \<open>The checksum detects a corrupted byte\<close>

lemma drop1_top: "\<not> bit (drop_bit 1 (c::32 word)) 31"
  using bit_imp_le_length [of c 32] by (auto simp: bit_drop_bit_eq)

lemma poly_top: "bit (0xEDB88320 :: 32 word) 31"
  by simp

lemma crc32_shift_top: "bit (crc32_shift c) 31 \<longleftrightarrow> bit c 0"
  unfolding crc32_shift_def using drop1_top [of c] poly_top
  by (simp only: bit_xor_iff split: if_split) simp

lemma word_xor_cancel_right: "(c::32 word) XOR x = d XOR x \<Longrightarrow> c = d"
proof -
  assume "c XOR x = d XOR x"
  then have "(c XOR x) XOR x = (d XOR x) XOR x" by simp
  then show ?thesis by (simp add: xor.assoc)
qed

lemma word_eq_by_bit0:
  assumes "bit (c::32 word) 0 = bit d 0" "drop_bit 1 c = drop_bit 1 d"
  shows "c = d"
proof (rule bit_word_eqI)
  fix n
  have "bit (drop_bit 1 c) m = bit (drop_bit 1 d) m" for m
    using assms(2) by simp
  with assms(1) show "bit c n = bit d n"
    by (cases n) (simp_all add: bit_drop_bit_eq)
qed

lemma crc32_shift_inj:
  assumes eq: "crc32_shift c = crc32_shift d"
  shows "c = d"
proof (rule word_eq_by_bit0)
  show b0: "bit c 0 = bit d 0"
    using eq crc32_shift_top [of c] crc32_shift_top [of d] by simp
  show "drop_bit 1 c = drop_bit 1 d"
    using eq b0 unfolding crc32_shift_def
    by (cases "bit d 0") (simp_all only: if_True if_False simp_thms word_xor_cancel_right)
qed

lemma crc32_byte_inj:
  assumes "crc32_byte c b = crc32_byte d b'"
  shows "c XOR word_of_nat (of_char b) = d XOR word_of_nat (of_char b')"
proof -
  have "inj crc32_shift"
    by (rule injI) (rule crc32_shift_inj)
  then have "inj (crc32_shift ^^ 8)"
    by (rule inj_fn)
  from injD [OF this assms [unfolded crc32_byte_def]] show ?thesis .
qed

lemma crc_fold_inj: "foldl crc32_byte c xs = foldl crc32_byte d xs \<Longrightarrow> c = d"
proof (induction xs arbitrary: c d)
  case (Cons x xs)
  then have "crc32_byte c x = crc32_byte d x" by simp
  from word_xor_cancel_right [OF crc32_byte_inj [OF this]] show ?case .
qed simp

lemma of_char_word: "unat (word_of_nat (of_char x) :: 32 word) = of_char x"
proof -
  have "of_char x < (4294967296 :: nat)"
    using nat_of_char_less_256 [of x] by linarith
  then show ?thesis unfolding unat_of_nat by (intro mod_less) simp
qed

lemma ChecksumIEEE_one_byte:
  assumes "a \<noteq> b"
  shows "ChecksumIEEE (xs @ a # ys) \<noteq> ChecksumIEEE (xs @ b # ys)"
proof
  let ?c = "foldl crc32_byte (NOT 0) xs"
  assume "ChecksumIEEE (xs @ a # ys) = ChecksumIEEE (xs @ b # ys)"
  then have "foldl crc32_byte (crc32_byte ?c a) ys = foldl crc32_byte (crc32_byte ?c b) ys"
    by (simp add: ChecksumIEEE_def)
  from crc32_byte_inj [OF crc_fold_inj [OF this]]
  have "word_of_nat (of_char a) XOR ?c = word_of_nat (of_char b) XOR ?c"
    by (simp only: xor.commute)
  from word_xor_cancel_right [OF this] have "of_char a = (of_char b :: nat)"
    by (metis of_char_word)
  with assms show False by simp
qed

section \<open>Torn and damaged frames\<close>

lemma replayLoop_torn:
  assumes "codec_ok marshal u rec" "k < length (framed marshal rec)"
  shows "if k < 4 then replayLoop u (take k (framed marshal rec)) st = Inr st
    else isl (replayLoop u (take k (framed marshal rec)) st)"
proof -
  from assms(1) obtain d where d: "marshal rec = Inr d" "fits d"
    by (auto simp: codec_ok_def)
  let ?h = "be32 (word_of_nat (length d))" and ?c = "be32 (ChecksumIEEE d)"
  have fr: "framed marshal rec = ?h @ ?c @ d"
    by (simp add: framed_def d)
  show ?thesis
  proof (cases "k < 4")
    case True
    then show ?thesis by (simp add: fr replayLoop.simps ReadFull_def)
  next
    case False
    then have tk: "take k (framed marshal rec) = ?h @ take (k - 4) ?c @ take (k - 8) d"
      by (simp add: fr)
    have "isl (replayLoop u (?h @ take (k - 4) ?c @ take (k - 8) d) st)"
    proof (cases "k < 8")
      case True
      then have "length (take (k - 4) ?c @ take (k - 8) d) < 4"
        using False by simp
      then have "isl (ReadFull 4 (take (k - 4) ?c @ take (k - 8) d))"
        by (rule ReadFull_short)
      then show ?thesis
        by (subst replayLoop.simps) (auto simp: isl_def)
    next
      case long: False
      then have c: "take (k - 4) ?c = ?c" by simp
      have "k - 8 < length d" using assms(2) long by (simp add: fr)
      then show ?thesis
        unfolding c
        by (simp add: replayLoop.simps unat_len [OF d(2)]) (simp add: ReadFull_def)
    qed
    with False tk show ?thesis by simp
  qed
qed

section \<open>Properties\<close>

text \<open>
  C16. Round trip: after any sequence of successful writes to a fresh log, replaying the file
  gives exactly the fold of the records written, for every protobuf codec that round-trips
  them in less than four gigabytes each.
\<close>

theorem wal_roundtrip:
  assumes "\<forall>rec \<in> set recs. codec_ok marshal unmarshal rec"
  shows "Replay unmarshal (writeAll marshal (OpenWAL None) recs) = Inr (replayRecords recs)"
  using writeAll_contents [OF assms, of "OpenWAL None"] replayLoop_frames [OF assms, of "[]"]
  by (simp add: Replay_def OpenWAL_def replayRecords_def)

text \<open>A concrete codec with the properties that are assumed of protobuf, for small records.\<close>

definition dots :: "int \<Rightarrow> bytes \<Rightarrow> bytes" where
  "dots i rest = replicate (nat i) CHR ''.'' @ CHR '':'' # rest"

definition undots :: "bytes \<Rightarrow> int \<times> bytes" where
  "undots bs = (int (length (takeWhile (\<lambda>x. x = CHR ''.'') bs)), drop 1 (dropWhile (\<lambda>x. x = CHR ''.'') bs))"

definition demo_marshal :: "WALRecord \<Rightarrow> bytes result" where
  "demo_marshal rec = (case rec of
     WALRecord_State m \<Rightarrow> Inr (CHR ''s'' # dots (smTerm m) (smVotedFor m))
   | WALRecord_TruncateIndex i \<Rightarrow> Inr (CHR ''t'' # dots i [])
   | WALRecord_Entry e \<Rightarrow> Inr (CHR ''e'' # dots (Index e) (dots (Term e) (Command e)))
   | WALRecord_Unset \<Rightarrow> Inr [])"

definition demo_unmarshal :: "bytes \<Rightarrow> WALRecord result" where
  "demo_unmarshal bs = (case bs of [] \<Rightarrow> Inr WALRecord_Unset | c # r \<Rightarrow>
     if c = CHR ''t'' then Inr (WALRecord_TruncateIndex (fst (undots r)))
     else if c = CHR ''s'' then Inr (WALRecord_State \<lparr>smTerm = fst (undots r), smVotedFor = snd (undots r)\<rparr>)
     else Inr (WALRecord_Entry \<lparr>Index = fst (undots r), Term = fst (undots (snd (undots r))),
                 Command = snd (undots (snd (undots r)))\<rparr>))"

lemma undots_dots [simp]: "0 \<le> i \<Longrightarrow> undots (dots i rest) = (i, rest)"
  by (simp add: undots_def dots_def takeWhile_tail)
    (subst dropWhile_append2, simp_all)

lemma length_dots [simp]: "length (dots i rest) = nat i + 1 + length rest"
  by (simp add: dots_def)

definition demo_small :: "WALRecord \<Rightarrow> bool" where
  "demo_small rec = (case rec of
     WALRecord_State m \<Rightarrow> 0 \<le> smTerm m \<and> smTerm m < 1000 \<and> length (smVotedFor m) < 1000
   | WALRecord_TruncateIndex i \<Rightarrow> 0 \<le> i \<and> i < 1000
   | WALRecord_Entry e \<Rightarrow> 0 \<le> Index e \<and> Index e < 1000 \<and> 0 \<le> Term e \<and> Term e < 1000 \<and>
       length (Command e) < 1000
   | WALRecord_Unset \<Rightarrow> True)"

lemma demo_codec_ok: "demo_small rec \<Longrightarrow> codec_ok demo_marshal demo_unmarshal rec"
  by (cases rec)
    (auto simp: demo_small_def codec_ok_def demo_marshal_def demo_unmarshal_def fits_def)

theorem wal_roundtrip_witness:
  "Replay demo_unmarshal (writeAll demo_marshal (OpenWAL None)
     [WALRecord_State \<lparr>smTerm = 2, smVotedFor = ''n1''\<rparr>,
      WALRecord_Entry \<lparr>Index = 1, Term = 2, Command = ''a''\<rparr>,
      WALRecord_Entry \<lparr>Index = 2, Term = 2, Command = ''b''\<rparr>, WALRecord_TruncateIndex 2,
      WALRecord_Entry \<lparr>Index = 2, Term = 3, Command = ''c''\<rparr>]) =
   Inr (2, ''n1'', [\<lparr>Index = 1, Term = 2, Command = ''a''\<rparr>, \<lparr>Index = 2, Term = 3, Command = ''c''\<rparr>])"
proof -
  let ?recs = "[WALRecord_State \<lparr>smTerm = 2, smVotedFor = ''n1''\<rparr>,
      WALRecord_Entry \<lparr>Index = 1, Term = 2, Command = ''a''\<rparr>,
      WALRecord_Entry \<lparr>Index = 2, Term = 2, Command = ''b''\<rparr>, WALRecord_TruncateIndex 2,
      WALRecord_Entry \<lparr>Index = 2, Term = 3, Command = ''c''\<rparr>]"
  have "\<forall>rec \<in> set ?recs. codec_ok demo_marshal demo_unmarshal rec"
    by (auto intro!: demo_codec_ok simp: demo_small_def)
  from wal_roundtrip [OF this] show ?thesis
    by (simp add: replayRecords_def)
qed

text \<open>
  C31. A write that is cut short by a crash loses only the record it was writing if fewer
  than four bytes of it reached the file; if more did, replaying reports an error, so the
  node does not start from that file.
\<close>

theorem wal_torn_write:
  assumes "\<forall>rec \<in> set recs. codec_ok marshal unmarshal rec" "codec_ok marshal unmarshal rec"
    and "k < length (framed marshal rec)"
  defines "w \<equiv> writeAll marshal (OpenWAL None) recs"
  shows "if k < 4
    then Replay unmarshal (fst (writeRecord marshal (WriteFails k e) w rec)) = Inr (replayRecords recs)
    else isl (Replay unmarshal (fst (writeRecord marshal (WriteFails k e) w rec)))"
proof -
  have w: "w = OpenWAL None\<lparr>contents := concat (map (framed marshal) recs)\<rparr>"
    using writeAll_contents [OF assms(1), of "OpenWAL None"] by (simp add: w_def OpenWAL_def)
  have "contents (fst (writeRecord marshal (WriteFails k e) w rec)) =
      concat (map (framed marshal) recs) @ take k (framed marshal rec)"
    and "isOpen (fst (writeRecord marshal (WriteFails k e) w rec))"
    using assms(2) by (auto simp: codec_ok_def writeRecord_def framed_def frame_fits w OpenWAL_def)
  then show ?thesis
    using replayLoop_torn [OF assms(2,3), of "replayRecords recs"]
    by (simp add: Replay_def replayLoop_frames [OF assms(1)] replayRecords_def split: if_splits)
qed

theorem wal_torn_write_witness:
  "isl (Replay demo_unmarshal (fst (writeRecord demo_marshal (WriteFails 6 ''disk full'')
      (writeAll demo_marshal (OpenWAL None) []) (WALRecord_TruncateIndex 1))))"
proof -
  have ok: "codec_ok demo_marshal demo_unmarshal (WALRecord_TruncateIndex 1)"
    by (intro demo_codec_ok) (simp add: demo_small_def)
  have len: "6 < length (framed demo_marshal (WALRecord_TruncateIndex 1))"
    by (simp add: framed_def demo_marshal_def)
  show ?thesis
    using wal_torn_write [of "[]" demo_marshal demo_unmarshal, OF _ ok len, of "''disk full''"] by simp
qed

text \<open>
  C32. Corruption of any single byte of a record's payload in an otherwise intact file is
  detected: replaying fails with the checksum error.
\<close>

theorem wal_corruption_detected:
  assumes "\<forall>rec \<in> set recs. codec_ok marshal unmarshal rec"
    and "fits (xs @ a # ys)" "a \<noteq> b" "isOpen w"
    and "contents w = concat (map (framed marshal) recs) @
      be32 (word_of_nat (length (xs @ a # ys))) @ be32 (ChecksumIEEE (xs @ a # ys)) @
      (xs @ b # ys) @ rest"
  shows "Replay unmarshal w = Inl ''WAL corruption: CRC32 mismatch''"
proof -
  have "fits (xs @ b # ys)" and len: "length (xs @ a # ys) = length (xs @ b # ys)"
    using assms(2) by (simp_all add: fits_def)
  from replayLoop_one [OF this(1)] ChecksumIEEE_one_byte [of b a xs ys] assms(3)
  show ?thesis
    unfolding Replay_def assms(5) len replayLoop_frames [OF assms(1)] by (simp add: assms(4))
qed

theorem wal_corruption_detected_witness:
  "Replay demo_unmarshal \<lparr>contents = be32 2 @ be32 (ChecksumIEEE ''t.'') @ ''t,'', isOpen = True\<rparr> =
     Inl ''WAL corruption: CRC32 mismatch''"
  by (rule wal_corruption_detected [of "[]" demo_marshal _ "''t''" "CHR ''.''" "[]" "CHR '',''" _ "[]"])
    (simp_all add: fits_def)

end
