(* ===== verification/Config.thy ===== *)
theory Config
  imports Prelude
begin

text \<open>
  Cluster configurations (\<^verbatim>\<open>src/raft/config.go\<close>, without the JSON envelope, which is in
  theory \<open>Envelope\<close>): the configuration record, membership, address maps, the majority test,
  and the two steps of a membership change. A nil \<^verbatim>\<open>*ClusterConfig\<close> is \<open>None\<close>.

  The lemmas characterise the majority test exactly. It counts the deciding node twice
  (once as a member and once as \<^verbatim>\<open>self\<close>), which is a strict majority on configurations of
  odd size and only half of the members on configurations of even size; the quorum laws
  are therefore stated for odd sizes, and the failure for even sizes is a theorem.
\<close>

section \<open>Data\<close>

record ClusterConfig =
  OldPeers :: strmap
  NewPeers :: strmap
  OldHTTP :: strmap
  NewHTTP :: strmap
  Joint :: bool

record ConfigChangeRequest =
  NodeID :: string
  GRPCAddr :: string
  HTTPAddr :: string
  Remove :: bool

section \<open>Operations\<close>

fun copyMap_into :: "strmap \<Rightarrow> strmap \<Rightarrow> strmap" where
  "copyMap_into res [] = res"
| "copyMap_into res ((k, v) # m) = copyMap_into (AList.update k v res) m"

definition copyMap :: "strmap \<Rightarrow> strmap" where
  "copyMap m = copyMap_into [] m"

fun IsJoint :: "ClusterConfig option \<Rightarrow> bool" where
  "IsJoint None = False"
| "IsJoint (Some c) = Joint c"

fun ContainsNode :: "ClusterConfig option \<Rightarrow> string \<Rightarrow> bool" where
  "ContainsNode None nodeID = False"
| "ContainsNode (Some c) nodeID =
     (if has_key (NewPeers c) nodeID then True
      else if Joint c \<and> has_key (OldPeers c) nodeID then True
      else False)"

text \<open>
  The two loops of \<^verbatim>\<open>AllNodeGRPC\<close> and \<^verbatim>\<open>AllNodeHTTP\<close>: the first copies every entry but
  the node's own, the second adds the entries of the old map that are not there yet.
\<close>

fun addAll :: "string \<Rightarrow> strmap \<Rightarrow> strmap \<Rightarrow> strmap" where
  "addAll selfID res [] = res"
| "addAll selfID res ((i, addr) # m) =
     addAll selfID (if i \<noteq> selfID then AList.update i addr res else res) m"

fun addMissing :: "string \<Rightarrow> strmap \<Rightarrow> strmap \<Rightarrow> strmap" where
  "addMissing selfID res [] = res"
| "addMissing selfID res ((i, addr) # m) =
     addMissing selfID
       (if i \<noteq> selfID \<and> \<not> has_key res i then AList.update i addr res else res) m"

fun AllNodeGRPC :: "ClusterConfig option \<Rightarrow> string \<Rightarrow> strmap" where
  "AllNodeGRPC None selfID = []"
| "AllNodeGRPC (Some c) selfID =
     (let result = addAll selfID [] (NewPeers c)
      in if Joint c then addMissing selfID result (OldPeers c) else result)"

fun AllNodeHTTP :: "ClusterConfig option \<Rightarrow> string \<Rightarrow> strmap" where
  "AllNodeHTTP None selfID = []"
| "AllNodeHTTP (Some c) selfID =
     (let result = addAll selfID [] (NewHTTP c)
      in if Joint c then addMissing selfID result (OldHTTP c) else result)"

text \<open>
  One half of \<^verbatim>\<open>HasMajority\<close>: the voters among the peers are counted, and then the node
  itself is counted once more, in the votes and in the total, if it is one of the peers.
\<close>

fun countVotes :: "(string, bool) gomap \<Rightarrow> strmap \<Rightarrow> nat" where
  "countVotes voters [] = 0"
| "countVotes voters ((i, addr) # m) =
     (if get_bool voters i then Suc (countVotes voters m) else countVotes voters m)"

definition sideMajority :: "string \<Rightarrow> (string, bool) gomap \<Rightarrow> strmap \<Rightarrow> bool" where
  "sideMajority selfID voters ps =
     (let count = countVotes voters ps;
          total = length ps;
          count' = (if has_key ps selfID \<and> get_bool voters selfID then count + 1 else count);
          total' = (if has_key ps selfID then total + 1 else total)
      in count' \<ge> total' div 2 + 1)"

fun HasMajority :: "ClusterConfig option \<Rightarrow> string \<Rightarrow> (string, bool) gomap \<Rightarrow> bool" where
  "HasMajority None selfID voters = False"
| "HasMajority (Some c) selfID voters =
     (if \<not> sideMajority selfID voters (NewPeers c) then False
      else if \<not> Joint c then True
      else sideMajority selfID voters (OldPeers c))"

fun markSeen :: "(string, bool) gomap \<Rightarrow> strmap \<Rightarrow> (string, bool) gomap" where
  "markSeen seen [] = seen"
| "markSeen seen ((i, addr) # m) = markSeen (AList.update i True seen) m"

fun VoterCount :: "ClusterConfig option \<Rightarrow> string \<Rightarrow> nat" where
  "VoterCount None selfID = 1"
| "VoterCount (Some c) selfID =
     (let seen = markSeen (AList.update selfID True []) (NewPeers c)
      in length (if Joint c then markSeen seen (OldPeers c) else seen))"

definition BuildJointConfig ::
  "ClusterConfig option \<Rightarrow> string \<Rightarrow> ConfigChangeRequest \<Rightarrow> ClusterConfig result" where
  "BuildJointConfig current selfID req =
     (case current of
        None \<Rightarrow> Inl ''cannot build joint config from nil current config''
      | Some cur \<Rightarrow>
          if Joint cur then Inl ''config change already in flight (joint consensus active)''
          else
            let oldPeers = copyMap (NewPeers cur);
                oldHTTP = copyMap (NewHTTP cur);
                newPeers = copyMap (NewPeers cur);
                newHTTP = copyMap (NewHTTP cur);
                joint = (\<lambda>ps hs. \<lparr>OldPeers = oldPeers, NewPeers = ps, OldHTTP = oldHTTP,
                                   NewHTTP = hs, Joint = True\<rparr>)
            in if Remove req then
                 (if \<not> has_key newPeers (NodeID req) \<and> NodeID req \<noteq> selfID
                  then Inl (''node '' @ NodeID req @ '' not found in current configuration'')
                  else Inr (joint (AList.delete (NodeID req) newPeers)
                                  (AList.delete (NodeID req) newHTTP)))
               else
                 (if has_key newPeers (NodeID req)
                  then Inl (''node '' @ NodeID req @ '' already in configuration'')
                  else if NodeID req = selfID
                  then Inl ''cannot add self to configuration''
                  else Inr (joint (AList.update (NodeID req) (GRPCAddr req) newPeers)
                                  (AList.update (NodeID req) (HTTPAddr req) newHTTP))))"

fun BuildFinalConfig :: "ClusterConfig option \<Rightarrow> ClusterConfig option" where
  "BuildFinalConfig None = None"
| "BuildFinalConfig (Some joint) =
     Some \<lparr>OldPeers = [], NewPeers = copyMap (NewPeers joint),
           OldHTTP = [], NewHTTP = copyMap (NewHTTP joint), Joint = False\<rparr>"

definition ConfigFromPeers :: "strmap \<Rightarrow> strmap \<Rightarrow> string \<Rightarrow> ClusterConfig" where
  "ConfigFromPeers grpcPeers httpPeers selfID =
     \<lparr>OldPeers = [], NewPeers = AList.update selfID ''localhost:self'' (copyMap grpcPeers),
      OldHTTP = [], NewHTTP = AList.update selfID ''localhost:self'' (copyMap httpPeers),
      Joint = False\<rparr>"

section \<open>Well-formed configurations, members and quorums\<close>

definition wf_config :: "ClusterConfig \<Rightarrow> bool" where
  "wf_config c \<longleftrightarrow> wf_map (OldPeers c) \<and> wf_map (NewPeers c) \<and> wf_map (OldHTTP c) \<and> wf_map (NewHTTP c)"

definition members :: "strmap \<Rightarrow> string set" where
  "members ps = fst ` set ps"

definition voters_of :: "(string, bool) gomap \<Rightarrow> string set" where
  "voters_of m = {i. get_bool m i}"

text \<open>
  A voter set that the majority test of configuration \<open>c\<close> accepts at node \<open>s\<close>, for
  configurations in which every side that is tested has an odd number of members.
\<close>

definition odd_config :: "ClusterConfig \<Rightarrow> bool" where
  "odd_config c \<longleftrightarrow> wf_config c \<and> odd (length (NewPeers c)) \<and>
     (Joint c \<longrightarrow> odd (length (OldPeers c)))"

definition config_quorum :: "ClusterConfig \<Rightarrow> string \<Rightarrow> (string, bool) gomap \<Rightarrow> bool" where
  "config_quorum c s v \<longleftrightarrow> odd_config c \<and> HasMajority (Some c) s v"

text \<open>
  The interface the election argument relies on: a test on (self, votes) whose accepted
  vote sets meet pairwise.
\<close>

locale quorum_test =
  fixes accepts :: "string \<Rightarrow> (string, bool) gomap \<Rightarrow> bool"
  assumes accepted_meet:
    "accepts s v \<Longrightarrow> accepts s' v' \<Longrightarrow> \<exists>i. get_bool v i \<and> get_bool v' i"
begin

lemma accepted_nonempty: "accepts s v \<Longrightarrow> \<exists>i. get_bool v i"
  using accepted_meet by blast

lemma one_vote_each_unique:
  assumes "accepts s v" "accepts s' v'"
    and "\<And>i. get_bool v i \<Longrightarrow> choice i = c" and "\<And>i. get_bool v' i \<Longrightarrow> choice i = c'"
  shows "c = c'"
  using accepted_meet [OF assms(1,2)] assms(3,4) by blast

end

section \<open>Copying and address maps\<close>

lemma copyMap_into_append:
  "wf_map (res @ m) \<Longrightarrow> copyMap_into res m = res @ m"
proof (induction res m rule: copyMap_into.induct)
  case (2 res k v m)
  then have "AList.update k v res = res @ [(k, v)]"
    by (auto simp: wf_map_def intro!: update_fresh)
  with 2 show ?case by simp
qed simp

lemma copyMap_id [simp]: "wf_map m \<Longrightarrow> copyMap m = m"
  by (simp add: copyMap_def copyMap_into_append)

lemma copyMap_into_map_of:
  "map_of (copyMap_into res m) k = (case map_of (rev m) k of None \<Rightarrow> map_of res k | Some v \<Rightarrow> Some v)"
  by (induction res m rule: copyMap_into.induct)
    (auto simp: update_conv' map_add_def split: option.splits)

lemma copyMap_into_wf [intro]: "wf_map res \<Longrightarrow> wf_map (copyMap_into res m)"
  by (induction res m rule: copyMap_into.induct) auto

lemma copyMap_wf [simp, intro!]: "wf_map (copyMap m)"
  by (auto simp: copyMap_def)

lemma addAll_map_of:
  "wf_map m \<Longrightarrow> map_of (addAll s res m) k =
     (if k \<noteq> s \<and> has_key m k then map_of m k else map_of res k)"
  by (induction s res m rule: addAll.induct)
    (auto simp: update_conv' has_key_def)

lemma addMissing_map_of:
  "wf_map m \<Longrightarrow> map_of (addMissing s res m) k =
     (if k \<noteq> s \<and> \<not> has_key res k then map_of m k else map_of res k)"
  by (induction s res m rule: addMissing.induct)
    (auto simp: update_conv' has_key_def)

lemma addAll_wf: "wf_map res \<Longrightarrow> wf_map (addAll s res m)"
  by (induction s res m rule: addAll.induct) auto

lemma addMissing_wf: "wf_map res \<Longrightarrow> wf_map (addMissing s res m)"
  by (induction s res m rule: addMissing.induct) auto

lemma AllNodeGRPC_wf [simp, intro!]: "wf_map (AllNodeGRPC c s)"
  by (cases c) (auto simp: Let_def intro!: addAll_wf addMissing_wf)

lemma AllNodeGRPC_map_of:
  assumes "wf_config c"
  shows "map_of (AllNodeGRPC (Some c) s) k =
    (if k = s then None
     else if has_key (NewPeers c) k then map_of (NewPeers c) k
     else if Joint c then map_of (OldPeers c) k else None)"
  using assms
  by (auto simp: wf_config_def Let_def addAll_map_of addMissing_map_of has_key_def)

section \<open>The majority test, exactly\<close>

lemma countVotes_length: "countVotes v ps = length (filter (\<lambda>p. get_bool v (fst p)) ps)"
  by (induction v ps rule: countVotes.induct) auto

lemma countVotes_card: "wf_map ps \<Longrightarrow> countVotes v ps = card (members ps \<inter> voters_of v)"
proof -
  assume wf: "wf_map ps"
  have "fst ` set (filter (\<lambda>p. get_bool v (fst p)) ps) = members ps \<inter> voters_of v"
    by (auto simp: members_def voters_of_def)
  with wf_map_card [OF wf_map_filter [OF wf, of "\<lambda>p. get_bool v (fst p)"]] show ?thesis
    by (simp add: countVotes_length)
qed

lemma members_finite [simp, intro!]: "finite (members ps)"
  by (simp add: members_def)

lemma has_key_members: "has_key ps k \<longleftrightarrow> k \<in> members ps"
  by (simp add: members_def has_key_set)

lemma members_card: "wf_map ps \<Longrightarrow> card (members ps) = length ps"
  by (simp add: members_def wf_map_card)

lemma sideMajority_exact:
  assumes "wf_map ps"
  shows "sideMajority s v ps \<longleftrightarrow>
    (let k = card (members ps \<inter> voters_of v); n = card (members ps)
     in if s \<in> members ps then (if get_bool v s then (n + 1) div 2 \<le> k else (n + 1) div 2 < k)
        else n div 2 < k)"
  using assms by (auto simp: sideMajority_def Let_def countVotes_card has_key_members members_card)

lemma sideMajority_odd:
  assumes "wf_map ps" "odd (length ps)" "sideMajority s v ps"
  shows "card (members ps) < 2 * card (members ps \<inter> voters_of v)"
  using assms by (auto simp: sideMajority_exact Let_def members_card elim!: oddE split: if_splits)

lemma sideMajority_meet:
  assumes "wf_map ps" "odd (length ps)" "sideMajority s v ps" "sideMajority s' v' ps"
  shows "\<exists>i \<in> members ps. get_bool v i \<and> get_bool v' i"
proof -
  have "card (members ps) < card (members ps \<inter> voters_of v) + card (members ps \<inter> voters_of v')"
    using sideMajority_odd [OF assms(1,2,3)] sideMajority_odd [OF assms(1,2,4)] by simp
  then have "members ps \<inter> voters_of v \<inter> (members ps \<inter> voters_of v') \<noteq> {}"
    by (intro large_subsets_meet [of "members ps"]) auto
  then show ?thesis by (auto simp: voters_of_def)
qed

interpretation cfgq: quorum_test "config_quorum c" for c
  by unfold_locales
    (auto simp: config_quorum_def odd_config_def wf_config_def split: if_splits
      dest: sideMajority_meet)

section \<open>Membership changes\<close>

lemma BuildJointConfig_Inr:
  assumes "BuildJointConfig cur s req = Inr j"
  obtains c where "cur = Some c" "\<not> Joint c"
    "OldPeers j = copyMap (NewPeers c)" "OldHTTP j = copyMap (NewHTTP c)" "Joint j"
    "NewPeers j = (if Remove req then AList.delete (NodeID req) (copyMap (NewPeers c))
       else AList.update (NodeID req) (GRPCAddr req) (copyMap (NewPeers c)))"
    "NewHTTP j = (if Remove req then AList.delete (NodeID req) (copyMap (NewHTTP c))
       else AList.update (NodeID req) (HTTPAddr req) (copyMap (NewHTTP c)))"
  using assms
  by (auto simp: BuildJointConfig_def Let_def split: option.splits if_splits intro!: that)

lemma BuildJointConfig_wf: "BuildJointConfig cur s req = Inr j \<Longrightarrow> wf_config j"
  by (erule BuildJointConfig_Inr) (simp add: wf_config_def)

lemma members_update: "members (AList.update k v m) = insert k (members m)"
  by (auto simp: has_key_members [symmetric] has_key_update)

lemma members_delete: "members (AList.delete k m) = members m - {k}"
  by (auto simp: has_key_members [symmetric] has_key_delete)

lemma copyMap_into_keys: "fst ` set (copyMap_into res m) = fst ` set res \<union> fst ` set m"
  by (induction res m rule: copyMap_into.induct) (auto simp: dom_update)

lemma members_copy [simp]: "members (copyMap m) = members m"
  by (simp add: members_def copyMap_def copyMap_into_keys)

lemma ConfigFromPeers_wf: "wf_config (ConfigFromPeers g h s)"
  by (simp add: ConfigFromPeers_def wf_config_def)

lemma markSeen_keys: "fst ` set (markSeen seen m) = fst ` set seen \<union> members m"
  by (induction seen m rule: markSeen.induct) (auto simp: members_def dom_update)

lemma markSeen_wf: "wf_map seen \<Longrightarrow> wf_map (markSeen seen m)"
  by (induction seen m rule: markSeen.induct) auto

section \<open>Properties\<close>


lemma voters_of_pair: "voters_of [(a, True), (b, True)] = {a, b}"
  by (auto simp: voters_of_def get_bool_def)


text \<open>
  C17. Any two vote sets that the majority test of one configuration accepts, at whatever
  nodes it is run, share a voter, provided every tested side has an odd number of members;
  during joint consensus this covers the test of both sides.
\<close>

theorem HasMajority_quorums_meet:
  assumes "odd_config c" "HasMajority (Some c) s v" "HasMajority (Some c) s' v'"
  shows "\<exists>i. get_bool v i \<and> get_bool v' i"
  using assms by (intro cfgq.accepted_meet [of c s v s' v']) (auto simp: config_quorum_def)

theorem HasMajority_quorums_meet_witness:
  "\<exists>i. get_bool [(''a'', True), (''b'', True)] i \<and> get_bool [(''b'', True), (''c'', True)] i"
proof (rule HasMajority_quorums_meet)
  let ?c = "\<lparr>OldPeers = [], NewPeers = [(''a'', ''A''), (''b'', ''B''), (''c'', ''C'')],
    OldHTTP = [], NewHTTP = [], Joint = False\<rparr>"
  show "odd_config ?c" by (simp add: odd_config_def wf_config_def)
  show "HasMajority (Some ?c) ''a'' [(''a'', True), (''b'', True)]"
    by (simp add: sideMajority_def has_key_def get_bool_def)
  show "HasMajority (Some ?c) ''c'' [(''b'', True), (''c'', True)]"
    by (simp add: sideMajority_def has_key_def get_bool_def)
qed

text \<open>
  C33. On a steady configuration of even size, half of the members is enough: if the members
  split into two halves, the majority test accepts each half at each of its own nodes, so
  two disjoint quorums exist.
\<close>

theorem HasMajority_even_split_brain:
  assumes "wf_map (NewPeers c)" "\<not> Joint c"
    and "members (NewPeers c) = voters_of v \<union> voters_of v'" "voters_of v \<inter> voters_of v' = {}"
    and "card (voters_of v) = card (voters_of v')"
    and "get_bool v s" "get_bool v' s'"
  shows "HasMajority (Some c) s v \<and> HasMajority (Some c) s' v'"
proof -
  have fin: "finite (voters_of v)" "finite (voters_of v')"
    using assms(3) members_finite [of "NewPeers c"] by auto
  have "card (members (NewPeers c)) = 2 * card (voters_of v)"
    using assms(3,4,5) fin by (simp add: card_Un_disjoint)
  moreover have "members (NewPeers c) \<inter> voters_of v = voters_of v"
    "members (NewPeers c) \<inter> voters_of v' = voters_of v'"
    using assms(3) by auto
  moreover have "s \<in> members (NewPeers c)" "s' \<in> members (NewPeers c)"
    using assms(3,6,7) by (auto simp: voters_of_def)
  ultimately show ?thesis
    using assms by (auto simp: sideMajority_exact Let_def)
qed

theorem HasMajority_even_split_brain_witness:
  "let c = ConfigFromPeers [(''b'', ''B''), (''c'', ''C''), (''d'', ''D'')] [] ''a''
   in HasMajority (Some c) ''a'' [(''a'', True), (''b'', True)] \<and>
      HasMajority (Some c) ''c'' [(''c'', True), (''d'', True)]"
  unfolding Let_def
proof (rule HasMajority_even_split_brain)
  let ?c = "ConfigFromPeers [(''b'', ''B''), (''c'', ''C''), (''d'', ''D'')] [] ''a''"
  show "wf_map (NewPeers ?c)" "\<not> Joint ?c" by (simp_all add: ConfigFromPeers_def)
  show "members (NewPeers ?c) =
      voters_of [(''a'', True), (''b'', True)] \<union> voters_of [(''c'', True), (''d'', True)]"
    by (auto simp: voters_of_pair members_def ConfigFromPeers_def copyMap_def)
qed (simp_all add: voters_of_pair get_bool_def)

text \<open>
  The peer map of a configuration holds exactly its members other than the node itself,
  and the voter count is the number of members together with the node itself.
\<close>

theorem AllNodeGRPC_ContainsNode:
  assumes "wf_config c"
  shows "(has_key (AllNodeGRPC (Some c) s) k \<longleftrightarrow> k \<noteq> s \<and> ContainsNode (Some c) k) \<and>
    VoterCount (Some c) s = Suc (length (AllNodeGRPC (Some c) s))"
proof
  show keys: "has_key (AllNodeGRPC (Some c) s) k \<longleftrightarrow> k \<noteq> s \<and> ContainsNode (Some c) k" for k
    using AllNodeGRPC_map_of [OF assms, of s k] by (auto simp: has_key_def simp del: AllNodeGRPC.simps)
  let ?seen = "markSeen (AList.update s True []) (NewPeers c)"
  let ?all = "if Joint c then markSeen ?seen (OldPeers c) else ?seen"
  have "fst ` set ?all = insert s {k. has_key (AllNodeGRPC (Some c) s) k}"
    unfolding keys by (auto simp: markSeen_keys has_key_members split: if_splits)
  also have "{k. has_key (AllNodeGRPC (Some c) s) k} = fst ` set (AllNodeGRPC (Some c) s)"
    by (auto simp: has_key_set)
  finally have "card (fst ` set ?all) = Suc (card (fst ` set (AllNodeGRPC (Some c) s)))"
    using keys [of s] by (simp add: has_key_set)
  moreover have "wf_map ?all" by (auto intro!: markSeen_wf)
  ultimately show "VoterCount (Some c) s = Suc (length (AllNodeGRPC (Some c) s))"
    by (simp add: wf_map_card [symmetric] del: AllNodeGRPC.simps split: if_splits)
qed

theorem AllNodeGRPC_ContainsNode_witness:
  "VoterCount (Some (ConfigFromPeers [(''b'', ''B'')] [] ''a'')) ''a'' = 2"
  using AllNodeGRPC_ContainsNode [OF ConfigFromPeers_wf, of "[(''b'', ''B'')]" "[]" "''a''" "''a''" "''b''"]
  by (simp add: ConfigFromPeers_def copyMap_def)


end
