(* ===== verification/Json.thy ===== *)
theory Json
  imports Prelude "HOL-Library.Multiset" "HOL-Library.List_Lexorder" "HOL-Library.Char_ord"
begin

text \<open>
  The part of the Go standard library's \<^verbatim>\<open>encoding/json\<close> and \<^verbatim>\<open>unicode/utf8\<close> that the
  program uses: rendering of JSON values with Go's string escaping (Go 1.22, HTML escaping
  on), parsing, decimal integers, and the assignment of object members to struct fields.
  Every caller in the program discards a value whose decoding fails, so decoders return an
  option. The parser takes fuel one above twice the length of its input; the round-trip lemmas
  show that this is enough for everything the program renders. The library's limit on the
  nesting depth (10000) is not modelled.

  The library's map rendering sorts keys, which is \<^const>\<open>sort_key\<close> on the bytewise order.
\<close>

section \<open>UTF-8\<close>

definition byte :: "char \<Rightarrow> nat" where
  "byte c = of_char c"

definition cont :: "char \<Rightarrow> bool" where
  "cont c \<longleftrightarrow> 128 \<le> byte c \<and> byte c \<le> 191"

text \<open>
  \<^verbatim>\<open>utf8.DecodeRune\<close> on a string whose first byte is not ASCII: the rune and its width, or
  \<open>None\<close> for an invalid encoding (which Go reports as the replacement rune of width one).
\<close>

fun DecodeRune :: "bytes \<Rightarrow> (nat \<times> nat) option" where
  "DecodeRune (a # b # s) =
     (if 194 \<le> byte a \<and> byte a \<le> 223 then
        (if cont b then Some ((byte a - 192) * 64 + (byte b - 128), 2) else None)
      else (case s of [] \<Rightarrow> None | c # s' \<Rightarrow>
        if 224 \<le> byte a \<and> byte a \<le> 239 then
          (if cont b \<and> (byte a = 224 \<longrightarrow> 160 \<le> byte b) \<and> (byte a = 237 \<longrightarrow> byte b \<le> 159) \<and> cont c
           then Some (((byte a - 224) * 64 + (byte b - 128)) * 64 + (byte c - 128), 3) else None)
        else (case s' of [] \<Rightarrow> None | d # _ \<Rightarrow>
          if 240 \<le> byte a \<and> byte a \<le> 244 \<and> cont b \<and> (byte a = 240 \<longrightarrow> 144 \<le> byte b) \<and>
             (byte a = 244 \<longrightarrow> byte b \<le> 143) \<and> cont c \<and> cont d
          then Some ((((byte a - 240) * 64 + (byte b - 128)) * 64 + (byte c - 128)) * 64
                 + (byte d - 128), 4)
          else None)))"
| "DecodeRune _ = None"

text \<open>\<^verbatim>\<open>utf8.EncodeRune\<close> of a rune that is not a surrogate half.\<close>

definition EncodeRune :: "nat \<Rightarrow> bytes" where
  "EncodeRune r =
     (if r < 128 then [char_of r]
      else if r < 2048 then [char_of (192 + r div 64), char_of (128 + r mod 64)]
      else if r < 65536 then
        [char_of (224 + r div 4096), char_of (128 + r div 64 mod 64), char_of (128 + r mod 64)]
      else
        [char_of (240 + r div 262144), char_of (128 + r div 4096 mod 64),
         char_of (128 + r div 64 mod 64), char_of (128 + r mod 64)])"

definition replacement :: bytes where
  "replacement = [char_of (239::nat), char_of (191::nat), char_of (189::nat)]"

section \<open>Rendering\<close>

datatype json =
    JNull
  | JBool bool
  | JNum string
  | JStr string
  | JArr "json list"
  | JObj "(string \<times> json) list"

definition hexDigit :: "nat \<Rightarrow> char" where
  "hexDigit n = (if n < 10 then char_of (48 + n) else char_of (87 + n))"

definition escapeASCII :: "char \<Rightarrow> bytes" where
  "escapeASCII c =
     (if c = CHR ''\"'' \<or> c = CHR 0x5C then [CHR 0x5C, c]
      else if byte c = 8 then [CHR 0x5C, CHR ''b'']
      else if byte c = 12 then [CHR 0x5C, CHR ''f'']
      else if byte c = 10 then [CHR 0x5C, CHR ''n'']
      else if byte c = 13 then [CHR 0x5C, CHR ''r'']
      else if byte c = 9 then [CHR 0x5C, CHR ''t'']
      else if byte c < 32 \<or> c = CHR ''<'' \<or> c = CHR ''>'' \<or> c = CHR ''&'' then
        [CHR 0x5C, CHR ''u'', CHR ''0'', CHR ''0'', hexDigit (byte c div 16), hexDigit (byte c mod 16)]
      else [c])"

function quoteBody :: "bytes \<Rightarrow> bytes" where
  "quoteBody [] = []"
| "quoteBody (c # cs) =
     (if byte c < 128 then escapeASCII c @ quoteBody cs
      else (case DecodeRune (c # cs) of
          None \<Rightarrow> [CHR 0x5C] @ ''ufffd'' @ quoteBody cs
        | Some (r, n) \<Rightarrow>
            (if r = 8232 \<or> r = 8233 then [CHR 0x5C] @ ''u202'' @ [hexDigit (r mod 16)]
             else take n (c # cs)) @ quoteBody (drop (n - 1) cs)))"
  by pat_completeness auto
termination
  by (relation "measure length") auto

definition quote :: "bytes \<Rightarrow> bytes" where
  "quote s = CHR ''\"'' # quoteBody s @ [CHR ''\"'']"

fun intersperse :: "bytes list \<Rightarrow> bytes" where
  "intersperse [] = []"
| "intersperse [x] = x"
| "intersperse (x # y # xs) = x @ CHR '','' # intersperse (y # xs)"

fun json_print :: "json \<Rightarrow> bytes" where
  "json_print JNull = ''null''"
| "json_print (JBool b) = (if b then ''true'' else ''false'')"
| "json_print (JNum lexeme) = lexeme"
| "json_print (JStr s) = quote s"
| "json_print (JArr vs) = CHR ''['' # intersperse (map json_print vs) @ '']''"
| "json_print (JObj ms) =
     CHR ''{'' # intersperse (map (\<lambda>(k, v). quote k @ CHR '':'' # json_print v) ms) @ ''}''"

section \<open>Decimal integers\<close>

definition isDigit :: "char \<Rightarrow> bool" where
  "isDigit c \<longleftrightarrow> 48 \<le> byte c \<and> byte c \<le> 57"

fun show_nat :: "nat \<Rightarrow> string" where
  "show_nat n = (if n < 10 then [char_of (48 + n)] else show_nat (n div 10) @ [char_of (48 + n mod 10)])"

declare show_nat.simps [simp del]

definition FormatInt :: "int \<Rightarrow> string" where
  "FormatInt i = (if i < 0 then CHR ''-'' # show_nat (nat (- i)) else show_nat (nat i))"

fun digits_val :: "nat \<Rightarrow> string \<Rightarrow> nat" where
  "digits_val acc [] = acc"
| "digits_val acc (c # cs) = digits_val (acc * 10 + (byte c - 48)) cs"

text \<open>\<^verbatim>\<open>strconv.ParseInt(s, 10, 64)\<close> on a JSON number: integers in the range of \<^verbatim>\<open>int64\<close> only.\<close>

definition ParseInt :: "string \<Rightarrow> int option" where
  "ParseInt s =
     (let neg = (s \<noteq> [] \<and> hd s = CHR ''-''); ds = (if neg then tl s else s);
          v = (if neg then - int (digits_val 0 ds) else int (digits_val 0 ds))
      in if ds \<noteq> [] \<and> list_all isDigit ds \<and> - (2 ^ 63) \<le> v \<and> v < 2 ^ 63 then Some v else None)"

section \<open>Parsing\<close>

definition isSpace :: "char \<Rightarrow> bool" where
  "isSpace c \<longleftrightarrow> c = CHR '' '' \<or> byte c = 9 \<or> byte c = 10 \<or> byte c = 13"

definition skipWs :: "bytes \<Rightarrow> bytes" where
  "skipWs s = dropWhile isSpace s"

definition hexVal :: "char \<Rightarrow> nat option" where
  "hexVal c =
     (if isDigit c then Some (byte c - 48)
      else if 97 \<le> byte c \<and> byte c \<le> 102 then Some (byte c - 87)
      else if 65 \<le> byte c \<and> byte c \<le> 70 then Some (byte c - 55)
      else None)"

fun getu4 :: "bytes \<Rightarrow> (nat \<times> bytes) option" where
  "getu4 (a # b # c # d # r) =
     (case (hexVal a, hexVal b, hexVal c, hexVal d) of
        (Some i, Some j, Some k, Some l) \<Rightarrow> Some (((i * 16 + j) * 16 + k) * 16 + l, r)
      | _ \<Rightarrow> None)"
| "getu4 _ = None"

text \<open>
  After \<^verbatim>\<open>\u\<close>: a high surrogate followed by an escaped low one is one rune; any other
  surrogate half becomes the replacement rune.
\<close>

definition unescapeU :: "nat \<Rightarrow> bytes \<Rightarrow> bytes \<times> bytes" where
  "unescapeU u r =
     (if 55296 \<le> u \<and> u < 57344 then
        (case r of
           a # b # r' \<Rightarrow>
             (if a = CHR 0x5C \<and> b = CHR ''u'' then
                (case getu4 r' of
                   Some (l, r'') \<Rightarrow>
                     if u < 56320 \<and> 56320 \<le> l \<and> l < 57344
                     then (EncodeRune ((u - 55296) * 1024 + (l - 56320) + 65536), r'')
                     else (replacement, r)
                 | None \<Rightarrow> (replacement, r))
              else (replacement, r))
         | _ \<Rightarrow> (replacement, r))
      else (EncodeRune u, r))"

definition unescapeChar :: "char \<Rightarrow> bytes option" where
  "unescapeChar e =
     (if e = CHR ''\"'' \<or> e = CHR 0x5C \<or> e = CHR ''/'' then Some [e]
      else if e = CHR ''b'' then Some [char_of (8::nat)]
      else if e = CHR ''f'' then Some [char_of (12::nat)]
      else if e = CHR ''n'' then Some [char_of (10::nat)]
      else if e = CHR ''r'' then Some [char_of (13::nat)]
      else if e = CHR ''t'' then Some [char_of (9::nat)]
      else None)"

lemma getu4_length: "getu4 s = Some (u, r) \<Longrightarrow> length r < length s"
  by (induction s rule: getu4.induct) (auto split: option.splits)

lemma unescapeU_length: "unescapeU u r = (x, r') \<Longrightarrow> length r' \<le> length r"
  by (auto simp: unescapeU_def split: if_splits list.splits option.splits dest!: getu4_length)

text \<open>The body of a string literal, from behind the opening quote to behind the closing one.\<close>

function parseStr :: "bytes \<Rightarrow> (bytes \<times> bytes) option" where
  "parseStr [] = None"
| "parseStr (c # cs) =
     (if c = CHR ''\"'' then Some ([], cs)
      else if c = CHR 0x5C then
        (case cs of
           [] \<Rightarrow> None
         | e # r \<Rightarrow>
             if e = CHR ''u'' then
               (case getu4 r of
                  None \<Rightarrow> None
                | Some (u, r') \<Rightarrow>
                    (case unescapeU u r' of (x, r'') \<Rightarrow>
                       map_option (\<lambda>(s, t). (x @ s, t)) (parseStr r'')))
             else
               (case unescapeChar e of
                  None \<Rightarrow> None
                | Some x \<Rightarrow> map_option (\<lambda>(s, t). (x @ s, t)) (parseStr r)))
      else if byte c < 32 then None
      else if byte c < 128 then map_option (\<lambda>(s, t). (c # s, t)) (parseStr cs)
      else (case DecodeRune (c # cs) of
          None \<Rightarrow> map_option (\<lambda>(s, t). (replacement @ s, t)) (parseStr cs)
        | Some (r, n) \<Rightarrow>
            map_option (\<lambda>(s, t). (take n (c # cs) @ s, t)) (parseStr (drop (n - 1) cs))))"
  by pat_completeness auto
termination
proof (relation "measure length", goal_cases)
  case (2 c cs e r u r' x r'')
  then show ?case
    by simp (metis getu4_length unescapeU_length le_less_trans less_SucI less_trans lessI not_less_eq)
qed auto

text \<open>A number literal: its lexeme and the rest.\<close>

definition spanDigits :: "bytes \<Rightarrow> bytes \<times> bytes" where
  "spanDigits s = (takeWhile isDigit s, dropWhile isDigit s)"

definition parseFrac :: "bytes \<Rightarrow> (bytes \<times> bytes) option" where
  "parseFrac s = (case s of
     c # r \<Rightarrow> if c = CHR ''.'' then
               (case spanDigits r of (ds, r') \<Rightarrow> if ds = [] then None else Some (c # ds, r'))
             else Some ([], s)
   | [] \<Rightarrow> Some ([], s))"

definition parseExp :: "bytes \<Rightarrow> (bytes \<times> bytes) option" where
  "parseExp s = (case s of
     c # r \<Rightarrow> if c = CHR ''e'' \<or> c = CHR ''E'' then
               (let sg = (if r \<noteq> [] \<and> (hd r = CHR ''+'' \<or> hd r = CHR ''-'') then [hd r] else []);
                    r1 = (if sg = [] then r else tl r)
                in case spanDigits r1 of (ds, r') \<Rightarrow>
                     if ds = [] then None else Some (c # sg @ ds, r'))
             else Some ([], s)
   | [] \<Rightarrow> Some ([], s))"

definition parseInt :: "bytes \<Rightarrow> (bytes \<times> bytes) option" where
  "parseInt s = (case s of
     c # r \<Rightarrow> if c = CHR ''0'' then Some ([c], r)
             else if isDigit c then Some (spanDigits s) else None
   | [] \<Rightarrow> None)"

definition parseNum :: "bytes \<Rightarrow> (bytes \<times> bytes) option" where
  "parseNum s =
     (let sg = (if s \<noteq> [] \<and> hd s = CHR ''-'' then [hd s] else []);
          s1 = (if sg = [] then s else tl s)
      in case parseInt s1 of None \<Rightarrow> None | Some (i, s2) \<Rightarrow>
         (case parseFrac s2 of None \<Rightarrow> None | Some (f, s3) \<Rightarrow>
           (case parseExp s3 of None \<Rightarrow> None | Some (e, s4) \<Rightarrow> Some (sg @ i @ f @ e, s4))))"

definition stripPrefix :: "bytes \<Rightarrow> bytes \<Rightarrow> bytes option" where
  "stripPrefix p s = (if take (length p) s = p then Some (drop (length p) s) else None)"

fun parseValue :: "nat \<Rightarrow> bytes \<Rightarrow> (json \<times> bytes) option"
  and parseElems :: "nat \<Rightarrow> bytes \<Rightarrow> (json list \<times> bytes) option"
  and parseMembers :: "nat \<Rightarrow> bytes \<Rightarrow> ((string \<times> json) list \<times> bytes) option" where
  "parseValue 0 s = None"
| "parseValue (Suc n) s =
     (case skipWs s of
        [] \<Rightarrow> None
      | c # r \<Rightarrow>
          if c = CHR ''n'' then map_option (Pair JNull) (stripPrefix ''ull'' r)
          else if c = CHR ''t'' then map_option (Pair (JBool True)) (stripPrefix ''rue'' r)
          else if c = CHR ''f'' then map_option (Pair (JBool False)) (stripPrefix ''alse'' r)
          else if c = CHR ''\"'' then map_option (\<lambda>(t, r'). (JStr t, r')) (parseStr r)
          else if c = CHR ''['' then
            (case skipWs r of
               [] \<Rightarrow> None
             | d # r' \<Rightarrow> if d = CHR '']'' then Some (JArr [], r')
                         else map_option (\<lambda>(vs, t). (JArr vs, t)) (parseElems n r))
          else if c = CHR ''{'' then
            (case skipWs r of
               [] \<Rightarrow> None
             | d # r' \<Rightarrow> if d = CHR ''}'' then Some (JObj [], r')
                         else map_option (\<lambda>(ms, t). (JObj ms, t)) (parseMembers n r))
          else map_option (\<lambda>(l, r'). (JNum l, r')) (parseNum (c # r)))"
| "parseElems 0 s = None"
| "parseElems (Suc n) s =
     (case parseValue n s of
        None \<Rightarrow> None
      | Some (v, r) \<Rightarrow>
          (case skipWs r of
             [] \<Rightarrow> None
           | c # r' \<Rightarrow> if c = CHR '']'' then Some ([v], r')
                       else if c = CHR '','' then
                         map_option (\<lambda>(vs, t). (v # vs, t)) (parseElems n r')
                       else None))"
| "parseMembers 0 s = None"
| "parseMembers (Suc n) s =
     (case skipWs s of
        [] \<Rightarrow> None
      | q # r0 \<Rightarrow>
          if q \<noteq> CHR ''\"'' then None
          else (case parseStr r0 of
              None \<Rightarrow> None
            | Some (k, r1) \<Rightarrow>
                (case skipWs r1 of
                   [] \<Rightarrow> None
                 | d # r2 \<Rightarrow>
                     if d \<noteq> CHR '':'' then None
                     else (case parseValue n r2 of
                         None \<Rightarrow> None
                       | Some (v, r3) \<Rightarrow>
                           (case skipWs r3 of
                              [] \<Rightarrow> None
                            | c # r' \<Rightarrow>
                                if c = CHR ''}'' then Some ([(k, v)], r')
                                else if c = CHR '','' then
                                  map_option (\<lambda>(ms, t). ((k, v) # ms, t)) (parseMembers n r')
                                else None)))))"

definition json_parse :: "bytes \<Rightarrow> json option" where
  "json_parse s =
     (case parseValue (Suc (2 * length s)) s of
        None \<Rightarrow> None
      | Some (v, r) \<Rightarrow> if skipWs r = [] then Some v else None)"

section \<open>Struct fields\<close>

fun foldM :: "('x \<Rightarrow> 's \<Rightarrow> 's option) \<Rightarrow> 'x list \<Rightarrow> 's \<Rightarrow> 's option" where
  "foldM f [] s = Some s"
| "foldM f (x # xs) s = (case f x s of None \<Rightarrow> None | Some s' \<Rightarrow> foldM f xs s')"

definition lowerChar :: "char \<Rightarrow> char" where
  "lowerChar c = (if 65 \<le> byte c \<and> byte c \<le> 90 then char_of (byte c + 32) else c)"

text \<open>
  The field a member is assigned to: the one with that exact name, or else the first that
  agrees up to (ASCII) case; a member that matches none is ignored. A null leaves a string,
  number or boolean unchanged; a value of another type makes decoding fail.
\<close>

definition fieldFor :: "string list \<Rightarrow> string \<Rightarrow> string option" where
  "fieldFor names key =
     (if key \<in> set names then Some key
      else find (\<lambda>n. map lowerChar n = map lowerChar key) names)"

definition decodeMember ::
  "string list \<Rightarrow> (string \<Rightarrow> json \<Rightarrow> 's \<Rightarrow> 's option) \<Rightarrow> string \<times> json \<Rightarrow> 's \<Rightarrow> 's option" where
  "decodeMember names upd p s =
     (case fieldFor names (fst p) of None \<Rightarrow> Some s | Some n \<Rightarrow> upd n (snd p) s)"

definition decodeStruct ::
  "string list \<Rightarrow> (string \<Rightarrow> json \<Rightarrow> 's \<Rightarrow> 's option) \<Rightarrow> json \<Rightarrow> 's \<Rightarrow> 's option" where
  "decodeStruct names upd v s =
     (case v of
        JNull \<Rightarrow> Some s
      | JObj ms \<Rightarrow> foldM (decodeMember names upd) ms s
      | _ \<Rightarrow> None)"

definition setStr :: "json \<Rightarrow> string \<Rightarrow> string option" where
  "setStr v old = (case v of JStr s \<Rightarrow> Some s | JNull \<Rightarrow> Some old | _ \<Rightarrow> None)"

definition setInt :: "json \<Rightarrow> int \<Rightarrow> int option" where
  "setInt v old = (case v of JNum l \<Rightarrow> ParseInt l | JNull \<Rightarrow> Some old | _ \<Rightarrow> None)"

definition setBool :: "json \<Rightarrow> bool \<Rightarrow> bool option" where
  "setBool v old = (case v of JBool b \<Rightarrow> Some b | JNull \<Rightarrow> Some old | _ \<Rightarrow> None)"

definition setMapMember :: "(json \<Rightarrow> 'v option) \<Rightarrow> string \<times> json \<Rightarrow> (string, 'v) gomap \<Rightarrow> (string, 'v) gomap option" where
  "setMapMember dec p m = map_option (\<lambda>x. AList.update (fst p) x m) (dec (snd p))"

text \<open>A map: null makes it nil, an object adds its members, in order.\<close>

definition setMap :: "(json \<Rightarrow> 'v option) \<Rightarrow> json \<Rightarrow> (string, 'v) gomap \<Rightarrow> (string, 'v) gomap option" where
  "setMap dec v old =
     (case v of JNull \<Rightarrow> Some [] | JObj ms \<Rightarrow> foldM (setMapMember dec) ms old | _ \<Rightarrow> None)"

abbreviation setStrMap :: "json \<Rightarrow> strmap \<Rightarrow> strmap option" where
  "setStrMap \<equiv> setMap (\<lambda>v. setStr v [])"

definition encMap :: "('v \<Rightarrow> json) \<Rightarrow> (string, 'v) gomap \<Rightarrow> json" where
  "encMap enc m = JObj (map (\<lambda>p. (fst p, enc (snd p))) (sort_key fst m))"

section \<open>What a round trip does to a value\<close>

text \<open>
  Invalid UTF-8 does not survive: every byte that starts no valid encoding is rendered as
  the replacement rune. \<open>sanitize\<close> is the resulting string.
\<close>

function sanitize :: "bytes \<Rightarrow> bytes" where
  "sanitize [] = []"
| "sanitize (c # cs) =
     (if byte c < 128 then c # sanitize cs
      else (case DecodeRune (c # cs) of
          None \<Rightarrow> replacement @ sanitize cs
        | Some (r, n) \<Rightarrow> take n (c # cs) @ sanitize (drop (n - 1) cs)))"
  by pat_completeness auto
termination
  by (relation "measure length") auto

fun wf_json :: "json \<Rightarrow> bool" where
  "wf_json (JNum l) = (\<exists>i. l = FormatInt i)"
| "wf_json (JArr vs) = (\<forall>v \<in> set vs. wf_json v)"
| "wf_json (JObj ms) = (\<forall>p \<in> set ms. wf_json (snd p))"
| "wf_json _ = True"

fun sanitize_json :: "json \<Rightarrow> json" where
  "sanitize_json (JStr s) = JStr (sanitize s)"
| "sanitize_json (JArr vs) = JArr (map sanitize_json vs)"
| "sanitize_json (JObj ms) = JObj (map (\<lambda>p. (sanitize (fst p), sanitize_json (snd p))) ms)"
| "sanitize_json v = v"

section \<open>Auxiliary predicates of the round-trip proof\<close>

definition stop :: "bytes \<Rightarrow> bool" where
  "stop r \<longleftrightarrow> r = [] \<or> hd r \<in> {CHR '','', CHR '']'', CHR ''}'', CHR 0x0A}"

definition starts :: "bytes \<Rightarrow> bool" where
  "starts s \<longleftrightarrow> s \<noteq> [] \<and> \<not> isSpace (hd s) \<and> hd s \<noteq> CHR '']'' \<and> hd s \<noteq> CHR ''}''"

definition value_ok :: "json \<Rightarrow> bool" where
  "value_ok v \<longleftrightarrow> (\<forall>n r. stop r \<longrightarrow> 2 * length (json_print v) < n \<longrightarrow>
     parseValue n (json_print v @ r) = Some (sanitize_json v, r))"

definition print_member :: "string \<times> json \<Rightarrow> bytes" where
  "print_member p = quote (fst p) @ CHR '':'' # json_print (snd p)"

section \<open>Strings\<close>

lemma DecodeRune_take:
  assumes "DecodeRune s = Some (r, n)"
  shows "2 \<le> n \<and> n \<le> length s \<and> DecodeRune (take n s @ t) = Some (r, n)"
  using assms
  by (cases s rule: DecodeRune.cases) (auto split: if_splits list.splits)

lemma hexVal_hexDigit: "n < 16 \<Longrightarrow> hexVal (hexDigit n) = Some n"
  by (simp add: hexVal_def hexDigit_def isDigit_def byte_def)

lemma byte_char: "byte c = n \<Longrightarrow> c = char_of n"
  by (auto simp: byte_def)

lemma DecodeRune_LS:
  assumes "DecodeRune s = Some (r, n)" "r = 8232 \<or> r = 8233"
  shows "n = 3 \<and> take 3 s = EncodeRune r"
proof -
  obtain a b s1 where s: "s = a # b # s1"
    using assms(1) by (cases s rule: DecodeRune.cases) auto
  have "\<not> (194 \<le> byte a \<and> byte a \<le> 223)"
    using assms by (auto simp: s cont_def split: if_splits)
  with assms(1) obtain c s2 where s1: "s1 = c # s2"
    by (auto simp: s split: list.splits)
  have "224 \<le> byte a \<and> byte a \<le> 239 \<and> cont b \<and> cont c \<and> n = 3 \<and>
      r = ((byte a - 224) * 64 + (byte b - 128)) * 64 + (byte c - 128)"
    using assms \<open>\<not> (194 \<le> byte a \<and> byte a \<le> 223)\<close>
    by (auto simp: s s1 cont_def split: if_splits list.splits)
  then obtain x y z where "byte a = 224 + x" "byte b = 128 + y" "byte c = 128 + z" "n = 3"
    "r = (x * 64 + y) * 64 + z" "y < 64" "z < 64"
    by (auto simp: cont_def nat_le_iff_add)
  with assms(2) have "x = 2" by auto
  with \<open>r = (x * 64 + y) * 64 + z\<close> \<open>y < 64\<close> \<open>z < 64\<close> assms(2) have "y = 0" by auto
  with \<open>r = (x * 64 + y) * 64 + z\<close> \<open>x = 2\<close> have "x = 2 \<and> y = 0 \<and> z = r - 8192" by simp
  then have "byte a = 226" "byte b = 128" "byte c = 128 + (r - 8192)"
    using \<open>byte a = 224 + x\<close> \<open>byte b = 128 + y\<close> \<open>byte c = 128 + z\<close> by simp_all
  then have "a = char_of (226::nat)" "b = char_of (128::nat)" "c = char_of (128 + (r - 8192))"
    by (auto dest: byte_char)
  with assms(2) \<open>n = 3\<close> show ?thesis
    by (auto simp: s s1 EncodeRune_def)
qed

declare parseStr.simps [simp del]

lemma parseStr_u:
  "getu4 r = Some (u, r') \<Longrightarrow> u < 55296 \<or> 57344 \<le> u \<Longrightarrow>
   parseStr (CHR 0x5C # CHR ''u'' # r) = map_option (\<lambda>(s, t). (EncodeRune u @ s, t)) (parseStr r')"
  by (subst parseStr.simps) (auto simp: unescapeU_def)

lemma parseStr_esc:
  "unescapeChar e = Some x \<Longrightarrow>
   parseStr (CHR 0x5C # e # r) = map_option (\<lambda>(s, t). (x @ s, t)) (parseStr r)"
  by (subst parseStr.simps) (auto simp: unescapeChar_def)

lemma parseStr_plain:
  "32 \<le> byte c \<Longrightarrow> byte c < 128 \<Longrightarrow> c \<noteq> CHR 0x22 \<Longrightarrow> c \<noteq> CHR 0x5C \<Longrightarrow>
   parseStr (c # t) = map_option (\<lambda>(s, r). (c # s, r)) (parseStr t)"
  by (subst parseStr.simps) simp

lemma parseStr_escapeASCII:
  assumes "byte c < 128"
  shows "parseStr (escapeASCII c @ t) = map_option (\<lambda>(s, r). (c # s, r)) (parseStr t)"
proof -
  have u: "parseStr ([CHR 0x5C, CHR ''u'', CHR ''0'', CHR ''0'', hexDigit (byte c div 16), hexDigit (byte c mod 16)] @ t)
    = map_option (\<lambda>(s, r). (c # s, r)) (parseStr t)"
  proof -
    have "byte c div 16 < 16" "byte c mod 16 < 16" using assms by simp_all
    then have "getu4 (CHR ''0'' # CHR ''0'' # hexDigit (byte c div 16) # hexDigit (byte c mod 16) # t) = Some (byte c, t)"
      by (simp add: hexVal_hexDigit) (simp add: hexVal_def isDigit_def byte_def)
    from parseStr_u [OF this] assms show ?thesis by (simp add: EncodeRune_def byte_def)
  qed
  show ?thesis
    using assms u unfolding escapeASCII_def
    by (auto simp: parseStr_esc parseStr_plain unescapeChar_def dest: byte_char)
qed

lemma byte_quote [simp]: "byte (CHR 0x22) = 34" "byte (CHR 0x5C) = 92"
  by (simp_all add: byte_def)

lemma parseStr_rune:
  assumes "DecodeRune (c # cs) = Some (r, n)" "\<not> byte c < 128"
  shows "parseStr (take n (c # cs) @ t) = map_option (\<lambda>(s, q). (take n (c # cs) @ s, q)) (parseStr t)"
proof -
  from DecodeRune_take [OF assms(1), of t]
  have n: "2 \<le> n" "n \<le> length (c # cs)" and d: "DecodeRune (take n (c # cs) @ t) = Some (r, n)"
    by auto
  then obtain m where m: "n = Suc m" by (cases n) auto
  have ne: "c \<noteq> CHR 0x22" "c \<noteq> CHR 0x5C" using assms(2) by auto
  have [simp]: "min (length cs) m = m" using n m by simp
  show ?thesis
    using d n assms(2) ne unfolding m by (simp add: parseStr.simps)
qed

lemma parseStr_quoteBody: "parseStr (quoteBody s @ CHR 0x22 # rest) = Some (sanitize s, rest)"
proof (induction s rule: quoteBody.induct)
  case 1
  show ?case by (simp add: parseStr.simps)
next
  case (2 c cs)
  show ?case
  proof (cases "byte c < 128")
    case True
    with 2(1) show ?thesis by (simp add: parseStr_escapeASCII)
  next
    case False
    show ?thesis
    proof (cases "DecodeRune (c # cs)")
      case None
      have "getu4 (''fffd'' @ quoteBody cs @ CHR 0x22 # rest) = Some (65533, quoteBody cs @ CHR 0x22 # rest)"
        by (simp add: hexVal_def isDigit_def byte_def)
      from parseStr_u [OF this] 2(2) [OF False None] False None show ?thesis
        by (simp add: EncodeRune_def replacement_def)
    next
      case (Some p)
      obtain r n where p: "p = (r, n)" by (cases p)
      note dec = Some [unfolded p]
      note IH = 2(3) [OF False dec [unfolded p] refl]
      show ?thesis
      proof (cases "r = 8232 \<or> r = 8233")
        case True
        with DecodeRune_LS [OF dec] have n: "n = 3" and tk: "take 3 (c # cs) = EncodeRune r" by auto
        have "getu4 (''202'' @ hexDigit (r mod 16) # quoteBody (drop 2 cs) @ CHR 0x22 # rest)
            = Some (r, quoteBody (drop 2 cs) @ CHR 0x22 # rest)"
          using True by (auto simp: hexVal_hexDigit) (simp_all add: hexVal_def isDigit_def byte_def)
        from parseStr_u [OF this] True False dec IH tk n show ?thesis
          by (auto simp: p)
      next
        case rune: False
        with False dec IH parseStr_rune [OF dec False] show ?thesis
          by (simp add: p)
      qed
    qed
  qed
qed

lemma byte_char_of [simp]: "n < 256 \<Longrightarrow> byte (char_of n) = n"
  by (simp add: byte_def)

lemma char_of_48: "char_of (48::nat) = CHR ''0''"
  by code_simp

lemma isDigit_char_of [simp]: "(n::nat) < 10 \<Longrightarrow> isDigit (char_of (48 + n))"
  by (simp add: isDigit_def)

lemma show_nat_digits: "list_all isDigit (show_nat n)"
  by (induction n rule: show_nat.induct) (subst show_nat.simps, simp)

lemma show_nat_nonempty [simp]: "show_nat n \<noteq> []"
  by (subst show_nat.simps) simp

lemma show_nat_hd: "0 < n \<Longrightarrow> hd (show_nat n) \<noteq> CHR ''0''"
proof (induction n rule: show_nat.induct)
  case (1 n)
  show ?case
  proof (cases "n < 10")
    case True
    then have "byte (char_of (48 + n)) \<noteq> byte (char_of (48::nat))"
      using 1(2) by simp
    then have "char_of (48 + n) \<noteq> CHR ''0''"
      unfolding char_of_48 by metis
    then show ?thesis using True by (subst show_nat.simps) simp
  next
    case False
    then show ?thesis using 1 by (subst show_nat.simps) simp
  qed
qed

lemma digits_val_append: "digits_val acc (xs @ ys) = digits_val (digits_val acc xs) ys"
  by (induction xs arbitrary: acc) auto

lemma digits_val_show_nat: "digits_val 0 (show_nat n) = n"
proof (induction n rule: show_nat.induct)
  case (1 n)
  then show ?case by (subst show_nat.simps) (auto simp: digits_val_append)
qed

lemma digit_not_minus: "isDigit c \<Longrightarrow> c \<noteq> CHR ''-''"
  by (auto simp: isDigit_def byte_def)

lemma hd_show_nat: "isDigit (hd (show_nat n))"
  using show_nat_digits [of n] show_nat_nonempty [of n] by (cases "show_nat n") auto

lemma ParseInt_FormatInt: "- (2 ^ 63) \<le> i \<Longrightarrow> i < 2 ^ 63 \<Longrightarrow> ParseInt (FormatInt i) = Some i"
  using digit_not_minus [OF hd_show_nat [of "nat i"]]
  by (auto simp: ParseInt_def FormatInt_def Let_def show_nat_digits digits_val_show_nat)

lemma spanDigits_append: "list_all isDigit ds \<Longrightarrow> stop r \<Longrightarrow> spanDigits (ds @ r) = (ds, r)"
proof -
  assume "list_all isDigit ds" "stop r"
  moreover have "takeWhile isDigit r = [] \<and> dropWhile isDigit r = r"
    using \<open>stop r\<close> by (cases r) (auto simp: stop_def isDigit_def byte_def)
  ultimately show ?thesis
    by (auto simp: spanDigits_def list_all_iff takeWhile_append2 dropWhile_append2)
qed

lemma parseInt_show_nat: "stop r \<Longrightarrow> parseInt (show_nat n @ r) = Some (show_nat n, r)"
proof (cases "n = 0")
  case True
  then show ?thesis by (subst (1 2) show_nat.simps) (simp add: parseInt_def char_of_48)
next
  case False
  assume "stop r"
  obtain c cs where c: "show_nat n = c # cs" by (cases "show_nat n") auto
  with False show_nat_hd [of n] hd_show_nat [of n] have "c \<noteq> CHR ''0''" "isDigit c" by auto
  with spanDigits_append [OF show_nat_digits [of n] \<open>stop r\<close>] show ?thesis
    by (simp add: parseInt_def c)
qed

lemma parseFrac_stop: "stop r \<Longrightarrow> parseFrac r = Some ([], r)"
  and parseExp_stop: "stop r \<Longrightarrow> parseExp r = Some ([], r)"
  by (cases r; auto simp: stop_def parseFrac_def parseExp_def)+

lemma parseNum_FormatInt: "stop r \<Longrightarrow> parseNum (FormatInt i @ r) = Some (FormatInt i, r)"
  using digit_not_minus [OF hd_show_nat [of "nat i"]]
  by (auto simp: parseNum_def FormatInt_def Let_def parseInt_show_nat parseFrac_stop parseExp_stop hd_append)

lemma starts_FormatInt: "starts (FormatInt i)"
  using hd_show_nat [of "nat i"]
  by (auto simp: starts_def FormatInt_def isSpace_def isDigit_def byte_def)

lemma starts_print: "wf_json v \<Longrightarrow> starts (json_print v)"
  by (cases v) (auto simp: starts_FormatInt quote_def, auto simp: starts_def isSpace_def byte_def)

lemma skipWs_starts: "starts s \<Longrightarrow> skipWs (s @ r) = s @ r"
  by (cases s) (auto simp: starts_def skipWs_def)

lemma skipWs_char: "\<not> isSpace c \<Longrightarrow> skipWs (c # r) = c # r"
  by (simp add: skipWs_def)

lemma not_space [simp]: "\<not> isSpace (CHR '','')" "\<not> isSpace (CHR '']'')" "\<not> isSpace (CHR ''}'')"
   "\<not> isSpace (CHR '':'')" "\<not> isSpace (CHR 0x22)" "\<not> isSpace (CHR ''['')" "\<not> isSpace (CHR ''{'')"
  by (simp_all add: isSpace_def byte_def)

lemma stop_simps [simp]: "stop (CHR '','' # r)" "stop (CHR '']'' # r)" "stop (CHR ''}'' # r)"
  "stop (CHR 0x0A # r)" "stop []"
  by (simp_all add: stop_def)

lemma parseElems_print:
  "vs \<noteq> [] \<Longrightarrow> \<forall>v \<in> set vs. value_ok v \<Longrightarrow> 
   2 * length (intersperse (map json_print vs)) + 1 < n \<Longrightarrow>
   parseElems n (intersperse (map json_print vs) @ CHR '']'' # r) = Some (map sanitize_json vs, r)"
proof (induction vs arbitrary: n rule: induct_list012)
  case (2 v)
  then obtain m where "n = Suc m" by (cases n) auto
  with 2 show ?case by (simp add: value_ok_def skipWs_char)
next
  case (3 v w vs)
  then obtain m where "n = Suc m" by (cases n) auto
  with 3 show ?case by (simp add: value_ok_def skipWs_char)
qed simp

lemma parseMembers_print:
  "ms \<noteq> [] \<Longrightarrow> \<forall>p \<in> set ms. value_ok (snd p) \<Longrightarrow> 
   2 * length (intersperse (map print_member ms)) + 1 < n \<Longrightarrow>
   parseMembers n (intersperse (map print_member ms) @ CHR ''}'' # r)
     = Some (map (\<lambda>p. (sanitize (fst p), sanitize_json (snd p))) ms, r)"
proof (induction ms arbitrary: n rule: induct_list012)
  case (2 p)
  then obtain m where "n = Suc m" by (cases n) auto
  with 2 show ?case
    by (simp add: value_ok_def skipWs_char print_member_def quote_def parseStr_quoteBody)
next
  case (3 p q ms)
  then obtain m where "n = Suc m" by (cases n) auto
  with 3 show ?case
    by (simp add: value_ok_def skipWs_char print_member_def [of p] quote_def parseStr_quoteBody)
qed simp

lemma value_okI:
  assumes "\<And>m r. stop r \<Longrightarrow> 2 * length (json_print v) \<le> m \<Longrightarrow>
    parseValue (Suc m) (json_print v @ r) = Some (sanitize_json v, r)"
  shows "value_ok v"
  unfolding value_ok_def
proof (intro allI impI)
  fix n r assume "stop r" "2 * length (json_print v) < n"
  with assms [of r "n - 1"] show "parseValue n (json_print v @ r) = Some (sanitize_json v, r)"
    by (cases n) auto
qed

lemma value_ok_JArr:
  assumes ok: "\<forall>v \<in> set vs. value_ok v" and wf: "wf_json (JArr vs)"
  shows "value_ok (JArr vs)"
proof (rule value_okI)
  fix m r assume m: "2 * length (json_print (JArr vs)) \<le> m"
  show "parseValue (Suc m) (json_print (JArr vs) @ r) = Some (sanitize_json (JArr vs), r)"
  proof (cases vs)
    case (Cons w ws)
    have "starts (json_print w)" using starts_print [of w] wf Cons by simp
    then have "starts (intersperse (map json_print vs))"
      unfolding Cons by (cases ws) (auto simp: starts_def hd_append)
    moreover have "parseElems m (intersperse (map json_print vs) @ CHR '']'' # r)
        = Some (map sanitize_json vs, r)"
      using m Cons by (intro parseElems_print ok) simp_all
    ultimately show ?thesis
      using skipWs_starts [of "intersperse (map json_print vs)" "CHR '']'' # r"]
      by (cases "intersperse (map json_print vs)") (auto simp: skipWs_char starts_def)
  qed (simp add: skipWs_char)
qed

lemma value_ok_JObj:
  assumes ok: "\<forall>p \<in> set ms. value_ok (snd p)"
  shows "value_ok (JObj ms)"
proof (rule value_okI)
  fix m r assume m: "2 * length (json_print (JObj ms)) \<le> m"
  have pm: "(\<lambda>(k, v). quote k @ CHR '':'' # json_print v) = print_member"
    by (auto simp: print_member_def fun_eq_iff)
  show "parseValue (Suc m) (json_print (JObj ms) @ r) = Some (sanitize_json (JObj ms), r)"
  proof (cases ms)
    case (Cons w ws)
    have "\<exists>q. intersperse (map print_member ms) = CHR 0x22 # q"
      unfolding Cons by (cases ws) (auto simp: print_member_def quote_def)
    moreover have "parseMembers m (intersperse (map print_member ms) @ CHR ''}'' # r)
        = Some (map (\<lambda>p. (sanitize (fst p), sanitize_json (snd p))) ms, r)"
      using m Cons by (intro parseMembers_print ok) (simp_all add: pm)
    ultimately show ?thesis
      by (auto simp: skipWs_char pm)
  qed (simp add: skipWs_char)
qed

lemma value_ok_FormatInt: "value_ok (JNum (FormatInt i))"
proof (rule value_okI)
  fix m r assume r: "stop r"
  have "FormatInt i \<noteq> [] \<and> (isDigit (hd (FormatInt i)) \<or> hd (FormatInt i) = CHR ''-'')"
    by (simp add: FormatInt_def hd_show_nat)
  then obtain c cs where c: "FormatInt i = c # cs" "isDigit c \<or> c = CHR ''-''"
    by (cases "FormatInt i") auto
  then have "c \<notin> {CHR ''n'', CHR ''t'', CHR ''f'', CHR 0x22, CHR ''['', CHR ''{''}"
    by (auto simp: isDigit_def byte_def)
  with skipWs_starts [OF starts_FormatInt [of i], of r] parseNum_FormatInt [OF r, of i] c
  show "parseValue (Suc m) (json_print (JNum (FormatInt i)) @ r)
      = Some (sanitize_json (JNum (FormatInt i)), r)"
    by simp
qed

lemma value_ok_atoms: "value_ok (JStr s)" "value_ok (JBool b)" "value_ok JNull"
  by (rule value_okI, simp add: quote_def skipWs_char parseStr_quoteBody)
    (rule value_okI, simp add: skipWs_def isSpace_def byte_def stripPrefix_def)+

lemma value_ok_print: "wf_json v \<Longrightarrow> value_ok v"
proof (induction v)
  case (JArr vs)
  then show ?case by (intro value_ok_JArr) auto
next
  case (JObj ms)
  then show ?case by (intro value_ok_JObj) (auto simp: snds.simps)
qed (auto simp: value_ok_FormatInt value_ok_atoms)

lemma json_parse_print: "wf_json v \<Longrightarrow> json_parse (json_print v) = Some (sanitize_json v)"
  using value_ok_print [of v] unfolding value_ok_def json_parse_def
  by (auto dest!: spec [of _ "Suc (2 * length (json_print v))"] spec [of _ "[]"] simp: skipWs_def)

lemma parseValue_print:
  "wf_json v \<Longrightarrow> stop r \<Longrightarrow> 2 * length (json_print v) < n \<Longrightarrow>
   parseValue n (json_print v @ r) = Some (sanitize_json v, r)"
  using value_ok_print [of v] by (simp add: value_ok_def)

section \<open>Valid strings and struct members\<close>

definition clean :: "bytes \<Rightarrow> bool" where
  "clean s \<longleftrightarrow> sanitize s = s"

lemma clean_ascii: "list_all (\<lambda>c. byte c < 128) s \<Longrightarrow> clean s"
  by (induction s) (auto simp: clean_def)

lemma foldM_append: "foldM f (xs @ ys) s = Option.bind (foldM f xs s) (foldM f ys)"
  by (induction xs arbitrary: s) (auto split: option.splits)

lemma fieldFor_exact [simp]: "k \<in> set names \<Longrightarrow> fieldFor names k = Some k"
  by (simp add: fieldFor_def)

lemma setMap_members:
  assumes "wf_map (old @ m)"
    and "\<forall>p \<in> set m. clean (fst p) \<and> dec (sanitize_json (enc (snd p))) = Some (snd p)"
  shows "foldM (setMapMember dec) (map (\<lambda>p. (sanitize (fst p), sanitize_json (enc (snd p)))) m) old
    = Some (old @ m)"
  using assms
proof (induction m arbitrary: old)
  case (Cons p m)
  have "fst p \<notin> fst ` set old"
    using Cons.prems(1) by (auto simp: wf_map_def)
  then have "AList.update (fst p) (snd p) old = old @ [p]"
    by (simp add: update_fresh)
  with Cons.IH [of "old @ [p]"] Cons.prems show ?case
    by (simp add: setMapMember_def clean_def)
qed simp

lemma wf_map_sort_key [simp]: "wf_map (sort_key fst m) \<longleftrightarrow> wf_map m"
  unfolding wf_map_def
  by (metis (no_types, lifting) distinct_map distinct_sort image_mset.compositionality mset_map mset_sort
      set_mset_mset distinct_count_atmost_1 mset_eq_imp_distinct_iff)

lemma setMap_encMap:
  assumes "wf_map m"
    and "\<forall>p \<in> set m. clean (fst p) \<and> dec (sanitize_json (enc (snd p))) = Some (snd p)"
  shows "setMap dec (sanitize_json (encMap enc m)) [] = Some (sort_key fst m)"
  using setMap_members [of "[]" "sort_key fst m" dec enc] assms
  by (simp add: setMap_def encMap_def comp_def)

lemma map_of_sort_key: "wf_map m \<Longrightarrow> map_of (sort_key fst m) = map_of m"
  by (rule map_of_inject_set [THEN iffD2]) (auto simp: wf_map_def [symmetric])

lemma sanitize_replacement: "sanitize (replacement @ t) = replacement @ sanitize t"
  by (simp add: replacement_def cont_def)

lemma sanitize_rune:
  assumes "DecodeRune (c # cs) = Some (r, n)" "\<not> byte c < 128"
  shows "sanitize (take n (c # cs) @ t) = take n (c # cs) @ sanitize t"
proof -
  from DecodeRune_take [OF assms(1), of t]
  have n: "2 \<le> n" "n \<le> length (c # cs)" and d: "DecodeRune (take n (c # cs) @ t) = Some (r, n)"
    by auto
  then obtain m where m: "n = Suc m" by (cases n) auto
  have "min (length cs) m = m" using n m by simp
  then show ?thesis
    using d n assms(2) unfolding m by simp
qed

lemma sanitize_idem [simp]: "sanitize (sanitize s) = sanitize s"
proof (induction s rule: sanitize.induct)
  case (2 c cs)
  then show ?case
    by (cases "byte c < 128")
      (auto simp: sanitize_replacement sanitize_rune simp del: take_Suc_Cons split: option.splits)
qed simp

lemma sanitize_Nil_iff [simp]: "sanitize s = [] \<longleftrightarrow> s = []"
proof (cases s)
  case (Cons c cs)
  show ?thesis
  proof (cases "DecodeRune (c # cs)")
    case (Some p)
    with DecodeRune_take [of "c # cs" "fst p" "snd p"] have "2 \<le> snd p" by simp
    with Some Cons show ?thesis by (cases p; cases "snd p") auto
  qed (simp add: Cons replacement_def)
qed simp

lemma sanitize_json_idem [simp]: "sanitize_json (sanitize_json v) = sanitize_json v"
  by (induction v) (auto simp: snds.simps)

lemma wf_sanitize_json [simp]: "wf_json (sanitize_json v) \<longleftrightarrow> wf_json v"
  by (induction v) (auto simp: snds.simps)

lemma json_print_nonempty: "wf_json v \<Longrightarrow> json_print v \<noteq> []"
  using starts_print [of v] by (auto simp: starts_def)

declare sanitize.simps [simp del] quoteBody.simps [simp del] json_print.simps [simp del]

declare sanitize.simps(1) [simp]

end
