(* ===== verification/Envelope.thy ===== *)
theory Envelope
  imports Config Json
begin

text \<open>
  Client commands and the log-entry envelope (\<^verbatim>\<open>Command\<close> of \<^verbatim>\<open>src/raft/raft.go\<close>, the
  envelope part of \<^verbatim>\<open>src/raft/config.go\<close>): what a node puts into the \<^verbatim>\<open>Command\<close> bytes of a
  log entry and how it reads them back when the entry is applied.

  A \<^verbatim>\<open>json.RawMessage\<close> is the rendering of the JSON value it holds: the values that reach it
  were rendered by the same library, for which compaction changes nothing.
\<close>

section \<open>Data\<close>

record Command =
  Op :: string
  Key :: string
  Val :: string
  ClientID :: string
  RequestID :: int

abbreviation (input) EntryCommand :: int where "EntryCommand \<equiv> 0"
abbreviation (input) EntryConfigChange :: int where "EntryConfigChange \<equiv> 1"
abbreviation (input) EntryNoop :: int where "EntryNoop \<equiv> 2"

record LogEntryEnvelope =
  envType :: int
  envData :: "bytes option"
  envConfig :: "ClusterConfig option"

section \<open>Marshalling\<close>

definition jsonCommand :: "Command \<Rightarrow> json" where
  "jsonCommand c = JObj
     ([(''op'', JStr (Op c)), (''key'', JStr (Key c)), (''val'', JStr (Val c))]
      @ (if ClientID c \<noteq> [] then [(''client_id'', JStr (ClientID c))] else [])
      @ (if RequestID c \<noteq> 0 then [(''request_id'', JNum (FormatInt (RequestID c)))] else []))"

definition MarshalCommand :: "Command \<Rightarrow> bytes" where
  "MarshalCommand c = json_print (jsonCommand c)"

definition jsonConfig :: "ClusterConfig \<Rightarrow> json" where
  "jsonConfig c = JObj
     ((if OldPeers c \<noteq> [] then [(''old_peers'', encMap JStr (OldPeers c))] else [])
      @ [(''new_peers'', encMap JStr (NewPeers c))]
      @ (if OldHTTP c \<noteq> [] then [(''old_http'', encMap JStr (OldHTTP c))] else [])
      @ [(''new_http'', encMap JStr (NewHTTP c)), (''joint'', JBool (Joint c))])"

definition jsonEnvelope :: "int \<Rightarrow> json option \<Rightarrow> ClusterConfig option \<Rightarrow> json" where
  "jsonEnvelope t d c = JObj
     ([(''type'', JNum (FormatInt t))]
      @ (case d of None \<Rightarrow> [] | Some v \<Rightarrow> [(''data'', v)])
      @ (case c of None \<Rightarrow> [] | Some cfg \<Rightarrow> [(''config'', jsonConfig cfg)]))"

definition EncodeConfigChangeEntry :: "ClusterConfig option \<Rightarrow> bytes result" where
  "EncodeConfigChangeEntry config = Inr (json_print (jsonEnvelope EntryConfigChange None config))"

definition EncodeNoopEntry :: "bytes result" where
  "EncodeNoopEntry = Inr (json_print (jsonEnvelope EntryNoop None None))"

definition EncodeCommandEntry :: "bytes \<Rightarrow> bytes result" where
  "EncodeCommandEntry cmdBytes =
     (if cmdBytes = [] then Inr (json_print (jsonEnvelope EntryCommand None None))
      else (case json_parse cmdBytes of
          None \<Rightarrow> Inl ''json: error calling MarshalJSON for type json.RawMessage''
        | Some v \<Rightarrow> Inr (json_print (jsonEnvelope EntryCommand (Some v) None))))"

section \<open>Unmarshalling\<close>

definition zeroCommand :: Command where
  "zeroCommand = \<lparr>Op = [], Key = [], Val = [], ClientID = [], RequestID = 0\<rparr>"

definition setCommandField :: "string \<Rightarrow> json \<Rightarrow> Command \<Rightarrow> Command option" where
  "setCommandField n v c =
     (if n = ''op'' then map_option (\<lambda>s. c\<lparr>Op := s\<rparr>) (setStr v (Op c))
      else if n = ''key'' then map_option (\<lambda>s. c\<lparr>Key := s\<rparr>) (setStr v (Key c))
      else if n = ''val'' then map_option (\<lambda>s. c\<lparr>Val := s\<rparr>) (setStr v (Val c))
      else if n = ''client_id'' then map_option (\<lambda>s. c\<lparr>ClientID := s\<rparr>) (setStr v (ClientID c))
      else map_option (\<lambda>i. c\<lparr>RequestID := i\<rparr>) (setInt v (RequestID c)))"

definition UnmarshalCommand :: "bytes \<Rightarrow> Command option" where
  "UnmarshalCommand bs =
     (case json_parse bs of
        None \<Rightarrow> None
      | Some v \<Rightarrow> decodeStruct [''op'', ''key'', ''val'', ''client_id'', ''request_id'']
                    setCommandField v zeroCommand)"

definition zeroConfig :: ClusterConfig where
  "zeroConfig = \<lparr>OldPeers = [], NewPeers = [], OldHTTP = [], NewHTTP = [], Joint = False\<rparr>"

definition setConfigField :: "string \<Rightarrow> json \<Rightarrow> ClusterConfig \<Rightarrow> ClusterConfig option" where
  "setConfigField n v c =
     (if n = ''old_peers'' then map_option (\<lambda>m. c\<lparr>OldPeers := m\<rparr>) (setStrMap v (OldPeers c))
      else if n = ''new_peers'' then map_option (\<lambda>m. c\<lparr>NewPeers := m\<rparr>) (setStrMap v (NewPeers c))
      else if n = ''old_http'' then map_option (\<lambda>m. c\<lparr>OldHTTP := m\<rparr>) (setStrMap v (OldHTTP c))
      else if n = ''new_http'' then map_option (\<lambda>m. c\<lparr>NewHTTP := m\<rparr>) (setStrMap v (NewHTTP c))
      else map_option (\<lambda>b. c\<lparr>Joint := b\<rparr>) (setBool v (Joint c)))"

abbreviation configFields :: "string list" where
  "configFields \<equiv> [''old_peers'', ''new_peers'', ''old_http'', ''new_http'', ''joint'']"

text \<open>A pointer to a configuration: null makes it nil, an object is decoded into what it points to.\<close>

definition setConfigPtr :: "json \<Rightarrow> ClusterConfig option \<Rightarrow> ClusterConfig option option" where
  "setConfigPtr v old =
     (case v of
        JNull \<Rightarrow> Some None
      | _ \<Rightarrow> map_option Some (decodeStruct configFields setConfigField v
                (case old of None \<Rightarrow> zeroConfig | Some c \<Rightarrow> c)))"

definition setEnvelopeField :: "string \<Rightarrow> json \<Rightarrow> LogEntryEnvelope \<Rightarrow> LogEntryEnvelope option" where
  "setEnvelopeField n v e =
     (if n = ''type'' then map_option (\<lambda>i. e\<lparr>envType := i\<rparr>) (setInt v (envType e))
      else if n = ''data'' then Some (e\<lparr>envData := Some (json_print v)\<rparr>)
      else map_option (\<lambda>c. e\<lparr>envConfig := c\<rparr>) (setConfigPtr v (envConfig e)))"

definition zeroEnvelope :: LogEntryEnvelope where
  "zeroEnvelope = \<lparr>envType = 0, envData = None, envConfig = None\<rparr>"

definition UnmarshalEnvelope :: "bytes \<Rightarrow> LogEntryEnvelope option" where
  "UnmarshalEnvelope bs =
     (case json_parse bs of
        None \<Rightarrow> None
      | Some v \<Rightarrow> decodeStruct [''type'', ''data'', ''config''] setEnvelopeField v zeroEnvelope)"

definition DecodeLogEntry :: "bytes \<Rightarrow> LogEntryEnvelope result" where
  "DecodeLogEntry cmdBytes =
     (if cmdBytes = [] then Inr (zeroEnvelope\<lparr>envType := EntryNoop\<rparr>)
      else (case UnmarshalEnvelope cmdBytes of
          None \<Rightarrow> Inr (zeroEnvelope\<lparr>envType := EntryCommand, envData := Some cmdBytes\<rparr>)
        | Some env \<Rightarrow>
            if envType env = EntryCommand \<and> envConfig env = None \<and> envData env = None
            then Inr (zeroEnvelope\<lparr>envType := EntryCommand, envData := Some cmdBytes\<rparr>)
            else Inr env))"

section \<open>What survives the round trip\<close>

definition sanitizeCommand :: "Command \<Rightarrow> Command" where
  "sanitizeCommand c = \<lparr>Op = sanitize (Op c), Key = sanitize (Key c), Val = sanitize (Val c),
     ClientID = sanitize (ClientID c), RequestID = RequestID c\<rparr>"

definition int64 :: "int \<Rightarrow> bool" where
  "int64 i \<longleftrightarrow> - (2 ^ 63) \<le> i \<and> i < 2 ^ 63"

definition sortConfig :: "ClusterConfig \<Rightarrow> ClusterConfig" where
  "sortConfig c = \<lparr>OldPeers = sort_key fst (OldPeers c), NewPeers = sort_key fst (NewPeers c),
     OldHTTP = sort_key fst (OldHTTP c), NewHTTP = sort_key fst (NewHTTP c), Joint = Joint c\<rparr>"

definition clean_map :: "strmap \<Rightarrow> bool" where
  "clean_map m \<longleftrightarrow> wf_map m \<and> (\<forall>p \<in> set m. clean (fst p) \<and> clean (snd p))"

definition clean_config :: "ClusterConfig \<Rightarrow> bool" where
  "clean_config c \<longleftrightarrow> clean_map (OldPeers c) \<and> clean_map (NewPeers c) \<and>
     clean_map (OldHTTP c) \<and> clean_map (NewHTTP c)"

section \<open>Library\<close>


lemma wf_json_command: "wf_json (jsonCommand c)"
  by (auto simp: jsonCommand_def)

lemma wf_json_encMap_JStr [simp]: "wf_json (encMap JStr m)"
  by (auto simp: encMap_def)

lemma wf_json_config: "wf_json (jsonConfig c)"
  by (auto simp: jsonConfig_def)

lemma wf_json_envelope: "(\<forall>v. d = Some v \<longrightarrow> wf_json v) \<Longrightarrow> wf_json (jsonEnvelope t d c)"
  by (auto simp: jsonEnvelope_def wf_json_config split: option.splits)

lemma sanitize_literals [simp]:
  "sanitize ''op'' = ''op''" "sanitize ''key'' = ''key''" "sanitize ''val'' = ''val''"
  "sanitize ''client_id'' = ''client_id''" "sanitize ''request_id'' = ''request_id''"
  "sanitize ''type'' = ''type''" "sanitize ''data'' = ''data''" "sanitize ''config'' = ''config''"
  "sanitize ''old_peers'' = ''old_peers''" "sanitize ''new_peers'' = ''new_peers''"
  "sanitize ''old_http'' = ''old_http''" "sanitize ''new_http'' = ''new_http''"
  "sanitize ''joint'' = ''joint''"
  by (simp_all add: byte_def sanitize.simps)

lemma setStr_JStr [simp]: "setStr (JStr s) old = Some s"
  by (simp add: setStr_def)

lemma setInt_FormatInt [simp]: "int64 i \<Longrightarrow> setInt (JNum (FormatInt i)) old = Some i"
  by (simp add: setInt_def int64_def ParseInt_FormatInt)

lemma setBool_JBool [simp]: "setBool (JBool b) old = Some b"
  by (simp add: setBool_def)

lemma int64_small [simp]: "int64 0" "int64 1" "int64 2"
  by (simp_all add: int64_def)

lemma decode_jsonCommand:
  "int64 (RequestID c) \<Longrightarrow>
   decodeStruct [''op'', ''key'', ''val'', ''client_id'', ''request_id''] setCommandField
     (sanitize_json (jsonCommand c)) zeroCommand = Some (sanitizeCommand c)"
  by (auto simp: decodeStruct_def jsonCommand_def decodeMember_def setCommandField_def zeroCommand_def
      sanitizeCommand_def foldM_append)

lemma UnmarshalCommand_sanitized:
  "int64 (RequestID c) \<Longrightarrow>
   UnmarshalCommand (json_print (sanitize_json (jsonCommand c))) = Some (sanitizeCommand c)"
  by (simp add: UnmarshalCommand_def json_parse_print wf_json_command decode_jsonCommand)

lemma UnmarshalCommand_MarshalCommand:
  "int64 (RequestID c) \<Longrightarrow> UnmarshalCommand (MarshalCommand c) = Some (sanitizeCommand c)"
  by (simp add: UnmarshalCommand_def MarshalCommand_def json_parse_print wf_json_command decode_jsonCommand)

lemma setStrMap_clean:
  "clean_map m \<Longrightarrow> setStrMap (sanitize_json (encMap JStr m)) [] = Some (sort_key fst m)"
  by (rule setMap_encMap) (auto simp: clean_map_def clean_def)

lemma decode_jsonConfig:
  "clean_config c \<Longrightarrow>
   decodeStruct configFields setConfigField (sanitize_json (jsonConfig c)) zeroConfig = Some (sortConfig c)"
  by (auto simp: decodeStruct_def jsonConfig_def decodeMember_def setConfigField_def zeroConfig_def
      sortConfig_def foldM_append clean_config_def setStrMap_clean)

lemma setConfigPtr_jsonConfig:
  "clean_config c \<Longrightarrow> setConfigPtr (sanitize_json (jsonConfig c)) None = Some (Some (sortConfig c))"
  using decode_jsonConfig [of c] by (simp add: setConfigPtr_def jsonConfig_def)

lemma DecodeLogEntry_noop:
  "EncodeNoopEntry = Inr bs \<Longrightarrow> DecodeLogEntry bs = Inr (zeroEnvelope\<lparr>envType := EntryNoop\<rparr>) \<and> bs \<noteq> []"
  using json_print_nonempty [OF wf_json_envelope, of None EntryNoop None]
  by (auto simp: EncodeNoopEntry_def DecodeLogEntry_def UnmarshalEnvelope_def json_parse_print
      wf_json_envelope)
    (auto simp: jsonEnvelope_def decodeStruct_def decodeMember_def setEnvelopeField_def)

lemma DecodeLogEntry_command:
  assumes "int64 (RequestID c)"
  obtains bs where "EncodeCommandEntry (MarshalCommand c) = Inr bs" "bs \<noteq> []"
    "DecodeLogEntry bs = Inr \<lparr>envType = EntryCommand,
       envData = Some (json_print (sanitize_json (jsonCommand c))), envConfig = None\<rparr>"
proof
  let ?v = "sanitize_json (jsonCommand c)"
  let ?e = "jsonEnvelope EntryCommand (Some ?v) None"
  have wf: "wf_json ?e" by (rule wf_json_envelope) (simp add: wf_json_command)
  show "EncodeCommandEntry (MarshalCommand c) = Inr (json_print ?e)"
    using json_print_nonempty [OF wf_json_command [of c]]
    by (simp add: EncodeCommandEntry_def MarshalCommand_def json_parse_print wf_json_command)
  show "json_print ?e \<noteq> []" by (rule json_print_nonempty [OF wf])
  then show "DecodeLogEntry (json_print ?e) = Inr \<lparr>envType = EntryCommand,
      envData = Some (json_print ?v), envConfig = None\<rparr>"
    by (simp add: DecodeLogEntry_def UnmarshalEnvelope_def json_parse_print wf)
      (simp add: jsonEnvelope_def decodeStruct_def decodeMember_def setEnvelopeField_def zeroEnvelope_def)
qed

lemma DecodeLogEntry_config:
  assumes "clean_config c" "EncodeConfigChangeEntry (Some c) = Inr bs"
  shows "bs \<noteq> [] \<and> DecodeLogEntry bs = Inr \<lparr>envType = EntryConfigChange, envData = None,
    envConfig = Some (sortConfig c)\<rparr>"
proof -
  let ?e = "jsonEnvelope EntryConfigChange None (Some c)"
  have wf: "wf_json ?e" by (rule wf_json_envelope) simp
  have bs: "bs = json_print ?e" using assms(2) by (simp add: EncodeConfigChangeEntry_def)
  moreover have "bs \<noteq> []" unfolding bs by (rule json_print_nonempty [OF wf])
  ultimately show ?thesis
    by (simp add: DecodeLogEntry_def UnmarshalEnvelope_def json_parse_print wf)
      (simp add: jsonEnvelope_def decodeStruct_def decodeMember_def setEnvelopeField_def zeroEnvelope_def
        setConfigPtr_jsonConfig [OF assms(1)])
qed

section \<open>Properties\<close>

text \<open>
  C28. What a client proposes is what is applied, up to invalid UTF-8: encoding a command into
  a log entry and decoding it when the entry is applied gives a command entry whose payload
  is the proposed command with every invalid UTF-8 byte replaced by U+FFFD.
\<close>

theorem command_entry_roundtrip:
  assumes "int64 (RequestID c)"
  shows "\<exists>bs env d. EncodeCommandEntry (MarshalCommand c) = Inr bs \<and> DecodeLogEntry bs = Inr env \<and>
    envType env = EntryCommand \<and> envData env = Some d \<and> UnmarshalCommand d = Some (sanitizeCommand c)"
  using DecodeLogEntry_command [OF assms] UnmarshalCommand_sanitized [OF assms]
  by (metis LogEntryEnvelope.select_convs(1,2))

theorem command_entry_roundtrip_witness:
  "\<exists>bs env d. EncodeCommandEntry (MarshalCommand \<lparr>Op = ''PUT'', Key = ''k'', Val = ''v'', ClientID = ''c'', RequestID = 7\<rparr>)
      = Inr bs \<and> DecodeLogEntry bs = Inr env \<and> envType env = EntryCommand \<and> envData env = Some d \<and>
    UnmarshalCommand d = Some \<lparr>Op = ''PUT'', Key = ''k'', Val = ''v'', ClientID = ''c'', RequestID = 7\<rparr>"
  using command_entry_roundtrip [of "\<lparr>Op = ''PUT'', Key = ''k'', Val = ''v'', ClientID = ''c'', RequestID = 7\<rparr>"]
  by (simp add: int64_def sanitizeCommand_def byte_def sanitize.simps)

text \<open>
  C29. A membership change survives its way through the log: a configuration entry decodes
  to a configuration with the same members, addresses and joint flag (maps are rebuilt in
  key order), and a no-op entry decodes to a no-op.
\<close>

theorem config_entry_roundtrip:
  assumes "clean_config c" "EncodeConfigChangeEntry (Some c) = Inr bs" "EncodeNoopEntry = Inr bs'"
  shows "\<exists>env c'. DecodeLogEntry bs = Inr env \<and> envType env = EntryConfigChange \<and>
      envConfig env = Some c' \<and> Joint c' = Joint c \<and>
      map_of (NewPeers c') = map_of (NewPeers c) \<and> map_of (OldPeers c') = map_of (OldPeers c) \<and>
      map_of (NewHTTP c') = map_of (NewHTTP c) \<and> map_of (OldHTTP c') = map_of (OldHTTP c) \<and>
      (\<forall>s v. HasMajority (Some c') s v = HasMajority (Some c) s v) \<and>
      (\<exists>e. DecodeLogEntry bs' = Inr e \<and> envType e = EntryNoop)"
proof -
  have wf: "wf_map (OldPeers c)" "wf_map (NewPeers c)" "wf_map (OldHTTP c)" "wf_map (NewHTTP c)"
    using assms(1) by (auto simp: clean_config_def clean_map_def)
  have side: "sideMajority s v (sort_key fst m) = sideMajority s v m" if "wf_map m" for s v and m :: strmap
    using that by (simp add: sideMajority_exact members_def)
  have "HasMajority (Some (sortConfig c)) s v = HasMajority (Some c) s v" for s v
    by (simp add: sortConfig_def side wf)
  with DecodeLogEntry_config [OF assms(1,2)] DecodeLogEntry_noop [OF assms(3)] wf show ?thesis
    by (auto simp: sortConfig_def map_of_sort_key)
qed

theorem config_entry_roundtrip_witness:
  "\<exists>bs. EncodeConfigChangeEntry (Some (ConfigFromPeers [(''n2'', ''h:2'')] [] ''n1'')) = Inr bs \<and>
     (\<exists>env. DecodeLogEntry bs = Inr env \<and> envType env = EntryConfigChange)"
proof -
  have "clean_config (ConfigFromPeers [(''n2'', ''h:2'')] [] ''n1'')"
    by (simp add: clean_config_def clean_map_def clean_def ConfigFromPeers_def copyMap_def byte_def sanitize.simps)
  from config_entry_roundtrip [OF this, of _ "json_print (jsonEnvelope EntryNoop None None)"]
  show ?thesis by (auto simp: EncodeConfigChangeEntry_def EncodeNoopEntry_def)
qed

end
