(* ===== verification/Store.thy ===== *)
theory Store
  imports Envelope
begin

text \<open>
  The key-value state machine of a node: the effect of one decoded command on the store and
  on the deduplication table (\<^verbatim>\<open>applyCommand\<close> of \<^verbatim>\<open>src/raft/raft.go\<close>, \<^verbatim>\<open>DedupEntry\<close> of
  \<^verbatim>\<open>src/storage/snapshot.go\<close>). The lemmas show that the table makes retried requests no-ops
  and that the store refines a plain map on which each request is executed at most once.
\<close>

section \<open>Data and operation\<close>

record DedupEntry =
  LastAppliedRequestID :: int
  Response :: string
  Status :: string

type_synonym dedup = "(string, DedupEntry) gomap"

type_synonym store = "strmap \<times> dedup"

definition tagged :: "Command \<Rightarrow> bool" where
  "tagged cmd \<longleftrightarrow> ClientID cmd \<noteq> [] \<and> RequestID cmd > 0"

definition isDuplicate :: "dedup \<Rightarrow> Command \<Rightarrow> bool" where
  "isDuplicate dt cmd \<longleftrightarrow>
     (case map_of dt (ClientID cmd) of
        None \<Rightarrow> False
      | Some prev \<Rightarrow> RequestID cmd \<le> LastAppliedRequestID prev)"

definition recordRequest :: "Command \<Rightarrow> dedup \<Rightarrow> dedup" where
  "recordRequest cmd dt =
     (if tagged cmd
      then AList.update (ClientID cmd)
             \<lparr>LastAppliedRequestID = RequestID cmd, Response = ''ok'', Status = ''ok''\<rparr> dt
      else dt)"

definition applyStore :: "Command \<Rightarrow> store \<Rightarrow> store" where
  "applyStore cmd st =
     (case st of (kv, dt) \<Rightarrow>
        if tagged cmd \<and> isDuplicate dt cmd then (kv, dt)
        else if Op cmd = ''PUT'' then (AList.update (Key cmd) (Val cmd) kv, recordRequest cmd dt)
        else if Op cmd = ''DEL'' then (AList.delete (Key cmd) kv, recordRequest cmd dt)
        else (kv, dt))"

definition applyAll :: "Command list \<Rightarrow> store \<Rightarrow> store" where
  "applyAll cmds st = foldl (\<lambda>s c. applyStore c s) st cmds"

section \<open>Specification: a map, and each request at most once\<close>

definition known_op :: "Command \<Rightarrow> bool" where
  "known_op cmd \<longleftrightarrow> Op cmd = ''PUT'' \<or> Op cmd = ''DEL''"

definition spec_apply :: "Command \<Rightarrow> (string \<rightharpoonup> string) \<Rightarrow> (string \<rightharpoonup> string)" where
  "spec_apply cmd m =
     (if Op cmd = ''PUT'' then m(Key cmd \<mapsto> Val cmd)
      else if Op cmd = ''DEL'' then m(Key cmd := None) else m)"

definition spec_run :: "Command list \<Rightarrow> (string \<rightharpoonup> string) \<Rightarrow> (string \<rightharpoonup> string)" where
  "spec_run cmds m = foldl (\<lambda>m c. spec_apply c m) m cmds"

text \<open>
  The commands of a sequence that take effect: a tagged command does unless an effective
  command of the same client before it had the same or a higher request number.
\<close>

fun effective :: "(string \<Rightarrow> int) \<Rightarrow> Command list \<Rightarrow> Command list" where
  "effective hi [] = []"
| "effective hi (c # cs) =
     (if tagged c \<and> RequestID c \<le> hi (ClientID c) then effective hi cs
      else if tagged c \<and> known_op c then c # effective (hi(ClientID c := RequestID c)) cs
      else c # effective hi cs)"

definition lastId :: "dedup \<Rightarrow> string \<Rightarrow> int" where
  "lastId dt i = (case map_of dt i of None \<Rightarrow> 0 | Some e \<Rightarrow> LastAppliedRequestID e)"

text \<open>
  The contract of a deduplicating machine, as its clients use it: \<open>seen s c\<close> is the highest
  request number the machine remembers for the client of \<open>c\<close>.
\<close>

locale dedup_machine =
  fixes app :: "'c \<Rightarrow> 's \<Rightarrow> 's"
    and seen :: "'s \<Rightarrow> 'c \<Rightarrow> int"
    and num :: "'c \<Rightarrow> int"
    and counted :: "'c \<Rightarrow> bool"
  assumes skip: "counted c \<Longrightarrow> num c \<le> seen s c \<Longrightarrow> app c s = s"
    and remember: "counted c \<Longrightarrow> num c \<le> seen (app c s) c"
    and keep: "seen s c \<le> seen (app d s) c"
begin

definition run :: "'c list \<Rightarrow> 's \<Rightarrow> 's" where
  "run cs s = foldl (\<lambda>s c. app c s) s cs"

lemma seen_run: "seen s c \<le> seen (run cs s) c"
proof (induction cs arbitrary: s)
  case (Cons d cs)
  have "seen s c \<le> seen (app d s) c" by (rule keep)
  also have "\<dots> \<le> seen (run cs (app d s)) c" by (rule Cons.IH)
  finally show ?case by (simp add: run_def)
qed (simp add: run_def)

lemma seen_after: "counted c \<Longrightarrow> c \<in> set cs \<Longrightarrow> num c \<le> seen (run cs s) c"
proof (induction cs arbitrary: s)
  case (Cons d cs)
  show ?case
  proof (cases "c = d")
    case True
    have "num c \<le> seen (app c s) c" using Cons.prems(1) by (rule remember)
    also have "\<dots> \<le> seen (run cs (app c s)) c" by (rule seen_run)
    finally show ?thesis using True by (simp add: run_def)
  next
    case False
    with Cons.prems Cons.IH [of "app d s"] show ?thesis by (simp add: run_def)
  qed
qed simp

lemma retry_noop: "counted c \<Longrightarrow> c \<in> set cs \<Longrightarrow> app c (run cs s) = run cs s"
  by (intro skip seen_after)

end

section \<open>The store satisfies the contract\<close>

definition seenId :: "store \<Rightarrow> Command \<Rightarrow> int" where
  "seenId s c = lastId (snd s) (ClientID c)"

definition wf_dedup :: "dedup \<Rightarrow> bool" where
  "wf_dedup dt \<longleftrightarrow> (\<forall>i e. map_of dt i = Some e \<longrightarrow> 0 < LastAppliedRequestID e)"

lemma isDuplicate_lastId:
  "tagged c \<Longrightarrow> (isDuplicate dt c \<longleftrightarrow> has_key dt (ClientID c) \<and> RequestID c \<le> lastId dt (ClientID c))"
  by (auto simp: isDuplicate_def lastId_def has_key_def split: option.splits)

lemma lastId_record:
  "lastId (recordRequest c dt) i = (if tagged c \<and> i = ClientID c then RequestID c else lastId dt i)"
  by (auto simp: recordRequest_def lastId_def update_conv')

lemma has_key_lastId: "tagged c \<Longrightarrow> RequestID c \<le> lastId dt (ClientID c) \<Longrightarrow> has_key dt (ClientID c)"
  by (auto simp: tagged_def lastId_def has_key_def split: option.splits)

lemma duplicate_iff: "tagged c \<Longrightarrow> isDuplicate dt c \<longleftrightarrow> RequestID c \<le> lastId dt (ClientID c)"
  using has_key_lastId isDuplicate_lastId by blast

lemma applyStore_cases:
  "applyStore c (kv, dt) =
     (if tagged c \<and> RequestID c \<le> lastId dt (ClientID c) then (kv, dt)
      else if Op c = ''PUT'' then (AList.update (Key c) (Val c) kv, recordRequest c dt)
      else if Op c = ''DEL'' then (AList.delete (Key c) kv, recordRequest c dt)
      else (kv, dt))"
  by (auto simp: applyStore_def duplicate_iff)

definition counts :: "Command \<Rightarrow> bool" where
  "counts c \<longleftrightarrow> tagged c \<and> known_op c"

interpretation kvm: dedup_machine applyStore seenId RequestID counts
proof (unfold_locales, goal_cases)
  case (1 c s)
  then show ?case by (cases s) (auto simp: counts_def seenId_def applyStore_cases)
next
  case (2 c s)
  then show ?case
    by (cases s) (auto simp: counts_def known_op_def seenId_def applyStore_cases lastId_record)
next
  case (3 s c d)
  then show ?case
    by (cases s) (auto simp: seenId_def applyStore_cases lastId_record)
qed

lemma applyAll_run: "applyAll = kvm.run"
  by (simp add: applyAll_def kvm.run_def fun_eq_iff)

lemma applyStore_refines:
  "map_of (fst (applyStore c (kv, dt))) =
     (if tagged c \<and> RequestID c \<le> lastId dt (ClientID c) then map_of kv else spec_apply c (map_of kv))"
  by (auto simp: applyStore_cases spec_apply_def update_conv' delete_conv')

lemma applyStore_lastId:
  "lastId (snd (applyStore c (kv, dt))) =
     (if tagged c \<and> known_op c \<and> \<not> RequestID c \<le> lastId dt (ClientID c)
      then (lastId dt)(ClientID c := RequestID c) else lastId dt)"
  by (auto simp: applyStore_cases known_op_def lastId_record fun_eq_iff)

lemma applyStore_wf:
  "wf_map kv \<Longrightarrow> wf_map dt \<Longrightarrow> applyStore c (kv, dt) = (kv', dt') \<Longrightarrow> wf_map kv' \<and> wf_map dt'"
  by (auto simp: applyStore_cases recordRequest_def split: if_splits)

section \<open>Properties\<close>

text \<open>
  C8. The store refines a plain map on which every request is executed at most once: after
  any sequence of commands the store's contents are those of running, without any table,
  only the effective commands of the sequence.
\<close>

theorem store_refines_effective:
  "map_of (fst (applyAll cmds (kv, dt))) = spec_run (effective (lastId dt) cmds) (map_of kv)"
proof (induction cmds arbitrary: kv dt)
  case Nil
  show ?case by (simp add: applyAll_def spec_run_def)
next
  case (Cons c cmds)
  obtain kv' dt' where st: "applyStore c (kv, dt) = (kv', dt')" by fastforce
  have "map_of (fst (applyAll (c # cmds) (kv, dt))) = spec_run (effective (lastId dt') cmds) (map_of kv')"
    using Cons.IH [of kv' dt'] by (simp add: applyAll_def st)
  moreover have "map_of kv' = (if tagged c \<and> RequestID c \<le> lastId dt (ClientID c)
      then map_of kv else spec_apply c (map_of kv))"
    using applyStore_refines [of c kv dt] by (simp add: st)
  moreover have "lastId dt' = (if tagged c \<and> known_op c \<and> \<not> RequestID c \<le> lastId dt (ClientID c)
      then (lastId dt)(ClientID c := RequestID c) else lastId dt)"
    using applyStore_lastId [of c kv dt] by (simp add: st)
  ultimately show ?case by (auto simp: spec_run_def)
qed

text \<open>
  Exactly-once for retries: once a command that carries a client and a request number is
  in the applied sequence, applying it again, at any later time, changes neither the store
  nor the deduplication table.
\<close>

theorem retry_is_noop:
  assumes "tagged c" "known_op c" "c \<in> set cmds"
  shows "applyStore c (applyAll cmds st) = applyAll cmds st"
  unfolding applyAll_run by (rule kvm.retry_noop) (use assms in \<open>auto simp: counts_def\<close>)

theorem retry_is_noop_witness:
  "let put = \<lparr>Op = ''PUT'', Key = ''k'', Val = ''v1'', ClientID = ''cl'', RequestID = 1\<rparr>;
       del = \<lparr>Op = ''DEL'', Key = ''k'', Val = [], ClientID = ''cl'', RequestID = 2\<rparr>
   in applyStore put (applyAll [put, del] ([], [])) = applyAll [put, del] ([], [])"
  unfolding Let_def by (rule retry_is_noop) (simp_all add: tagged_def known_op_def)

end
