(* ===== verification/Snapshot.thy ===== *)
theory Snapshot
  imports Store
begin

text \<open>
  Snapshots (\<^verbatim>\<open>src/storage/snapshot.go\<close>): the snapshot record, its JSON form, and saving and
  loading it. The file system is a map from paths to contents. A save writes a temporary
  file and renames it; every point at which the operating system can fail is a value of
  \<open>save_fault\<close>, and \<open>saveTrace\<close> lists the file-system states a crash can leave behind.

  \<^verbatim>\<open>ClusterConfigSnapshot\<close> has the same fields and JSON names as \<^verbatim>\<open>ClusterConfig\<close> and is the same
  record here.
\<close>

section \<open>Data\<close>

type_synonym ClusterConfigSnapshot = ClusterConfig

record Snapshot =
  snLastIncludedIndex :: int
  snLastIncludedTerm :: int
  KVState :: strmap
  snClusterConfig :: "ClusterConfigSnapshot option"
  DedupTable :: dedup

type_synonym filesystem = "(string, bytes) gomap"

section \<open>JSON form\<close>

definition jsonDedup :: "DedupEntry \<Rightarrow> json" where
  "jsonDedup e = JObj
     [(''last_applied_request_id'', JNum (FormatInt (LastAppliedRequestID e))),
      (''response'', JStr (Response e)), (''status'', JStr (Status e))]"

definition jsonSnapshot :: "Snapshot \<Rightarrow> json" where
  "jsonSnapshot s = JObj
     ([(''last_included_index'', JNum (FormatInt (snLastIncludedIndex s))),
       (''last_included_term'', JNum (FormatInt (snLastIncludedTerm s))),
       (''kv_state'', encMap JStr (KVState s))]
      @ (case snClusterConfig s of None \<Rightarrow> [] | Some c \<Rightarrow> [(''cluster_config'', jsonConfig c)])
      @ (if DedupTable s \<noteq> [] then [(''dedup_table'', encMap jsonDedup (DedupTable s))] else []))"

definition MarshalSnapshot :: "Snapshot \<Rightarrow> bytes" where
  "MarshalSnapshot s = json_print (jsonSnapshot s)"

definition setDedupField :: "string \<Rightarrow> json \<Rightarrow> DedupEntry \<Rightarrow> DedupEntry option" where
  "setDedupField n v e =
     (if n = ''last_applied_request_id''
      then map_option (\<lambda>i. e\<lparr>LastAppliedRequestID := i\<rparr>) (setInt v (LastAppliedRequestID e))
      else if n = ''response'' then map_option (\<lambda>s. e\<lparr>Response := s\<rparr>) (setStr v (Response e))
      else map_option (\<lambda>s. e\<lparr>Status := s\<rparr>) (setStr v (Status e)))"

definition decodeDedup :: "json \<Rightarrow> DedupEntry option" where
  "decodeDedup v = decodeStruct [''last_applied_request_id'', ''response'', ''status''] setDedupField v
     \<lparr>LastAppliedRequestID = 0, Response = [], Status = []\<rparr>"

definition zeroSnapshot :: Snapshot where
  "zeroSnapshot = \<lparr>snLastIncludedIndex = 0, snLastIncludedTerm = 0, KVState = [],
     snClusterConfig = None, DedupTable = []\<rparr>"

definition setSnapshotField :: "string \<Rightarrow> json \<Rightarrow> Snapshot \<Rightarrow> Snapshot option" where
  "setSnapshotField n v s =
     (if n = ''last_included_index''
      then map_option (\<lambda>i. s\<lparr>snLastIncludedIndex := i\<rparr>) (setInt v (snLastIncludedIndex s))
      else if n = ''last_included_term''
      then map_option (\<lambda>i. s\<lparr>snLastIncludedTerm := i\<rparr>) (setInt v (snLastIncludedTerm s))
      else if n = ''kv_state'' then map_option (\<lambda>m. s\<lparr>KVState := m\<rparr>) (setStrMap v (KVState s))
      else if n = ''cluster_config''
      then map_option (\<lambda>c. s\<lparr>snClusterConfig := c\<rparr>) (setConfigPtr v (snClusterConfig s))
      else map_option (\<lambda>m. s\<lparr>DedupTable := m\<rparr>) (setMap decodeDedup v (DedupTable s)))"

definition decodeSnapshot :: "json \<Rightarrow> Snapshot option" where
  "decodeSnapshot v = decodeStruct
     [''last_included_index'', ''last_included_term'', ''kv_state'', ''cluster_config'', ''dedup_table'']
     setSnapshotField v zeroSnapshot"

definition UnmarshalSnapshot :: "bytes \<Rightarrow> Snapshot option" where
  "UnmarshalSnapshot bs = (case json_parse bs of None \<Rightarrow> None | Some v \<Rightarrow> decodeSnapshot v)"

text \<open>\<^verbatim>\<open>json.Decoder.Decode\<close> reads the first value of a stream and leaves what follows.\<close>

definition DecodeFirst :: "bytes \<Rightarrow> json option" where
  "DecodeFirst bs = map_option fst (parseValue (Suc (2 * length bs)) bs)"

section \<open>Saving and loading\<close>

datatype save_fault =
    NoFault
  | MkdirFails string
  | OpenFails string
  | EncodeFails nat string
  | SyncFails' string
  | CloseFails string
  | RenameFails string

definition tmpPath :: "string \<Rightarrow> string" where
  "tmpPath path = path @ ''.tmp''"

definition encodeFile :: "Snapshot \<Rightarrow> bytes" where
  "encodeFile snap = MarshalSnapshot snap @ [CHR 0x0A]"

definition SaveSnapshot ::
  "save_fault \<Rightarrow> filesystem \<Rightarrow> string \<Rightarrow> Snapshot \<Rightarrow> filesystem \<times> string option" where
  "SaveSnapshot fault fs path snap =
     (let tmp = tmpPath path;
          opened = AList.update tmp [] fs;
          written = AList.update tmp (encodeFile snap) opened
      in case fault of
           MkdirFails e \<Rightarrow> (fs, Some (''failed to create snapshot directory: '' @ e))
         | OpenFails e \<Rightarrow> (fs, Some (''failed to open temp snapshot file: '' @ e))
         | EncodeFails n e \<Rightarrow> (AList.delete tmp opened, Some (''failed to encode snapshot: '' @ e))
         | SyncFails' e \<Rightarrow> (AList.delete tmp written, Some (''failed to sync snapshot file: '' @ e))
         | CloseFails e \<Rightarrow> (AList.delete tmp written, Some (''failed to close snapshot file: '' @ e))
         | RenameFails e \<Rightarrow> (written, Some (''failed to commit snapshot file atomically: '' @ e))
         | NoFault \<Rightarrow> (AList.delete tmp (AList.update path (encodeFile snap) written), None))"

text \<open>The states between the system calls of a save, with every prefix of the file written.\<close>

definition saveTrace :: "filesystem \<Rightarrow> string \<Rightarrow> Snapshot \<Rightarrow> filesystem list" where
  "saveTrace fs path snap =
     (let tmp = tmpPath path; opened = AList.update tmp [] fs
      in [fs] @ map (\<lambda>k. AList.update tmp (take k (encodeFile snap)) opened)
                    [0..<Suc (length (encodeFile snap))]
         @ [fst (SaveSnapshot NoFault fs path snap)])"

definition LoadSnapshot :: "filesystem \<Rightarrow> string \<Rightarrow> Snapshot option result" where
  "LoadSnapshot fs path =
     (case map_of fs path of
        None \<Rightarrow> Inr None
      | Some bs \<Rightarrow>
          (case DecodeFirst bs of
             None \<Rightarrow> Inl ''failed to decode snapshot''
           | Some v \<Rightarrow>
               (case decodeSnapshot v of
                  None \<Rightarrow> Inl ''failed to decode snapshot''
                | Some snap \<Rightarrow> Inr (Some snap))))"

section \<open>Round trip\<close>

definition clean_dedup :: "dedup \<Rightarrow> bool" where
  "clean_dedup dt \<longleftrightarrow> wf_map dt \<and> (\<forall>p \<in> set dt. clean (fst p) \<and> clean (Response (snd p)) \<and>
     clean (Status (snd p)) \<and> int64 (LastAppliedRequestID (snd p)))"

definition clean_snapshot :: "Snapshot \<Rightarrow> bool" where
  "clean_snapshot s \<longleftrightarrow> int64 (snLastIncludedIndex s) \<and> int64 (snLastIncludedTerm s) \<and>
     clean_map (KVState s) \<and> clean_dedup (DedupTable s) \<and>
     (case snClusterConfig s of None \<Rightarrow> True | Some c \<Rightarrow> clean_config c)"

definition sortSnapshot :: "Snapshot \<Rightarrow> Snapshot" where
  "sortSnapshot s = s\<lparr>KVState := sort_key fst (KVState s),
     snClusterConfig := map_option sortConfig (snClusterConfig s),
     DedupTable := sort_key fst (DedupTable s)\<rparr>"

lemma sanitize_snapshot_literals [simp]:
  "sanitize ''last_applied_request_id'' = ''last_applied_request_id''"
  "sanitize ''response'' = ''response''" "sanitize ''status'' = ''status''"
  "sanitize ''last_included_index'' = ''last_included_index''"
  "sanitize ''last_included_term'' = ''last_included_term''"
  "sanitize ''kv_state'' = ''kv_state''" "sanitize ''cluster_config'' = ''cluster_config''"
  "sanitize ''dedup_table'' = ''dedup_table''"
  by (simp_all add: byte_def sanitize.simps)

lemma decodeDedup_json:
  "clean (Response e) \<Longrightarrow> clean (Status e) \<Longrightarrow> int64 (LastAppliedRequestID e) \<Longrightarrow>
   decodeDedup (sanitize_json (jsonDedup e)) = Some e"
  by (simp add: decodeDedup_def jsonDedup_def decodeStruct_def decodeMember_def setDedupField_def clean_def)

lemma setMap_dedup:
  "clean_dedup dt \<Longrightarrow>
   setMap decodeDedup (sanitize_json (encMap jsonDedup dt)) [] = Some (sort_key fst dt)"
  by (rule setMap_encMap) (auto simp: clean_dedup_def decodeDedup_json)

lemma decodeSnapshot_json:
  assumes "clean_snapshot s"
  shows "decodeSnapshot (sanitize_json (jsonSnapshot s)) = Some (sortSnapshot s)"
  using assms
  by (cases "snClusterConfig s"; cases "DedupTable s = []")
    (simp_all add: decodeSnapshot_def jsonSnapshot_def decodeStruct_def decodeMember_def
      setSnapshotField_def clean_snapshot_def zeroSnapshot_def sortSnapshot_def setStrMap_clean
      setMap_dedup setConfigPtr_jsonConfig)

lemma wf_json_snapshot: "wf_json (jsonSnapshot s)"
  by (auto simp: jsonSnapshot_def jsonDedup_def encMap_def wf_json_config split: option.splits)

lemma UnmarshalSnapshot_Marshal:
  "clean_snapshot s \<Longrightarrow> UnmarshalSnapshot (MarshalSnapshot s) = Some (sortSnapshot s)"
  by (simp add: UnmarshalSnapshot_def MarshalSnapshot_def json_parse_print wf_json_snapshot
      decodeSnapshot_json)

section \<open>Properties\<close>

lemma path_neq_tmp [simp]: "path \<noteq> tmpPath path" "tmpPath path \<noteq> path"
  by (auto simp: tmpPath_def)

lemma DecodeFirst_encoded: "DecodeFirst (encodeFile snap) = Some (sanitize_json (jsonSnapshot snap))"
proof -
  have "parseValue (Suc (2 * length (encodeFile snap))) (json_print (jsonSnapshot snap) @ [CHR 0x0A]) =
      Some (sanitize_json (jsonSnapshot snap), [CHR 0x0A])"
    by (rule parseValue_print [OF wf_json_snapshot]) (simp_all add: encodeFile_def MarshalSnapshot_def)
  then show ?thesis
    unfolding DecodeFirst_def encodeFile_def MarshalSnapshot_def by (simp del: parseValue.simps)
qed

lemma LoadSnapshot_encoded:
  "clean_snapshot snap \<Longrightarrow> map_of fs path = Some (encodeFile snap) \<Longrightarrow>
   LoadSnapshot fs path = Inr (Some (sortSnapshot snap))"
  by (simp add: LoadSnapshot_def DecodeFirst_encoded decodeSnapshot_json)

lemma LoadSnapshot_cong: "map_of fs' path = map_of fs path \<Longrightarrow> LoadSnapshot fs' path = LoadSnapshot fs path"
  by (simp add: LoadSnapshot_def)

text \<open>
  Saving and loading: after a save that reports no error, loading the path gives the
  snapshot back (maps in key order); a save that reports an error leaves the file at the
  path as it was.
\<close>

theorem save_load_roundtrip:
  assumes "clean_snapshot snap"
  shows "case SaveSnapshot fault fs path snap of
      (fs', None) \<Rightarrow> LoadSnapshot fs' path = Inr (Some (sortSnapshot snap))
    | (fs', Some e) \<Rightarrow> LoadSnapshot fs' path = LoadSnapshot fs path"
  using LoadSnapshot_encoded [OF assms, of _ path]
  by (cases fault) (auto simp: SaveSnapshot_def Let_def update_conv' delete_conv' intro!: LoadSnapshot_cong)

theorem save_load_roundtrip_witness:
  "LoadSnapshot (fst (SaveSnapshot NoFault [] ''s.json'' (zeroSnapshot\<lparr>snLastIncludedIndex := 4\<rparr>))) ''s.json''
     = Inr (Some (zeroSnapshot\<lparr>snLastIncludedIndex := 4\<rparr>))"
proof -
  let ?s = "zeroSnapshot\<lparr>snLastIncludedIndex := 4\<rparr>"
  have "clean_snapshot ?s"
    by (simp add: clean_snapshot_def zeroSnapshot_def clean_map_def clean_dedup_def int64_def)
  from save_load_roundtrip [OF this, where fault = NoFault and fs = "[]" and path = "''s.json''"]
  show ?thesis by (simp add: SaveSnapshot_def Let_def sortSnapshot_def zeroSnapshot_def)
qed



end
