(* ===== verification/Node.thy ===== *)
theory Node
  imports WAL Snapshot
begin

text \<open>
  The state of a Raft node (\<^verbatim>\<open>src/raft/raft.go\<close>) and the operations that the handlers share:
  index translation over the compacted log, persistence, timers, peer connections and the
  calls to other nodes.

  Every function that the code runs under \<^verbatim>\<open>r.mu\<close> is a function on the state record. What it
  sets in motion outside the node is appended to \<open>outbox\<close>: answers to clients, goroutines it
  starts, metrics. A response channel is a number, a nil pointer is \<open>None\<close>. The outcome of
  every disk write and of every dial is read from \<open>env\<close>, which also holds the protobuf
  codec and the clock in milliseconds; a list of outcomes that is used up means success.
  The election timer is \<open>None\<close> before \<^verbatim>\<open>run\<close>, then \<open>Some\<close> of whether it is running; how long
  it runs is random, so it may fire whenever it runs. Log output is not modelled.
\<close>

section \<open>Data\<close>

datatype RaftState = Follower | Candidate | Leader | Shutdown

fun RaftState_String :: "RaftState \<Rightarrow> string" where
  "RaftState_String Follower = ''Follower''"
| "RaftState_String Candidate = ''Candidate''"
| "RaftState_String Leader = ''Leader''"
| "RaftState_String Shutdown = ''Shutdown''"

record cmdResp =
  success :: bool
  err :: "string option"

record proposal =
  prIndex :: int
  prTerm :: int
  respCh :: nat

text \<open>What a step leaves to be done outside the node.\<close>

datatype effect =
    Respond nat cmdResp
  | GoSendPreVote string int int int
  | GoSendRequestVote string int int int
  | GoReplicateToPeer string
  | GoSendSnapshotToPeer string
  | GoHeartbeatTicker
  | SetGauge string int
  | IncCounter string
  | ObserveLag int string

text \<open>The outside world as one node sees it.\<close>

record environment =
  marshal :: "WALRecord \<Rightarrow> bytes result"
  unmarshal :: "bytes \<Rightarrow> WALRecord result"
  walOutcomes :: "write_outcome list"
  resetOutcomes :: "(string option \<times> string option) list"
  saveOutcomes :: "save_fault list"
  credsErr :: "string option"
  dialErr :: "string \<Rightarrow> string option"
  clock :: int

record raft =
  raft_id :: string
  peers :: strmap
  grpcPeers :: strmap
  state :: RaftState
  currentTerm :: int
  votedFor :: string
  log :: "LogEntry list"
  votesReceived :: "(string, bool) gomap"
  proposals :: "proposal list"
  lastIncludedIndex :: int
  lastIncludedTerm :: int
  commitIndex :: int
  lastApplied :: int
  nextIndex :: "(string, int) gomap"
  matchIndex :: "(string, int) gomap"
  electionTimer :: "bool option"
  wal :: WAL
  snapshotPath :: string
  disk :: filesystem
  kv :: strmap
  dedupTable :: dedup
  snapshotBuf :: bytes
  currentConfig :: "ClusterConfig option"
  pendingConfig :: bool
  configChangeIndex :: int
  peerHTTPAddrs :: strmap
  proposalTime :: "(int, int) gomap"
  isJoining :: bool
  readSafety :: string
  lastHeartbeatQuorum :: "int option"
  lastLeaderHeartbeat :: "int option"
  preVoteVotesReceived :: "(string, bool) gomap"
  snapshotThreshold :: int
  partition :: "(string, bool) gomap option"
  networkDelay :: int
  env :: environment
  outbox :: "effect list"

named_theorems node_defs \<open>the operations that are plain updates of the node record\<close>

section \<open>Output\<close>

definition emit :: "effect list \<Rightarrow> raft \<Rightarrow> raft" where
  [node_defs]:
  "emit es r = r\<lparr>outbox := outbox r @ es\<rparr>"

definition respond :: "nat \<Rightarrow> bool \<Rightarrow> string option \<Rightarrow> raft \<Rightarrow> raft" where
  [node_defs]:
  "respond ch ok e r = emit [Respond ch \<lparr>success = ok, err = e\<rparr>] r"

section \<open>Index translation\<close>

definition lastLogIndex :: "raft \<Rightarrow> int" where
  "lastLogIndex r = (if log r = [] then lastIncludedIndex r else Index (last (log r)))"

definition lastLogTerm :: "raft \<Rightarrow> int" where
  "lastLogTerm r = (if log r = [] then lastIncludedTerm r else Term (last (log r)))"

definition getEntry :: "raft \<Rightarrow> int \<Rightarrow> LogEntry option" where
  "getEntry r idx =
     (if idx = lastIncludedIndex r
      then Some \<lparr>Index = lastIncludedIndex r, Term = lastIncludedTerm r, Command = []\<rparr>
      else if idx < lastIncludedIndex r then None
      else let offset = idx - lastIncludedIndex r - 1
           in if 0 \<le> offset \<and> offset < int (length (log r)) then Some (log r ! nat offset) else None)"

definition getEntryTerm :: "raft \<Rightarrow> int \<Rightarrow> int" where
  "getEntryTerm r idx = (case getEntry r idx of Some e \<Rightarrow> Term e | None \<Rightarrow> 0)"

text \<open>The loop that collects the entries of an index range and skips those that are nil.\<close>

definition entriesFromTo :: "raft \<Rightarrow> int \<Rightarrow> int \<Rightarrow> LogEntry list" where
  "entriesFromTo r a b = List.map_filter (getEntry r) [a..b]"

section \<open>Persistence\<close>

definition next_or :: "'a \<Rightarrow> 'a list \<Rightarrow> 'a" where
  "next_or d xs = (case xs of [] \<Rightarrow> d | x # _ \<Rightarrow> x)"

definition nextWrite :: "raft \<Rightarrow> write_outcome" where
  "nextWrite r = next_or WriteOk (walOutcomes (env r))"

text \<open>The node after a call of the WAL that returned \<open>w\<close>, with one write outcome used.\<close>

definition wroteWal :: "WAL \<times> string option \<Rightarrow> raft \<Rightarrow> raft \<times> string option" where
  [node_defs]:
  "wroteWal res r =
     (r\<lparr>wal := fst res, env := (env r)\<lparr>walOutcomes := tl (walOutcomes (env r))\<rparr>\<rparr>, snd res)"

definition walState :: "raft \<Rightarrow> raft \<times> string option" where
  [node_defs]:
  "walState r = wroteWal
     (AppendState (marshal (env r)) (nextWrite r) (wal r) (currentTerm r) (votedFor r)) r"

definition walEntry :: "LogEntry \<Rightarrow> raft \<Rightarrow> raft \<times> string option" where
  [node_defs]:
  "walEntry x r = wroteWal (AppendEntry (marshal (env r)) (nextWrite r) (wal r) x) r"

definition walTruncate :: "int \<Rightarrow> raft \<Rightarrow> raft \<times> string option" where
  [node_defs]:
  "walTruncate i r = wroteWal (AppendTruncate (marshal (env r)) (nextWrite r) (wal r) i) r"

definition walReset :: "raft \<Rightarrow> raft \<times> string option" where
  [node_defs]:
  "walReset r =
     (let outcome = next_or (None, None) (resetOutcomes (env r));
          res = Reset (fst outcome) (snd outcome) (wal r)
      in (r\<lparr>wal := fst res, env := (env r)\<lparr>resetOutcomes := tl (resetOutcomes (env r))\<rparr>\<rparr>, snd res))"

definition saveSnap :: "Snapshot \<Rightarrow> raft \<Rightarrow> raft \<times> string option" where
  [node_defs]:
  "saveSnap snap r =
     (let res = SaveSnapshot (next_or NoFault (saveOutcomes (env r))) (disk r) (snapshotPath r) snap
      in (r\<lparr>disk := fst res, env := (env r)\<lparr>saveOutcomes := tl (saveOutcomes (env r))\<rparr>\<rparr>, snd res))"

text \<open>\<^verbatim>\<open>r.log = append(r.log, entry)\<close> followed by \<^verbatim>\<open>r.wal.AppendEntry(entry)\<close>.\<close>

definition appendLog :: "LogEntry \<Rightarrow> raft \<Rightarrow> raft \<times> string option" where
  [node_defs]:
  "appendLog entry r = walEntry entry (r\<lparr>log := log r @ [entry]\<rparr>)"

section \<open>Timers, peers and calls to other nodes\<close>

definition resetElectionTimer :: "raft \<Rightarrow> raft" where
  [node_defs]:
  "resetElectionTimer r = r\<lparr>electionTimer := Some True\<rparr>"

definition effectivePeers :: "raft \<Rightarrow> strmap" where
  "effectivePeers r =
     (case currentConfig r of Some c \<Rightarrow> AllNodeGRPC (Some c) (raft_id r) | None \<Rightarrow> peers r)"

definition broadcastHeartbeats :: "raft \<Rightarrow> raft" where
  [node_defs]:
  "broadcastHeartbeats r = emit (map (GoReplicateToPeer \<circ> fst) (effectivePeers r)) r"

text \<open>Loading the credentials and dialling an address.\<close>

definition dialPeer :: "environment \<Rightarrow> string \<Rightarrow> string \<Rightarrow> string option" where
  "dialPeer en peerID addr =
     (case credsErr en of
        Some e \<Rightarrow> Some (''failed to load credentials for client mTLS connecting to '' @ peerID @ '': '' @ e)
      | None \<Rightarrow> map_option (\<lambda>e. ''failed to dial peer '' @ peerID @ '' at '' @ addr @ '': '' @ e) (dialErr en addr))"

text \<open>Each loop works on the maps that it changes; the first stops at the first failure.\<close>

fun connectLoop :: "environment \<Rightarrow> strmap \<Rightarrow> strmap \<Rightarrow> strmap \<times> string option" where
  "connectLoop en [] conns = (conns, None)"
| "connectLoop en ((peerID, addr) # ps) conns =
     (if has_key conns peerID then connectLoop en ps conns
      else (case dialPeer en peerID addr of
              Some e \<Rightarrow> (conns, Some e)
            | None \<Rightarrow> connectLoop en ps (AList.update peerID addr conns)))"

definition connectToPeersLocked :: "raft \<Rightarrow> raft \<times> string option" where
  [node_defs]:
  "connectToPeersLocked r =
     (let res = connectLoop (env r) (effectivePeers r) (grpcPeers r)
      in (r\<lparr>grpcPeers := fst res\<rparr>, snd res))"

type_synonym peer_maps = "strmap \<times> (string, int) gomap \<times> (string, int) gomap"

fun connectNewLoop :: "environment \<Rightarrow> int \<Rightarrow> strmap \<Rightarrow> peer_maps \<Rightarrow> peer_maps" where
  "connectNewLoop en lastIdx [] ms = ms"
| "connectNewLoop en lastIdx ((peerID, addr) # ps) (conns, next, match) =
     (if has_key conns peerID then connectNewLoop en lastIdx ps (conns, next, match)
      else (case dialPeer en peerID addr of
              Some e \<Rightarrow> connectNewLoop en lastIdx ps (conns, next, match)
            | None \<Rightarrow> connectNewLoop en lastIdx ps
                (AList.update peerID addr conns, AList.update peerID (lastIdx + 1) next,
                 AList.update peerID 0 match)))"

definition setPeerMaps :: "peer_maps \<Rightarrow> raft \<Rightarrow> raft" where
  [node_defs]:
  "setPeerMaps ms r =
     r\<lparr>grpcPeers := fst ms, nextIndex := fst (snd ms), matchIndex := snd (snd ms)\<rparr>"

definition connectToNewPeers :: "raft \<Rightarrow> raft" where
  [node_defs]:
  "connectToNewPeers r = setPeerMaps
     (connectNewLoop (env r) (lastLogIndex r) (effectivePeers r) (grpcPeers r, nextIndex r, matchIndex r)) r"

fun disconnectLoop :: "strmap \<Rightarrow> strmap \<Rightarrow> peer_maps \<Rightarrow> peer_maps" where
  "disconnectLoop allPeers [] ms = ms"
| "disconnectLoop allPeers ((peerID, pc) # ps) (conns, next, match) =
     disconnectLoop allPeers ps
       (if has_key allPeers peerID then (conns, next, match)
        else (AList.delete peerID conns, AList.delete peerID next, AList.delete peerID match))"

definition disconnectRemovedPeers :: "raft \<Rightarrow> raft" where
  [node_defs]:
  "disconnectRemovedPeers r = setPeerMaps
     (disconnectLoop (effectivePeers r) (grpcPeers r) (grpcPeers r, nextIndex r, matchIndex r)) r"

text \<open>The simulated network fault, and the guard that every call to a peer starts with.\<close>

definition checkNetworkFault :: "raft \<Rightarrow> string \<Rightarrow> string option" where
  "checkNetworkFault r peerID =
     (case partition r of
        None \<Rightarrow> None
      | Some p \<Rightarrow> if get_bool p peerID then None
                  else Some (''simulated network partition for peer '' @ peerID))"

definition callPeer :: "raft \<Rightarrow> string \<Rightarrow> 'a \<Rightarrow> 'a result" where
  "callPeer r peerID request =
     (case checkNetworkFault r peerID of
        Some e \<Rightarrow> Inl e
      | None \<Rightarrow> if has_key (grpcPeers r) peerID then Inr request
                else Inl ''gRPC client connection not found'')"

definition sendPreVote :: "raft \<Rightarrow> string \<Rightarrow> int \<Rightarrow> int \<Rightarrow> int \<Rightarrow> RequestVoteRequest result" where
  "sendPreVote r peerID t lastLogIdx lastTerm = callPeer r peerID
     \<lparr>rvTerm = t, CandidateId = raft_id r, LastLogIndex = lastLogIdx, LastLogTerm = lastTerm\<rparr>"

definition sendRequestVote :: "raft \<Rightarrow> string \<Rightarrow> int \<Rightarrow> int \<Rightarrow> int \<Rightarrow> RequestVoteRequest result" where
  "sendRequestVote r peerID t lastLogIdx lastTerm = callPeer r peerID
     \<lparr>rvTerm = t, CandidateId = raft_id r, LastLogIndex = lastLogIdx, LastLogTerm = lastTerm\<rparr>"

definition sendAppendEntries ::
  "raft \<Rightarrow> string \<Rightarrow> int \<Rightarrow> int \<Rightarrow> int \<Rightarrow> LogEntry list \<Rightarrow> int \<Rightarrow> AppendEntriesRequest result" where
  "sendAppendEntries r peerID t prevLogIdx prevLogTerm entries leaderCommit = callPeer r peerID
     \<lparr>aeTerm = t, aeLeaderId = raft_id r, PrevLogIndex = prevLogIdx, PrevLogTerm = prevLogTerm,
      Entries = entries, LeaderCommit = leaderCommit\<rparr>"

definition sendInstallSnapshot ::
  "raft \<Rightarrow> string \<Rightarrow> int \<Rightarrow> int \<Rightarrow> int \<Rightarrow> int \<Rightarrow> bytes \<Rightarrow> bool \<Rightarrow> InstallSnapshotRequest result" where
  "sendInstallSnapshot r peerID t lii lit offset data done = callPeer r peerID
     \<lparr>isTerm = t, isLeaderId = raft_id r, isLastIncludedIndex = lii, isLastIncludedTerm = lit,
      Offset = offset, Data = data, Done = done\<rparr>"

section \<open>Accessors and settings\<close>

definition SetPeerHTTPAddrs :: "strmap \<Rightarrow> raft \<Rightarrow> raft" where
  "SetPeerHTTPAddrs addrs r = r\<lparr>peerHTTPAddrs := addrs\<rparr>"

definition GetPeerHTTPAddrs :: "raft \<Rightarrow> strmap" where
  "GetPeerHTTPAddrs r = copyMap (peerHTTPAddrs r)"

definition InitClusterConfig :: "strmap \<Rightarrow> strmap \<Rightarrow> raft \<Rightarrow> raft" where
  "InitClusterConfig grpc http r =
     (case currentConfig r of
        None \<Rightarrow> r\<lparr>currentConfig := Some (ConfigFromPeers grpc http (raft_id r)),
                  peerHTTPAddrs := copyMap http\<rparr>
      | Some c \<Rightarrow> r)"

definition SetReadSafety :: "string \<Rightarrow> raft \<Rightarrow> raft" where
  "SetReadSafety mode r = r\<lparr>readSafety := mode\<rparr>"

definition SetPartition :: "(string, bool) gomap option \<Rightarrow> raft \<Rightarrow> raft" where
  "SetPartition p r = r\<lparr>partition := p\<rparr>"

definition SetNetworkDelay :: "int \<Rightarrow> raft \<Rightarrow> raft" where
  "SetNetworkDelay d r = r\<lparr>networkDelay := d\<rparr>"

definition SetJoining :: "bool \<Rightarrow> raft \<Rightarrow> raft" where
  "SetJoining joining r = r\<lparr>isJoining := joining\<rparr>"

definition IsLeader :: "raft \<Rightarrow> bool \<times> string" where
  "IsLeader r = (if state r = Leader then (True, raft_id r) else (False, votedFor r))"

definition GetID :: "raft \<Rightarrow> string" where
  "GetID r = raft_id r"

text \<open>\<^verbatim>\<open>Stop\<close>: the first call closes the connections and the WAL, later calls do nothing.\<close>

definition Stop :: "raft \<Rightarrow> raft" where
  "Stop r = (if state r = Shutdown then r
     else r\<lparr>state := Shutdown, wal := Close (wal r)\<rparr>)"

end
