(* ===== verification/Apply.thy ===== *)
theory Apply
  imports Node
begin

text \<open>
  Applying committed entries (\<^verbatim>\<open>applyLogs\<close> of \<^verbatim>\<open>src/raft/raft.go\<close> and what it calls): commands,
  both phases of a membership change, log compaction, the answers to waiting clients, and
  the start of a node from its snapshot and WAL.
\<close>

section \<open>Operations\<close>

definition failProposals :: "proposal list \<Rightarrow> effect list" where
  "failProposals ps =
     map (\<lambda>p. Respond (respCh p) \<lparr>success = False, err = Some ''node transitioned to follower''\<rparr>) ps"

definition transitionToFollower :: "int \<Rightarrow> raft \<Rightarrow> raft" where
  [node_defs]:
  "transitionToFollower t r =
     (let r1 = resetElectionTimer (r\<lparr>state := Follower, currentTerm := t, votedFor := []\<rparr>);
          r2 = emit [SetGauge ''raft_role'' 0, SetGauge ''raft_current_term'' t] r1
      in (emit (failProposals (proposals r2)) r2)\<lparr>proposals := []\<rparr>)"

definition applyConfigEntry :: "ClusterConfig \<Rightarrow> raft \<Rightarrow> raft" where
  [node_defs]:
  "applyConfigEntry config r =
     r\<lparr>currentConfig := Some config,
       peers := AllNodeGRPC (Some config) (raft_id r),
       peerHTTPAddrs := AllNodeHTTP (Some config) (raft_id r),
       isJoining := \<not> ContainsNode (Some config) (raft_id r)\<rparr>"

definition proposeSecondPhaseConfig :: "ClusterConfig \<Rightarrow> raft \<Rightarrow> raft" where
  "proposeSecondPhaseConfig jointConfig r =
     (case EncodeConfigChangeEntry (BuildFinalConfig (Some jointConfig)) of
        Inl e \<Rightarrow> r
      | Inr configData \<Rightarrow>
          let entry = \<lparr>Index = lastLogIndex r + 1, Term = currentTerm r, Command = configData\<rparr>
          in (case appendLog entry r of
                (r1, Some e) \<Rightarrow> r1
              | (r1, None) \<Rightarrow>
                  broadcastHeartbeats
                    (r1\<lparr>proposalTime := AList.update (Index entry) (clock (env r1)) (proposalTime r1),
                        configChangeIndex := Index entry\<rparr>)))"

definition applyCommand :: "bytes \<Rightarrow> raft \<Rightarrow> raft" where
  "applyCommand cmdBytes r =
     (if cmdBytes = [] then r
      else (case UnmarshalCommand cmdBytes of
              None \<Rightarrow> r
            | Some cmd \<Rightarrow>
                (case applyStore cmd (kv r, dedupTable r) of
                   (kv', dt') \<Rightarrow> r\<lparr>kv := kv', dedupTable := dt'\<rparr>)))"

definition snapshotOf :: "raft \<Rightarrow> Snapshot" where
  "snapshotOf r =
     \<lparr>snLastIncludedIndex = commitIndex r, snLastIncludedTerm = getEntryTerm r (commitIndex r),
      KVState = copyMap (kv r),
      snClusterConfig = map_option (\<lambda>c. \<lparr>OldPeers = copyMap (OldPeers c), NewPeers = copyMap (NewPeers c),
         OldHTTP = copyMap (OldHTTP c), NewHTTP = copyMap (NewHTTP c), Joint = Joint c\<rparr>) (currentConfig r),
      DedupTable = dedupTable r\<rparr>"

definition takeSnapshot :: "raft \<Rightarrow> raft" where
  "takeSnapshot r =
     (let snap = snapshotOf r
      in case saveSnap snap r of
           (r1, Some e) \<Rightarrow> r1
         | (r1, None) \<Rightarrow>
             let newLog = entriesFromTo r1 (commitIndex r1 + 1) (lastLogIndex r1);
                 r2 = r1\<lparr>lastIncludedIndex := snLastIncludedIndex snap,
                        lastIncludedTerm := snLastIncludedTerm snap, log := newLog\<rparr>
             in (case walReset r2 of
                   (r3, Some e) \<Rightarrow> r3
                 | (r3, None) \<Rightarrow> fst (walState r3)))"

text \<open>The branch that both restoring and loading a snapshot have for its configuration.\<close>

definition restoreConfig :: "Snapshot \<Rightarrow> raft \<Rightarrow> raft" where
  "restoreConfig snap r =
     (case snClusterConfig snap of
        None \<Rightarrow> r
      | Some c \<Rightarrow>
          let c' = \<lparr>OldPeers = copyMap (OldPeers c), NewPeers = copyMap (NewPeers c),
                    OldHTTP = copyMap (OldHTTP c), NewHTTP = copyMap (NewHTTP c), Joint = Joint c\<rparr>
          in r\<lparr>currentConfig := Some c', peers := AllNodeGRPC (Some c') (raft_id r),
               peerHTTPAddrs := AllNodeHTTP (Some c') (raft_id r)\<rparr>)"

definition restoreSnapshot :: "Snapshot \<Rightarrow> raft \<Rightarrow> raft" where
  "restoreSnapshot snap r =
     (case saveSnap snap r of
        (r1, Some e) \<Rightarrow> r1
      | (r1, None) \<Rightarrow>
          let r2 = restoreConfig snap (r1\<lparr>kv := copyMap (KVState snap), dedupTable := DedupTable snap\<rparr>);
              newLog = entriesFromTo r2 (snLastIncludedIndex snap + 1) (lastLogIndex r2);
              r3 = r2\<lparr>lastIncludedIndex := snLastIncludedIndex snap,
                     lastIncludedTerm := snLastIncludedTerm snap, log := newLog\<rparr>;
              r4 = (if commitIndex r3 < snLastIncludedIndex snap
                    then r3\<lparr>commitIndex := snLastIncludedIndex snap\<rparr> else r3);
              r5 = (if lastApplied r4 < snLastIncludedIndex snap
                    then r4\<lparr>lastApplied := snLastIncludedIndex snap\<rparr> else r4)
          in fst (walState (fst (walReset r5))))"

text \<open>The body of the apply loop for the entry at \<^verbatim>\<open>lastApplied\<close>.\<close>

definition applyFinalConfig :: "ClusterConfig \<Rightarrow> raft \<Rightarrow> raft" where
  "applyFinalConfig cfg r =
     (let r1 = (applyConfigEntry cfg r)\<lparr>pendingConfig := False, configChangeIndex := 0\<rparr>;
          r2 = disconnectRemovedPeers r1
      in if state r2 = Leader \<and> \<not> ContainsNode (Some cfg) (raft_id r2)
         then (if \<not> has_key (NewPeers cfg) (raft_id r2)
               then transitionToFollower (currentTerm r2) r2 else r2)
         else r2)"

definition applyJointConfig :: "ClusterConfig \<Rightarrow> raft \<Rightarrow> raft" where
  "applyJointConfig cfg r =
     applyConfigEntry cfg (if state r = Leader then proposeSecondPhaseConfig cfg r else r)"

definition applyEnvelope :: "LogEntryEnvelope \<Rightarrow> raft \<Rightarrow> raft" where
  "applyEnvelope envl r =
     (if envType envl = EntryCommand
      then applyCommand (case envData envl of None \<Rightarrow> [] | Some d \<Rightarrow> d) r
      else if envType envl = EntryConfigChange
      then (case envConfig envl of
              None \<Rightarrow> r
            | Some cfg \<Rightarrow> if Joint cfg then applyJointConfig cfg r else applyFinalConfig cfg r)
      else r)"

definition beginApply :: "raft \<Rightarrow> raft" where
  [node_defs]:
  "beginApply r = emit [SetGauge ''raft_commit_index'' (lastApplied r + 1)]
     (r\<lparr>lastApplied := lastApplied r + 1\<rparr>)"

definition applyNext :: "raft \<Rightarrow> raft" where
  "applyNext r0 =
     (let r = beginApply r0
      in case getEntry r (lastApplied r) of
           None \<Rightarrow> r
         | Some entry \<Rightarrow>
             if Command entry = [] then r
             else (case DecodeLogEntry (Command entry) of
                     Inl e \<Rightarrow> r
                   | Inr envl \<Rightarrow> applyEnvelope envl r))"

definition completeProposal :: "raft \<Rightarrow> proposal \<Rightarrow> effect list" where
  "completeProposal r p =
     (if prIndex p \<le> commitIndex r
      then [Respond (respCh p)
              (if prTerm p = getEntryTerm r (prIndex p) then \<lparr>success = True, err = None\<rparr>
               else \<lparr>success = False, err = Some ''leader stepped down before committing''\<rparr>)]
      else [])"

definition completeProposals :: "raft \<Rightarrow> raft" where
  "completeProposals r =
     (emit (concat (map (completeProposal r) (proposals r))) r)
       \<lparr>proposals := filter (\<lambda>p. \<not> prIndex p \<le> commitIndex r) (proposals r)\<rparr>"

definition compact :: "raft \<Rightarrow> raft" where
  "compact r =
     (if 0 < snapshotThreshold r \<and> snapshotThreshold r < lastLogIndex r - lastIncludedIndex r
      then takeSnapshot r else r)"

section \<open>The apply loop\<close>

text \<open>Each round raises \<^verbatim>\<open>lastApplied\<close> by one and leaves \<^verbatim>\<open>commitIndex\<close> alone.\<close>

lemma applyNext_progress [simp]:
  "commitIndex (applyNext r) = commitIndex r" "lastApplied (applyNext r) = lastApplied r + 1"
  by (simp_all add: applyNext_def applyEnvelope_def applyCommand_def applyJointConfig_def
      applyFinalConfig_def proposeSecondPhaseConfig_def node_defs Let_def
      split: option.split sum.split prod.split)

function applyLoop :: "raft \<Rightarrow> raft" where
  "applyLoop r = (if lastApplied r < commitIndex r then applyLoop (applyNext r) else r)"
  by pat_completeness auto
termination
  by (relation "measure (\<lambda>r. nat (commitIndex r - lastApplied r))") auto

declare applyLoop.simps [simp del]

definition applyLogs :: "raft \<Rightarrow> raft" where
  "applyLogs r = completeProposals (compact (applyLoop r))"

section \<open>Starting a node\<close>

definition loadState :: "raft \<Rightarrow> raft result" where
  "loadState r =
     (case LoadSnapshot (disk r) (snapshotPath r) of
        Inl e \<Rightarrow> Inl e
      | Inr snapOpt \<Rightarrow>
          let r1 = (case snapOpt of
                      None \<Rightarrow> r\<lparr>kv := []\<rparr>
                    | Some snap \<Rightarrow> restoreConfig snap
                        (r\<lparr>kv := KVState snap, dedupTable := DedupTable snap,
                           lastIncludedIndex := snLastIncludedIndex snap,
                           lastIncludedTerm := snLastIncludedTerm snap,
                           commitIndex := snLastIncludedIndex snap,
                           lastApplied := snLastIncludedIndex snap\<rparr>))
          in (case Replay (unmarshal (env r1)) (wal r1) of
                Inl e \<Rightarrow> Inl e
              | Inr (t, v, entries) \<Rightarrow>
                  let r2 = (if t > 0 then r1\<lparr>currentTerm := t, votedFor := v\<rparr> else r1);
                      r3 = r2\<lparr>log := log r2 @ filter (\<lambda>e. lastIncludedIndex r2 < Index e) entries\<rparr>
                  in Inr (applyLogs r3)))"

text \<open>
  The WAL file of a storage directory is on \<open>fs\<close> like the snapshot; opening it can fail.
\<close>

definition freshRaft ::
  "environment \<Rightarrow> filesystem \<Rightarrow> string \<Rightarrow> strmap \<Rightarrow> string \<Rightarrow> int \<Rightarrow> WAL \<Rightarrow> raft" where
  "freshRaft en fs nid ps storageDir threshold w =
     \<lparr>raft_id = nid, peers = ps, grpcPeers = [], state = Follower, currentTerm = 0, votedFor = [],
      log = [], votesReceived = [], proposals = [], lastIncludedIndex = 0, lastIncludedTerm = 0,
      commitIndex = 0, lastApplied = 0, nextIndex = [], matchIndex = [], electionTimer = None,
      wal = w, snapshotPath = storageDir @ ''/snapshot.json'', disk = fs, kv = [], dedupTable = [],
      snapshotBuf = [], currentConfig = Some (ConfigFromPeers ps [] nid), pendingConfig = False,
      configChangeIndex = 0, peerHTTPAddrs = [], proposalTime = [], isJoining = False,
      readSafety = ''safe'', lastHeartbeatQuorum = None, lastLeaderHeartbeat = None,
      preVoteVotesReceived = [], snapshotThreshold = threshold, partition = None,
      networkDelay = 0, env = en, outbox = []\<rparr>"

definition NewRaft ::
  "environment \<Rightarrow> string option \<Rightarrow> filesystem \<Rightarrow> string \<Rightarrow> strmap \<Rightarrow> string \<Rightarrow> int \<Rightarrow> raft result" where
  "NewRaft en openErr fs nid ps storageDir threshold =
     (case openErr of
        Some e \<Rightarrow> Inl e
      | None \<Rightarrow>
          (case loadState (freshRaft en fs nid ps storageDir threshold
                             (OpenWAL (map_of fs (storageDir @ ''/wal.log'')))) of
             Inl e \<Rightarrow> Inl (''failed to load persistent state: '' @ e)
           | Inr r \<Rightarrow> Inr r))"

section \<open>A concrete node\<close>

text \<open>A concrete node: a follower of term 1 with two entries and nothing committed.\<close>

definition demo_env :: environment where
  "demo_env = \<lparr>marshal = demo_marshal, unmarshal = demo_unmarshal, walOutcomes = [], resetOutcomes = [],
     saveOutcomes = [], credsErr = None, dialErr = (\<lambda>_. None), clock = 0\<rparr>"

definition demo_node :: raft where
  "demo_node = (freshRaft demo_env [] ''n1'' [(''n2'', ''h:2''), (''n3'', ''h:3'')] ''d'' 0 (OpenWAL None))
     \<lparr>currentTerm := 1, log := [\<lparr>Index = 1, Term = 1, Command = []\<rparr>, \<lparr>Index = 2, Term = 1, Command = []\<rparr>]\<rparr>"

end
