(* ===== verification/Consensus.thy ===== *)
theory Consensus
  imports Apply
begin

text \<open>
  The consensus handlers of a node (\<^verbatim>\<open>src/raft/raft.go\<close>): elections with the pre-vote phase,
  log replication, snapshot transfer, client commands and membership changes, and the
  dispatch of \<^verbatim>\<open>run\<close>. A handler runs under \<^verbatim>\<open>r.mu\<close> from start to end, so it is one
  function on the node; a handler of a request also returns the response.
\<close>

section \<open>Elections\<close>

text \<open>The loop of \<^verbatim>\<open>transitionToLeader\<close> that initialises the replication state of every peer.\<close>

definition setAll :: "'v \<Rightarrow> string list \<Rightarrow> (string, 'v) gomap \<Rightarrow> (string, 'v) gomap" where
  "setAll v ids m = foldl (\<lambda>m i. AList.update i v m) m ids"

definition initPeers :: "raft \<Rightarrow> raft" where
  [node_defs]:
  "initPeers r =
     (let lastIdx = lastLogIndex r; ids = map fst (effectivePeers r)
      in r\<lparr>nextIndex := setAll (lastIdx + 1) ids (nextIndex r), matchIndex := setAll 0 ids (matchIndex r)\<rparr>)"

definition transitionToLeader :: "raft \<Rightarrow> raft" where
  "transitionToLeader r =
     (if state r \<noteq> Candidate then r
      else
        let r1 = emit [SetGauge ''raft_role'' 2] (r\<lparr>state := Leader\<rparr>);
            r2 = (case electionTimer r1 of Some t \<Rightarrow> r1\<lparr>electionTimer := Some False\<rparr> | None \<Rightarrow> r1);
            r3 = fst (connectToPeersLocked r2);
            r4 = initPeers r3;
            r5 = (case EncodeNoopEntry of
                    Inl e \<Rightarrow> r4
                  | Inr noopData \<Rightarrow>
                      fst (appendLog \<lparr>Index = lastLogIndex r4 + 1, Term = currentTerm r4, Command = noopData\<rparr> r4))
        in emit [GoHeartbeatTicker] (broadcastHeartbeats r5))"

definition startElection :: "raft \<Rightarrow> raft" where
  "startElection r =
     (let allPeers = effectivePeers r
      in if allPeers = [] then transitionToLeader r
         else emit (map (\<lambda>p. GoSendRequestVote (fst p) (currentTerm r) (lastLogIndex r) (lastLogTerm r)) allPeers) r)"

definition transitionToCandidate :: "raft \<Rightarrow> raft" where
  "transitionToCandidate r =
     (let r1 = resetElectionTimer
                 (r\<lparr>state := Candidate, currentTerm := currentTerm r + 1, votedFor := raft_id r\<rparr>);
          r2 = r1\<lparr>votesReceived := AList.update (raft_id r1) True []\<rparr>;
          r3 = emit [SetGauge ''raft_role'' 1, SetGauge ''raft_current_term'' (currentTerm r2),
                     IncCounter ''raft_leader_elections_total''] r2
      in startElection (fst (walState r3)))"

definition startPreVote :: "raft \<Rightarrow> raft" where
  "startPreVote r =
     (let r1 = (resetElectionTimer r)\<lparr>preVoteVotesReceived := AList.update (raft_id r) True []\<rparr>;
          targetTerm = currentTerm r1 + 1;
          allPeers = effectivePeers r1
      in if allPeers = [] then transitionToCandidate r1
         else emit (map (\<lambda>p. GoSendPreVote (fst p) targetTerm (lastLogIndex r1) (lastLogTerm r1)) allPeers) r1)"

definition logUpToDate :: "RequestVoteRequest \<Rightarrow> raft \<Rightarrow> bool" where
  "logUpToDate req r \<longleftrightarrow>
     LastLogTerm req > lastLogTerm r \<or>
     (LastLogTerm req = lastLogTerm r \<and> LastLogIndex req \<ge> lastLogIndex r)"

definition leaderLease :: "raft \<Rightarrow> bool" where
  "leaderLease r \<longleftrightarrow> state r = Follower \<and>
     (case lastLeaderHeartbeat r of None \<Rightarrow> False | Some t \<Rightarrow> clock (env r) - t < 300)"

definition processPreVote :: "RequestVoteRequest \<Rightarrow> raft \<Rightarrow> RequestVoteResponse" where
  "processPreVote req r =
     (if rvTerm req \<le> currentTerm r then \<lparr>rvrTerm = currentTerm r, VoteGranted = False\<rparr>
      else if currentConfig r \<noteq> None \<and> \<not> ContainsNode (currentConfig r) (CandidateId req)
      then \<lparr>rvrTerm = currentTerm r, VoteGranted = False\<rparr>
      else if leaderLease r then \<lparr>rvrTerm = currentTerm r, VoteGranted = False\<rparr>
      else if logUpToDate req r then \<lparr>rvrTerm = rvTerm req, VoteGranted = True\<rparr>
      else \<lparr>rvrTerm = currentTerm r, VoteGranted = False\<rparr>)"

text \<open>
  The majority test that votes and pre-votes use: the configuration's if there is one, a
  simple majority of the peers and the node itself otherwise.
\<close>

definition voteMajority :: "(string, bool) gomap \<Rightarrow> raft \<Rightarrow> bool" where
  "voteMajority votes r =
     (case currentConfig r of
        Some c \<Rightarrow> HasMajority (Some c) (raft_id r) votes
      | None \<Rightarrow> length votes \<ge> (length (peers r) + 1) div 2 + 1)"

definition processPreVoteResponse :: "string \<Rightarrow> RequestVoteResponse \<Rightarrow> raft \<Rightarrow> raft" where
  "processPreVoteResponse peerID resp r =
     (if (state r = Follower \<or> state r = Candidate) \<and> VoteGranted resp
      then let r1 = r\<lparr>preVoteVotesReceived := AList.update peerID True (preVoteVotesReceived r)\<rparr>
           in if voteMajority (preVoteVotesReceived r1) r1 then transitionToCandidate r1 else r1
      else r)"

definition processRequestVote :: "RequestVoteRequest \<Rightarrow> raft \<Rightarrow> raft \<times> RequestVoteResponse" where
  "processRequestVote req r =
     (if rvTerm req < currentTerm r then (r, \<lparr>rvrTerm = currentTerm r, VoteGranted = False\<rparr>)
      else if currentConfig r \<noteq> None \<and> \<not> ContainsNode (currentConfig r) (CandidateId req)
      then (r, \<lparr>rvrTerm = currentTerm r, VoteGranted = False\<rparr>)
      else
        let r1 = (if rvTerm req > currentTerm r then transitionToFollower (rvTerm req) r else r)
        in if (votedFor r1 = [] \<or> votedFor r1 = CandidateId req) \<and> logUpToDate req r1
           then let r2 = fst (walState (resetElectionTimer (r1\<lparr>votedFor := CandidateId req\<rparr>)))
                in (r2, \<lparr>rvrTerm = currentTerm r2, VoteGranted = True\<rparr>)
           else (r1, \<lparr>rvrTerm = currentTerm r1, VoteGranted = False\<rparr>))"

definition processRequestVoteResponse :: "string \<Rightarrow> RequestVoteResponse \<Rightarrow> raft \<Rightarrow> raft" where
  "processRequestVoteResponse peerID resp r =
     (if rvrTerm resp > currentTerm r then transitionToFollower (rvrTerm resp) r
      else if state r = Candidate \<and> rvrTerm resp = currentTerm r \<and> VoteGranted resp
      then let r1 = r\<lparr>votesReceived := AList.update peerID True (votesReceived r)\<rparr>
           in if voteMajority (votesReceived r1) r1 then transitionToLeader r1 else r1
      else r)"

section \<open>Log replication\<close>

definition appendOne :: "raft \<Rightarrow> LogEntry \<Rightarrow> raft" where
  "appendOne r entry =
     (if Index entry \<le> lastIncludedIndex r then r
      else if Index entry \<le> lastLogIndex r
      then (case getEntry r (Index entry) of
              None \<Rightarrow> r
            | Some existing \<Rightarrow>
                if Term existing \<noteq> Term entry
                then let r1 = r\<lparr>log := take (nat (Index entry - lastIncludedIndex r - 1)) (log r)\<rparr>;
                         r2 = fst (walTruncate (Index entry) r1)
                     in fst (appendLog entry r2)
                else r)
      else fst (appendLog entry r))"

definition stepDownFor :: "int \<Rightarrow> raft \<Rightarrow> raft" where
  "stepDownFor t r =
     (let r1 = (if t > currentTerm r then transitionToFollower t r else r)
      in if state r1 = Candidate then transitionToFollower t r1 else r1)"

definition followLeader :: "int \<Rightarrow> string \<Rightarrow> raft \<Rightarrow> raft" where
  "followLeader t leaderId r = resetElectionTimer ((stepDownFor t r)\<lparr>votedFor := leaderId\<rparr>)"

definition advanceCommit :: "int \<Rightarrow> raft \<Rightarrow> raft" where
  "advanceCommit leaderCommit r =
     (if leaderCommit > commitIndex r
      then applyLogs (r\<lparr>commitIndex :=
             (if leaderCommit > lastLogIndex r then lastLogIndex r else leaderCommit)\<rparr>)
      else r)"

definition processAppendEntries :: "AppendEntriesRequest \<Rightarrow> raft \<Rightarrow> raft \<times> AppendEntriesResponse" where
  "processAppendEntries req r =
     (if aeTerm req < currentTerm r
      then (r, \<lparr>aerTerm = currentTerm r, Success = False, MatchIndex = 0\<rparr>)
      else
        let r1 = followLeader (aeTerm req) (aeLeaderId req) r
        in if PrevLogIndex req > lastLogIndex r1
           then (r1, \<lparr>aerTerm = currentTerm r1, Success = False, MatchIndex = lastLogIndex r1\<rparr>)
           else if PrevLogIndex req \<ge> lastIncludedIndex r1 \<and>
                   getEntryTerm r1 (PrevLogIndex req) \<noteq> PrevLogTerm req
           then (r1, \<lparr>aerTerm = currentTerm r1, Success = False, MatchIndex = PrevLogIndex req - 1\<rparr>)
           else
             let r2 = foldl appendOne r1 (Entries req);
                 r3 = advanceCommit (LeaderCommit req) r2
             in (r3, \<lparr>aerTerm = currentTerm r3, Success = True, MatchIndex = lastLogIndex r3\<rparr>))"

definition addVoter :: "int \<Rightarrow> (string, bool) gomap \<Rightarrow> string \<times> int \<Rightarrow> (string, bool) gomap" where
  "addVoter n voters p = (if snd p \<ge> n then AList.update (fst p) True voters else voters)"

definition checkCommitMajority :: "raft \<Rightarrow> int \<Rightarrow> bool" where
  "checkCommitMajority r n =
     (case currentConfig r of
        Some c \<Rightarrow>
          HasMajority (Some c) (raft_id r)
            (foldl (addVoter n) (AList.update (raft_id r) True []) (matchIndex r))
      | None \<Rightarrow>
          1 + length (filter (\<lambda>p. snd p \<ge> n) (matchIndex r)) \<ge> (length (peers r) + 1) div 2 + 1)"

definition commitStep :: "raft \<Rightarrow> int \<Rightarrow> raft" where
  "commitStep r n =
     (if getEntryTerm r n = currentTerm r \<and> checkCommitMajority r n
      then applyLogs (r\<lparr>commitIndex := n\<rparr>) else r)"

definition observeLag :: "string \<Rightarrow> int \<Rightarrow> int \<Rightarrow> raft \<Rightarrow> raft" where
  "observeLag peerID oldMatch newMatch r =
     emit (concat (map (\<lambda>idx. case map_of (proposalTime r) idx of
                                Some t \<Rightarrow> [ObserveLag (clock (env r) - t) peerID]
                              | None \<Rightarrow> []) [oldMatch + 1..newMatch])) r"

definition trimProposalTime :: "raft \<Rightarrow> raft" where
  "trimProposalTime r =
     (if length (proposalTime r) > 1000
      then r\<lparr>proposalTime := filter (\<lambda>p. \<not> fst p < commitIndex r - 500) (proposalTime r)\<rparr> else r)"

definition processAppendEntriesResponse :: "string \<Rightarrow> AppendEntriesResponse \<Rightarrow> raft \<Rightarrow> raft" where
  "processAppendEntriesResponse peerID resp r =
     (if aerTerm resp > currentTerm r then transitionToFollower (aerTerm resp) r
      else if state r = Leader \<and> aerTerm resp = currentTerm r
      then (if Success resp
            then
              let oldMatch = get_int (matchIndex r) peerID;
                  r1 = r\<lparr>matchIndex := AList.update peerID (MatchIndex resp) (matchIndex r),
                        nextIndex := AList.update peerID (MatchIndex resp + 1) (nextIndex r)\<rparr>;
                  r2 = trimProposalTime (observeLag peerID oldMatch (MatchIndex resp) r1)
              in foldl commitStep r2 [commitIndex r2 + 1..lastLogIndex r2]
            else
              let n = MatchIndex resp + 1; n' = (if n < 1 then 1 else n)
              in emit [GoReplicateToPeer peerID] (r\<lparr>nextIndex := AList.update peerID n' (nextIndex r)\<rparr>))
      else r)"

text \<open>
  The locked part of \<^verbatim>\<open>replicateToPeer\<close>: the arguments of the call it makes next, if any. A
  nil entry would be marshalled as an empty message.
\<close>

definition entryOrEmpty :: "raft \<Rightarrow> int \<Rightarrow> LogEntry" where
  "entryOrEmpty r i = (case getEntry r i of Some e \<Rightarrow> e | None \<Rightarrow> \<lparr>Index = 0, Term = 0, Command = []\<rparr>)"

definition replicateToPeer :: "string \<Rightarrow> raft \<Rightarrow> raft \<times> AppendEntriesRequest option" where
  "replicateToPeer peerID r =
     (if state r \<noteq> Leader then (r, None)
      else
        let nextIdx = get_int (nextIndex r) peerID; lastIdx = lastLogIndex r
        in if nextIdx \<le> lastIncludedIndex r then (emit [GoSendSnapshotToPeer peerID] r, None)
           else (r, case sendAppendEntries r peerID (currentTerm r) (nextIdx - 1)
                           (getEntryTerm r (nextIdx - 1))
                           (if lastIdx \<ge> nextIdx then map (entryOrEmpty r) [nextIdx..lastIdx] else [])
                           (commitIndex r) of
                      Inl e \<Rightarrow> None | Inr req \<Rightarrow> Some req))"

section \<open>Snapshot transfer\<close>

text \<open>
  The loop of \<^verbatim>\<open>sendSnapshotToPeer\<close> cuts the data into chunks of 64 KiB, each with its offset
  and the flag of the last one. \<open>rest\<close> is what is left from \<open>offset\<close> on.
\<close>

definition chunkSize :: nat where
  "chunkSize = 64 * 1024"

function chunksFrom :: "int \<Rightarrow> bytes \<Rightarrow> (int \<times> bytes \<times> bool) list" where
  "chunksFrom offset rest =
     (if chunkSize \<ge> length rest then [(offset, rest, True)]
      else (offset, take chunkSize rest, False)
             # chunksFrom (offset + int chunkSize) (drop chunkSize rest))"
  by pat_completeness auto
termination
  by (relation "measure (\<lambda>(offset, rest). length rest)") (auto simp: chunkSize_def)

declare chunksFrom.simps [simp del]

text \<open>
  The calls of one transfer, given the response to each: it ends at the first failed call,
  at a response with a higher term, or after the last chunk. The second component is the
  response that is then handed to \<^verbatim>\<open>processInstallSnapshotResponse\<close>.
\<close>

fun sendChunks :: "int \<Rightarrow> ((int \<times> bytes \<times> bool) \<Rightarrow> InstallSnapshotResponse result) \<Rightarrow>
    (int \<times> bytes \<times> bool) list \<Rightarrow> (int \<times> bytes \<times> bool) list \<times> InstallSnapshotResponse option" where
  "sendChunks t call [] = ([], None)"
| "sendChunks t call (c # cs) =
     (case call c of
        Inl e \<Rightarrow> ([c], None)
      | Inr resp \<Rightarrow>
          if isrTerm resp > t then ([c], Some resp)
          else if snd (snd c) then ([c], Some resp)
          else (case sendChunks t call cs of (sent, res) \<Rightarrow> (c # sent, res)))"

definition snapshotToSend :: "raft \<Rightarrow> bytes option" where
  "snapshotToSend r =
     (if state r \<noteq> Leader then None
      else (case LoadSnapshot (disk r) (snapshotPath r) of
              Inl e \<Rightarrow> None
            | Inr None \<Rightarrow> None
            | Inr (Some snap) \<Rightarrow> Some (MarshalSnapshot snap)))"

definition chunkRequest :: "raft \<Rightarrow> string \<Rightarrow> int \<times> bytes \<times> bool \<Rightarrow> InstallSnapshotRequest result" where
  "chunkRequest r peerID c =
     sendInstallSnapshot r peerID (currentTerm r) (lastIncludedIndex r) (lastIncludedTerm r)
       (fst c) (fst (snd c)) (snd (snd c))"

definition sendSnapshotToPeer ::
  "string \<Rightarrow> (InstallSnapshotRequest \<Rightarrow> InstallSnapshotResponse result) \<Rightarrow> raft \<Rightarrow> InstallSnapshotResponse option" where
  "sendSnapshotToPeer peerID net r =
     (case snapshotToSend r of
        None \<Rightarrow> None
      | Some snapData \<Rightarrow>
          snd (sendChunks (currentTerm r)
                 (\<lambda>c. case chunkRequest r peerID c of Inl e \<Rightarrow> Inl e | Inr req \<Rightarrow> net req)
                 (chunksFrom 0 snapData)))"

definition bufferChunk :: "int \<Rightarrow> bytes \<Rightarrow> bytes \<Rightarrow> bytes" where
  "bufferChunk offset data buf =
     (let buf' = (if offset = 0 then [] else buf)
      in if offset = int (length buf') then buf' @ data else buf')"

definition processInstallSnapshot :: "InstallSnapshotRequest \<Rightarrow> raft \<Rightarrow> raft \<times> InstallSnapshotResponse" where
  "processInstallSnapshot req r =
     (if isTerm req < currentTerm r then (r, \<lparr>isrTerm = currentTerm r\<rparr>)
      else
        let r1 = followLeader (isTerm req) (isLeaderId req) r;
            r2 = r1\<lparr>snapshotBuf := bufferChunk (Offset req) (Data req) (snapshotBuf r1)\<rparr>;
            r3 = (if Done req
                  then (case UnmarshalSnapshot (snapshotBuf r2) of
                          Some snap \<Rightarrow> restoreSnapshot snap r2
                        | None \<Rightarrow> r2)\<lparr>snapshotBuf := []\<rparr>
                  else r2)
        in (r3, \<lparr>isrTerm = currentTerm r3\<rparr>))"

definition processInstallSnapshotResponse :: "string \<Rightarrow> InstallSnapshotResponse \<Rightarrow> raft \<Rightarrow> raft" where
  "processInstallSnapshotResponse peerID resp r =
     (if isrTerm resp > currentTerm r then transitionToFollower (isrTerm resp) r
      else if state r = Leader \<and> isrTerm resp = currentTerm r
      then emit [GoReplicateToPeer peerID]
             (r\<lparr>matchIndex := AList.update peerID (lastIncludedIndex r) (matchIndex r),
               nextIndex := AList.update peerID (lastIncludedIndex r + 1) (nextIndex r)\<rparr>)
      else r)"

section \<open>Client requests\<close>

definition stampProposal :: "int \<Rightarrow> raft \<Rightarrow> raft" where
  [node_defs]:
  "stampProposal idx r =
     r\<lparr>proposalTime := AList.update idx (clock (env r)) (proposalTime r)\<rparr>"

definition addProposal :: "LogEntry \<Rightarrow> nat \<Rightarrow> raft \<Rightarrow> raft" where
  [node_defs]:
  "addProposal entry ch r =
     r\<lparr>proposals := proposals r @ [\<lparr>prIndex = Index entry, prTerm = Term entry, respCh = ch\<rparr>]\<rparr>"

definition handleClientCommand :: "bytes \<Rightarrow> nat \<Rightarrow> raft \<Rightarrow> raft" where
  "handleClientCommand cmd ch r =
     (if state r \<noteq> Leader then respond ch False (Some ''not the leader'') r
      else
        let entry = \<lparr>Index = lastLogIndex r + 1, Term = currentTerm r, Command = cmd\<rparr>
        in (case appendLog entry r of
              (r1, Some e) \<Rightarrow> respond ch False (Some e) r1
            | (r1, None) \<Rightarrow>
                let r2 = stampProposal (Index entry) (emit [IncCounter ''raft_log_entries_total''] r1);
                    r3 = broadcastHeartbeats (addProposal entry ch r2)
                in if effectivePeers r3 = [] \<and> checkCommitMajority r3 (Index entry)
                   then applyLogs (r3\<lparr>commitIndex := Index entry\<rparr>)
                   else r3))"

definition handleConfigChange :: "ConfigChangeRequest \<Rightarrow> nat \<Rightarrow> raft \<Rightarrow> raft" where
  "handleConfigChange req ch r =
     (if state r \<noteq> Leader then respond ch False (Some ''not the leader'') r
      else if pendingConfig r then respond ch False (Some ''config change already in flight'') r
      else if currentConfig r = None
      then respond ch False (Some ''cluster configuration not initialized'') r
      else (case BuildJointConfig (currentConfig r) (raft_id r) req of
              Inl e \<Rightarrow> respond ch False (Some e) r
            | Inr jointConfig \<Rightarrow>
                (case EncodeConfigChangeEntry (Some jointConfig) of
                   Inl e \<Rightarrow> respond ch False (Some (''failed to encode config change: '' @ e)) r
                 | Inr configData \<Rightarrow>
                     let entry = \<lparr>Index = lastLogIndex r + 1, Term = currentTerm r, Command = configData\<rparr>
                     in (case appendLog entry r of
                           (r1, Some e) \<Rightarrow> respond ch False (Some e) r1
                         | (r1, None) \<Rightarrow>
                             let r2 = (stampProposal (Index entry) r1)
                                        \<lparr>pendingConfig := True, configChangeIndex := Index entry\<rparr>;
                                 r3 = connectToNewPeers (applyConfigEntry jointConfig r2)
                             in broadcastHeartbeats (addProposal entry ch r3)))))"

text \<open>\<^verbatim>\<open>ProposeWithClient\<close> up to the channel: what a client request puts on \<^verbatim>\<open>cmdCh\<close>.\<close>

definition ProposeWithClient :: "string \<Rightarrow> string \<Rightarrow> string \<Rightarrow> string \<Rightarrow> int \<Rightarrow> bytes result" where
  "ProposeWithClient op key val clientID requestID =
     EncodeCommandEntry (MarshalCommand
       \<lparr>Op = op, Key = key, Val = val, ClientID = clientID, RequestID = requestID\<rparr>)"

definition Propose :: "string \<Rightarrow> string \<Rightarrow> string \<Rightarrow> bytes result" where
  "Propose op key val = ProposeWithClient op key val [] 0"

section \<open>The event loop\<close>

datatype rpcReq =
    preVoteReqMsg RequestVoteRequest
  | requestVoteMsg RequestVoteRequest
  | appendEntriesMsg AppendEntriesRequest
  | installSnapshotMsg InstallSnapshotRequest
  | preVoteRespMsg string RequestVoteResponse
  | voteRespMsg string RequestVoteResponse
  | appendRespMsg string AppendEntriesResponse
  | snapshotRespMsg string InstallSnapshotResponse

datatype rpcResp =
    VoteResp RequestVoteResponse
  | AppendResp AppendEntriesResponse
  | SnapshotResp InstallSnapshotResponse

fun handleRPC :: "rpcReq \<Rightarrow> raft \<Rightarrow> raft \<times> rpcResp option" where
  "handleRPC (preVoteReqMsg m) r = (r, Some (VoteResp (processPreVote m r)))"
| "handleRPC (requestVoteMsg m) r =
     (fst (processRequestVote m r), Some (VoteResp (snd (processRequestVote m r))))"
| "handleRPC (appendEntriesMsg m) r =
     (fst (processAppendEntries m r), Some (AppendResp (snd (processAppendEntries m r))))"
| "handleRPC (installSnapshotMsg m) r =
     (fst (processInstallSnapshot m r), Some (SnapshotResp (snd (processInstallSnapshot m r))))"
| "handleRPC (preVoteRespMsg p m) r = (processPreVoteResponse p m r, None)"
| "handleRPC (voteRespMsg p m) r = (processRequestVoteResponse p m r, None)"
| "handleRPC (appendRespMsg p m) r = (processAppendEntriesResponse p m r, None)"
| "handleRPC (snapshotRespMsg p m) r = (processInstallSnapshotResponse p m r, None)"

text \<open>
  One case of the \<^verbatim>\<open>select\<close> of \<^verbatim>\<open>run\<close>. The timer has stopped when its case is taken.
\<close>

definition electionTimerFired :: "raft \<Rightarrow> raft" where
  "electionTimerFired r0 =
     (let r = r0\<lparr>electionTimer := Some False\<rparr>
      in if (state r = Follower \<or> state r = Candidate) \<and> \<not> isJoining r then startPreVote r
         else if isJoining r then resetElectionTimer r
         else r)"

text \<open>One tick of the goroutine that a new leader starts.\<close>

definition heartbeatTick :: "raft \<Rightarrow> raft" where
  "heartbeatTick r = (if state r = Leader then broadcastHeartbeats r else r)"

datatype event =
    Timer
  | Heartbeat
  | Rpc rpcReq
  | ClientCmd bytes nat
  | ConfigChange ConfigChangeRequest nat
  | Replicate string

fun handleEvent :: "event \<Rightarrow> raft \<Rightarrow> raft" where
  "handleEvent Timer r = electionTimerFired r"
| "handleEvent Heartbeat r = heartbeatTick r"
| "handleEvent (Rpc m) r = fst (handleRPC m r)"
| "handleEvent (ClientCmd cmd ch) r = handleClientCommand cmd ch r"
| "handleEvent (ConfigChange req ch) r = handleConfigChange req ch r"
| "handleEvent (Replicate p) r = fst (replicateToPeer p r)"

definition startRun :: "raft \<Rightarrow> raft" where
  "startRun r = r\<lparr>electionTimer := Some True\<rparr>"

end
