(* ===== verification/LogInv.thy ===== *)
theory LogInv
  imports Consensus
begin

text \<open>
  The log of a node: index translation over a contiguous log, the index invariant
  \<open>0 \<le> lastIncludedIndex \<le> lastApplied \<le> commitIndex \<le> lastLogIndex\<close> and its preservation by
  every handler, and the effect of \<^verbatim>\<open>AppendEntries\<close> as a merge of two logs.
\<close>

section \<open>Contiguous logs\<close>

definition contiguous :: "int \<Rightarrow> LogEntry list \<Rightarrow> bool" where
  "contiguous base es \<longleftrightarrow> (\<forall>i < length es. Index (es ! i) = base + 1 + int i)"

definition wf_log :: "raft \<Rightarrow> bool" where
  "wf_log r \<longleftrightarrow> contiguous (lastIncludedIndex r) (log r)"

definition node_inv :: "raft \<Rightarrow> bool" where
  "node_inv r \<longleftrightarrow> wf_log r \<and> 0 \<le> lastIncludedIndex r \<and> lastIncludedIndex r \<le> lastApplied r \<and>
     lastApplied r \<le> commitIndex r \<and> commitIndex r \<le> lastLogIndex r"

lemma contiguous_Nil [simp]: "contiguous b []"
  by (simp add: contiguous_def)

lemma contiguous_snoc [simp]:
  "contiguous b (es @ [e]) \<longleftrightarrow> contiguous b es \<and> Index e = b + 1 + int (length es)"
  by (auto simp: contiguous_def nth_append less_Suc_eq)

lemma contiguous_Cons [simp]:
  "contiguous b (e # es) \<longleftrightarrow> Index e = b + 1 \<and> contiguous (b + 1) es"
  by (fastforce simp: contiguous_def nth_Cons split: nat.splits)

lemma contiguous_append:
  "contiguous b (xs @ ys) \<longleftrightarrow> contiguous b xs \<and> contiguous (b + int (length xs)) ys"
  by (induction xs arbitrary: b) (auto simp: algebra_simps)

lemma contiguous_take: "contiguous b es \<Longrightarrow> contiguous b (take n es)"
  by (simp add: contiguous_def)

lemma contiguous_drop: "contiguous b es \<Longrightarrow> n \<le> length es \<Longrightarrow> contiguous (b + int n) (drop n es)"
  by (simp add: contiguous_def)

lemma contiguous_last: "contiguous b es \<Longrightarrow> es \<noteq> [] \<Longrightarrow> Index (last es) = b + int (length es)"
  by (cases es rule: rev_cases) auto

lemma lastLogIndex_eq: "wf_log r \<Longrightarrow> lastLogIndex r = lastIncludedIndex r + int (length (log r))"
  by (simp add: lastLogIndex_def wf_log_def contiguous_last)

lemma getEntry_log:
  "lastIncludedIndex r < idx \<Longrightarrow> idx \<le> lastIncludedIndex r + int (length (log r)) \<Longrightarrow>
   getEntry r idx = Some (log r ! nat (idx - lastIncludedIndex r - 1))"
  by (auto simp: getEntry_def Let_def)

lemma getEntry_beyond: "lastIncludedIndex r + int (length (log r)) < idx \<Longrightarrow> getEntry r idx = None"
  by (auto simp: getEntry_def Let_def)

lemma getEntry_nth: "i < length (log r) \<Longrightarrow> getEntry r (lastIncludedIndex r + 1 + int i) = Some (log r ! i)"
  by (simp add: getEntry_def Let_def)

lemma map_filter_Some: "(\<And>x. x \<in> set xs \<Longrightarrow> f x = Some (g x)) \<Longrightarrow> List.map_filter f xs = map g xs"
  by (induction xs) (auto simp: List.map_filter_def)

lemma entriesFromTo_drop:
  assumes "wf_log r" "lastIncludedIndex r \<le> a" "a \<le> lastLogIndex r"
  shows "entriesFromTo r (a + 1) (lastLogIndex r) = drop (nat (a - lastIncludedIndex r)) (log r)"
proof -
  let ?d = "nat (a - lastIncludedIndex r)" and ?l = "lastIncludedIndex r"
  have b: "lastLogIndex r = ?l + int (length (log r))" using assms(1) by (rule lastLogIndex_eq)
  have "entriesFromTo r (a + 1) (lastLogIndex r) = map (\<lambda>i. log r ! nat (i - ?l - 1)) [a + 1..lastLogIndex r]"
    unfolding entriesFromTo_def using assms b
    by (intro map_filter_Some) (simp add: getEntry_log)
  also have "\<dots> = drop ?d (log r)"
    using assms b
    by (intro nth_equalityI)
      (auto simp: nth_upto algebra_simps intro!: arg_cong [where f = "(!) (log r)"])
  finally show ?thesis .
qed

section \<open>What applying entries leaves alone\<close>

lemma proposeSecondPhase_frame [simp]:
  "raft_id (proposeSecondPhaseConfig c r) = raft_id r"
  "currentTerm (proposeSecondPhaseConfig c r) = currentTerm r"
  "lastIncludedIndex (proposeSecondPhaseConfig c r) = lastIncludedIndex r"
  "lastIncludedTerm (proposeSecondPhaseConfig c r) = lastIncludedTerm r"
  "snapshotThreshold (proposeSecondPhaseConfig c r) = snapshotThreshold r"
  "disk (proposeSecondPhaseConfig c r) = disk r"
  "snapshotPath (proposeSecondPhaseConfig c r) = snapshotPath r"
  "votesReceived (proposeSecondPhaseConfig c r) = votesReceived r"
  "snapshotBuf (proposeSecondPhaseConfig c r) = snapshotBuf r"
  "state (proposeSecondPhaseConfig c r) = state r"
  "votedFor (proposeSecondPhaseConfig c r) = votedFor r"
  "electionTimer (proposeSecondPhaseConfig c r) = electionTimer r"
  "proposals (proposeSecondPhaseConfig c r) = proposals r"
  "lastApplied (proposeSecondPhaseConfig c r) = lastApplied r"
  "commitIndex (proposeSecondPhaseConfig c r) = commitIndex r"
  by (simp_all add: proposeSecondPhaseConfig_def EncodeConfigChangeEntry_def node_defs Let_def
      split: option.split)

lemma applyFinalConfig_frame [simp]:
  "raft_id (applyFinalConfig c r) = raft_id r"
  "currentTerm (applyFinalConfig c r) = currentTerm r"
  "lastIncludedIndex (applyFinalConfig c r) = lastIncludedIndex r"
  "lastIncludedTerm (applyFinalConfig c r) = lastIncludedTerm r"
  "snapshotThreshold (applyFinalConfig c r) = snapshotThreshold r"
  "disk (applyFinalConfig c r) = disk r" "snapshotPath (applyFinalConfig c r) = snapshotPath r"
  "votesReceived (applyFinalConfig c r) = votesReceived r"
  "snapshotBuf (applyFinalConfig c r) = snapshotBuf r" "log (applyFinalConfig c r) = log r"
  "wal (applyFinalConfig c r) = wal r" "env (applyFinalConfig c r) = env r"
  "lastApplied (applyFinalConfig c r) = lastApplied r"
  "commitIndex (applyFinalConfig c r) = commitIndex r"
  by (simp_all add: applyFinalConfig_def node_defs Let_def)

lemma applyFinalConfig_follower [simp]:
  "state r \<noteq> Leader \<Longrightarrow> state (applyFinalConfig c r) = state r \<and> votedFor (applyFinalConfig c r) = votedFor r \<and>
     electionTimer (applyFinalConfig c r) = electionTimer r \<and> proposals (applyFinalConfig c r) = proposals r"
  by (simp add: applyFinalConfig_def node_defs Let_def)

lemma applyJointConfig_frame [simp]:
  "raft_id (applyJointConfig c r) = raft_id r"
  "currentTerm (applyJointConfig c r) = currentTerm r"
  "lastIncludedIndex (applyJointConfig c r) = lastIncludedIndex r"
  "lastIncludedTerm (applyJointConfig c r) = lastIncludedTerm r"
  "snapshotThreshold (applyJointConfig c r) = snapshotThreshold r"
  "disk (applyJointConfig c r) = disk r" "snapshotPath (applyJointConfig c r) = snapshotPath r"
  "votesReceived (applyJointConfig c r) = votesReceived r"
  "snapshotBuf (applyJointConfig c r) = snapshotBuf r" "state (applyJointConfig c r) = state r"
  "votedFor (applyJointConfig c r) = votedFor r"
  "electionTimer (applyJointConfig c r) = electionTimer r"
  "proposals (applyJointConfig c r) = proposals r"
  "lastApplied (applyJointConfig c r) = lastApplied r"
  "commitIndex (applyJointConfig c r) = commitIndex r"
  by (simp_all add: applyJointConfig_def applyConfigEntry_def)

lemma applyJointConfig_follower [simp]:
  "state r \<noteq> Leader \<Longrightarrow> log (applyJointConfig c r) = log r \<and> wal (applyJointConfig c r) = wal r \<and>
     env (applyJointConfig c r) = env r"
  by (simp add: applyJointConfig_def applyConfigEntry_def)

lemma applyCommand_frame [simp]:
  "raft_id (applyCommand d r) = raft_id r" "currentTerm (applyCommand d r) = currentTerm r"
  "lastIncludedIndex (applyCommand d r) = lastIncludedIndex r"
  "lastIncludedTerm (applyCommand d r) = lastIncludedTerm r"
  "snapshotThreshold (applyCommand d r) = snapshotThreshold r" "disk (applyCommand d r) = disk r"
  "snapshotPath (applyCommand d r) = snapshotPath r"
  "votesReceived (applyCommand d r) = votesReceived r"
  "snapshotBuf (applyCommand d r) = snapshotBuf r" "state (applyCommand d r) = state r"
  "log (applyCommand d r) = log r" "wal (applyCommand d r) = wal r"
  "env (applyCommand d r) = env r" "votedFor (applyCommand d r) = votedFor r"
  "electionTimer (applyCommand d r) = electionTimer r"
  "proposals (applyCommand d r) = proposals r" "lastApplied (applyCommand d r) = lastApplied r"
  "commitIndex (applyCommand d r) = commitIndex r"
  by (simp_all add: applyCommand_def split: option.split prod.split)

lemma applyEnvelope_frame [simp]:
  "raft_id (applyEnvelope v r) = raft_id r" "currentTerm (applyEnvelope v r) = currentTerm r"
  "lastIncludedIndex (applyEnvelope v r) = lastIncludedIndex r"
  "lastIncludedTerm (applyEnvelope v r) = lastIncludedTerm r"
  "snapshotThreshold (applyEnvelope v r) = snapshotThreshold r"
  "disk (applyEnvelope v r) = disk r" "snapshotPath (applyEnvelope v r) = snapshotPath r"
  "votesReceived (applyEnvelope v r) = votesReceived r"
  "snapshotBuf (applyEnvelope v r) = snapshotBuf r"
  "lastApplied (applyEnvelope v r) = lastApplied r"
  "commitIndex (applyEnvelope v r) = commitIndex r"
  by (simp_all add: applyEnvelope_def split: option.split)

lemma applyEnvelope_follower [simp]:
  "state r \<noteq> Leader \<Longrightarrow> state (applyEnvelope v r) = state r \<and> log (applyEnvelope v r) = log r \<and>
     wal (applyEnvelope v r) = wal r \<and> env (applyEnvelope v r) = env r \<and>
     votedFor (applyEnvelope v r) = votedFor r \<and> electionTimer (applyEnvelope v r) = electionTimer r \<and>
     proposals (applyEnvelope v r) = proposals r"
  by (simp add: applyEnvelope_def split: option.split)

lemma applyNext_cases:
  "applyNext r = beginApply r \<or> (\<exists>v. applyNext r = applyEnvelope v (beginApply r))"
  by (auto simp: applyNext_def Let_def split: option.split sum.split)

lemma beginApply_frame [simp]:
  "raft_id (beginApply r) = raft_id r" "currentTerm (beginApply r) = currentTerm r"
  "lastIncludedIndex (beginApply r) = lastIncludedIndex r"
  "lastIncludedTerm (beginApply r) = lastIncludedTerm r"
  "snapshotThreshold (beginApply r) = snapshotThreshold r" "disk (beginApply r) = disk r"
  "snapshotPath (beginApply r) = snapshotPath r" "votesReceived (beginApply r) = votesReceived r"
  "snapshotBuf (beginApply r) = snapshotBuf r" "state (beginApply r) = state r"
  "log (beginApply r) = log r" "wal (beginApply r) = wal r" "env (beginApply r) = env r"
  "votedFor (beginApply r) = votedFor r" "electionTimer (beginApply r) = electionTimer r"
  "proposals (beginApply r) = proposals r" "commitIndex (beginApply r) = commitIndex r"
  "lastLogIndex (beginApply r) = lastLogIndex r"
  by (simp_all add: node_defs lastLogIndex_def)

lemma applyNext_frame [simp]:
  "raft_id (applyNext r) = raft_id r" "currentTerm (applyNext r) = currentTerm r"
  "lastIncludedIndex (applyNext r) = lastIncludedIndex r"
  "lastIncludedTerm (applyNext r) = lastIncludedTerm r"
  "snapshotThreshold (applyNext r) = snapshotThreshold r" "disk (applyNext r) = disk r"
  "snapshotPath (applyNext r) = snapshotPath r" "votesReceived (applyNext r) = votesReceived r"
  "snapshotBuf (applyNext r) = snapshotBuf r"
  by (rule disjE [OF applyNext_cases [of r]]; force)+

lemma applyNext_follower:
  assumes "state r \<noteq> Leader"
  shows "state (applyNext r) = state r" "log (applyNext r) = log r" "wal (applyNext r) = wal r"
    "env (applyNext r) = env r" "votedFor (applyNext r) = votedFor r"
    "electionTimer (applyNext r) = electionTimer r" "proposals (applyNext r) = proposals r"
  by (rule disjE [OF applyNext_cases [of r]]; use assms in force)+

text \<open>
  How one round can change the log and the role: it appends at most one entry, with the next
  index and the current term, and it gives up leadership only when the configuration it
  applies does not contain the node.
\<close>

definition grows_by_one :: "raft \<Rightarrow> raft \<Rightarrow> bool" where
  "grows_by_one r r' \<longleftrightarrow> log r' = log r \<or>
     (\<exists>d. log r' = log r @ [\<lparr>Index = lastLogIndex r + 1, Term = currentTerm r, Command = d\<rparr>])"

definition role_kept :: "raft \<Rightarrow> raft \<Rightarrow> bool" where
  "role_kept r r' \<longleftrightarrow> state r' = state r \<and> votedFor r' = votedFor r \<or>
     state r = Leader \<and> state r' = Follower \<and> votedFor r' = [] \<and>
     \<not> ContainsNode (currentConfig r') (raft_id r)"

lemma proposeSecondPhase_log: "grows_by_one r (proposeSecondPhaseConfig c r)"
  by (simp add: grows_by_one_def proposeSecondPhaseConfig_def EncodeConfigChangeEntry_def node_defs Let_def
      split: option.split)

lemma applyEnvelope_log: "grows_by_one r (applyEnvelope v r)"
proof -
  have "log (applyFinalConfig c r) = log r" for c
    by (simp add: applyFinalConfig_def node_defs Let_def)
  moreover have "grows_by_one r (applyJointConfig c r)" for c
    using proposeSecondPhase_log [of r c]
    by (auto simp: grows_by_one_def applyJointConfig_def applyConfigEntry_def)
  ultimately show ?thesis
    by (auto simp: applyEnvelope_def applyCommand_def grows_by_one_def split: option.split prod.split)
qed

lemma applyEnvelope_role: "role_kept r (applyEnvelope v r)"
proof -
  have "role_kept r (applyFinalConfig c r)" for c
    by (simp add: role_kept_def applyFinalConfig_def node_defs Let_def)
  moreover have "role_kept r (applyJointConfig c r)" for c
    by (simp add: role_kept_def applyJointConfig_def applyConfigEntry_def)
  ultimately show ?thesis
    by (auto simp: applyEnvelope_def applyCommand_def role_kept_def split: option.split prod.split)
qed

lemma lastLogIndex_cong:
  "log r' = log r \<Longrightarrow> lastIncludedIndex r' = lastIncludedIndex r \<Longrightarrow> lastLogIndex r' = lastLogIndex r"
  by (simp add: lastLogIndex_def)

lemma applyNext_log: "grows_by_one r (applyNext r)"
proof -
  have "grows_by_one r (applyEnvelope v (beginApply r))" for v
    using applyEnvelope_log [of "beginApply r" v] by (simp add: grows_by_one_def)
  moreover have "grows_by_one r (beginApply r)"
    by (simp add: grows_by_one_def)
  ultimately show ?thesis using applyNext_cases [of r] by metis
qed

lemma applyNext_role: "role_kept r (applyNext r)"
proof -
  have "role_kept r (applyEnvelope v (beginApply r))" for v
    using applyEnvelope_role [of "beginApply r" v] by (simp add: role_kept_def)
  moreover have "role_kept r (beginApply r)"
    by (simp add: role_kept_def)
  ultimately show ?thesis using applyNext_cases [of r] by metis
qed

lemma applyLoop_induct [consumes 1, case_names step]:
  assumes "P r" and "\<And>r. P r \<Longrightarrow> lastApplied r < commitIndex r \<Longrightarrow> P (applyNext r)"
  shows "P (applyLoop r)"
  using assms(1)
proof (induction r rule: applyLoop.induct)
  case (1 r)
  then show ?case
    using assms(2) by (subst applyLoop.simps) auto
qed

lemma applyLoop_keep:
  assumes "\<And>r. f (applyNext r) = f r"
  shows "f (applyLoop r) = f r"
  by (rule applyLoop_induct [where P = "\<lambda>r'. f r' = f r"]) (simp_all add: assms)

lemma applyLoop_frame [simp]:
  "raft_id (applyLoop r) = raft_id r" "currentTerm (applyLoop r) = currentTerm r"
  "lastIncludedIndex (applyLoop r) = lastIncludedIndex r"
  "lastIncludedTerm (applyLoop r) = lastIncludedTerm r"
  "snapshotThreshold (applyLoop r) = snapshotThreshold r"
  "disk (applyLoop r) = disk r" "snapshotPath (applyLoop r) = snapshotPath r"
  "votesReceived (applyLoop r) = votesReceived r" "snapshotBuf (applyLoop r) = snapshotBuf r"
  "commitIndex (applyLoop r) = commitIndex r"
  by (rule applyLoop_keep, simp)+

lemma applyLoop_lastApplied [simp]: "lastApplied (applyLoop r) = max (lastApplied r) (commitIndex r)"
proof (induction r rule: applyLoop.induct)
  case (1 r)
  then show ?case by (subst applyLoop.simps) auto
qed

lemma applyLoop_follower:
  assumes "state r \<noteq> Leader"
  shows "state (applyLoop r) = state r" "log (applyLoop r) = log r" "wal (applyLoop r) = wal r"
    "env (applyLoop r) = env r" "votedFor (applyLoop r) = votedFor r"
    "electionTimer (applyLoop r) = electionTimer r" "proposals (applyLoop r) = proposals r"
proof -
  let ?P = "\<lambda>s. state s = state r \<and> log s = log r \<and> wal s = wal r \<and> env s = env r \<and>
    votedFor s = votedFor r \<and> electionTimer s = electionTimer r \<and> proposals s = proposals r"
  have "?P (applyLoop r)"
    by (rule applyLoop_induct) (use assms in \<open>auto simp: applyNext_follower\<close>)
  then show "state (applyLoop r) = state r" "log (applyLoop r) = log r" "wal (applyLoop r) = wal r"
    "env (applyLoop r) = env r" "votedFor (applyLoop r) = votedFor r"
    "electionTimer (applyLoop r) = electionTimer r" "proposals (applyLoop r) = proposals r"
    by simp_all
qed

lemma wf_log_snoc:
  "wf_log r \<Longrightarrow> lastIncludedIndex r' = lastIncludedIndex r \<Longrightarrow>
   log r' = log r @ [e] \<Longrightarrow> Index e = lastLogIndex r + 1 \<Longrightarrow> wf_log r'"
  by (simp add: wf_log_def lastLogIndex_eq)

lemma applyNext_wf: "wf_log r \<Longrightarrow> wf_log (applyNext r)"
  using applyNext_log [of r] by (auto simp: grows_by_one_def wf_log_def lastLogIndex_eq)

lemma applyNext_last: "wf_log r \<Longrightarrow> lastLogIndex r \<le> lastLogIndex (applyNext r)"
  using applyNext_log [of r] by (auto simp: grows_by_one_def lastLogIndex_eq applyNext_wf)

lemma applyLoop_wf: "wf_log r \<Longrightarrow> wf_log (applyLoop r) \<and> lastLogIndex r \<le> lastLogIndex (applyLoop r)"
proof -
  assume wf: "wf_log r"
  show ?thesis
    by (rule applyLoop_induct [where P = "\<lambda>s. wf_log s \<and> lastLogIndex r \<le> lastLogIndex s"])
      (use wf applyNext_wf applyNext_last in \<open>auto intro: order_trans\<close>)
qed

section \<open>Compaction\<close>

text \<open>
  \<open>r'\<close> holds the log of \<open>r\<close> with \<open>k\<close> entries dropped from the front and remembers the index
  and the term of the last of them. Everything from that index on reads the same.
\<close>

definition compacted :: "raft \<Rightarrow> raft \<Rightarrow> bool" where
  "compacted r r' \<longleftrightarrow> (\<exists>k \<le> length (log r). log r' = drop k (log r) \<and>
     lastIncludedIndex r' = lastIncludedIndex r + int k \<and>
     lastIncludedTerm r' = getEntryTerm r (lastIncludedIndex r + int k))"

lemma compacted_refl: "log r' = log r \<Longrightarrow> lastIncludedIndex r' = lastIncludedIndex r \<Longrightarrow>
  lastIncludedTerm r' = lastIncludedTerm r \<Longrightarrow> compacted r r'"
  unfolding compacted_def by (rule exI [of _ 0]) (simp add: getEntryTerm_def getEntry_def)

lemma compacted_wf: "compacted r r' \<Longrightarrow> wf_log r \<Longrightarrow> wf_log r' \<and> lastLogIndex r' = lastLogIndex r"
  by (auto simp: compacted_def wf_log_def contiguous_drop lastLogIndex_eq)

lemma compacted_getEntry:
  assumes "compacted r r'" "lastIncludedIndex r' < idx"
  shows "getEntry r' idx = getEntry r idx"
proof -
  from assms(1) obtain k where k: "k \<le> length (log r)" "log r' = drop k (log r)"
    "lastIncludedIndex r' = lastIncludedIndex r + int k" by (auto simp: compacted_def)
  let ?i = "nat (idx - lastIncludedIndex r' - 1)"
  have i: "idx - lastIncludedIndex r - 1 = int (k + ?i)" "idx - lastIncludedIndex r' - 1 = int ?i"
    using assms(2) k(3) by auto
  have "getEntry r' idx = (if ?i < length (log r') then Some (log r' ! ?i) else None)"
    using assms(2) by (auto simp: getEntry_def Let_def)
  also have "\<dots> = (if k + ?i < length (log r) then Some (log r ! (k + ?i)) else None)"
    using k(1,2) by auto
  also have "\<dots> = getEntry r idx"
  proof -
    have "idx \<noteq> lastIncludedIndex r" "\<not> idx < lastIncludedIndex r" using assms(2) k(3) by auto
    then show ?thesis unfolding getEntry_def i(1) Let_def by (simp add: nat_add_distrib) arith
  qed
  finally show ?thesis .
qed

lemma compacted_getEntryTerm:
  assumes "compacted r r'" "lastIncludedIndex r' \<le> idx"
  shows "getEntryTerm r' idx = getEntryTerm r idx"
proof (cases "idx = lastIncludedIndex r'")
  case True
  with assms(1) show ?thesis by (auto simp: compacted_def getEntryTerm_def getEntry_def)
next
  case False
  with assms show ?thesis by (simp add: getEntryTerm_def compacted_getEntry)
qed

lemma getEntry_cong:
  "log r' = log r \<Longrightarrow> lastIncludedIndex r' = lastIncludedIndex r \<Longrightarrow>
   lastIncludedTerm r' = lastIncludedTerm r \<Longrightarrow> getEntry r' = getEntry r"
  by (rule ext) (simp add: getEntry_def Let_def)

lemma getEntry_update [simp]:
  "getEntry (r\<lparr>disk := d\<rparr>) = getEntry r" "getEntry (r\<lparr>env := e\<rparr>) = getEntry r"
  "getEntry (r\<lparr>wal := w\<rparr>) = getEntry r" "getEntry (r\<lparr>commitIndex := i\<rparr>) = getEntry r"
  "getEntry (r\<lparr>kv := m\<rparr>) = getEntry r" "getEntry (r\<lparr>dedupTable := dt\<rparr>) = getEntry r"
  "getEntry (r\<lparr>outbox := ob\<rparr>) = getEntry r" "getEntry (r\<lparr>proposals := ps\<rparr>) = getEntry r"
  by (rule getEntry_cong; simp)+

lemma lastLogIndex_update [simp]:
  "lastLogIndex (r\<lparr>disk := d\<rparr>) = lastLogIndex r" "lastLogIndex (r\<lparr>env := e\<rparr>) = lastLogIndex r"
  "lastLogIndex (r\<lparr>wal := w\<rparr>) = lastLogIndex r" "lastLogIndex (r\<lparr>commitIndex := i\<rparr>) = lastLogIndex r"
  "lastLogIndex (r\<lparr>kv := m\<rparr>) = lastLogIndex r" "lastLogIndex (r\<lparr>dedupTable := dt\<rparr>) = lastLogIndex r"
  "lastLogIndex (r\<lparr>outbox := ob\<rparr>) = lastLogIndex r" "lastLogIndex (r\<lparr>proposals := ps\<rparr>) = lastLogIndex r"
  by (simp_all add: lastLogIndex_def)

lemma takeSnapshot_frame [simp]:
  "commitIndex (takeSnapshot r) = commitIndex r" "lastApplied (takeSnapshot r) = lastApplied r"
  "raft_id (takeSnapshot r) = raft_id r" "currentTerm (takeSnapshot r) = currentTerm r"
  "state (takeSnapshot r) = state r" "votedFor (takeSnapshot r) = votedFor r"
  "electionTimer (takeSnapshot r) = electionTimer r" "proposals (takeSnapshot r) = proposals r"
  "votesReceived (takeSnapshot r) = votesReceived r" "currentConfig (takeSnapshot r) = currentConfig r"
  "snapshotPath (takeSnapshot r) = snapshotPath r" "kv (takeSnapshot r) = kv r"
  "dedupTable (takeSnapshot r) = dedupTable r" "snapshotBuf (takeSnapshot r) = snapshotBuf r"
  "outbox (takeSnapshot r) = outbox r" "snapshotThreshold (takeSnapshot r) = snapshotThreshold r"
  "isJoining (takeSnapshot r) = isJoining r" "matchIndex (takeSnapshot r) = matchIndex r"
  by (simp_all add: takeSnapshot_def node_defs Let_def split: option.split)

lemma takeSnapshot_log:
  "log (takeSnapshot r) = log r \<and> lastIncludedIndex (takeSnapshot r) = lastIncludedIndex r \<and>
     lastIncludedTerm (takeSnapshot r) = lastIncludedTerm r \<or>
   log (takeSnapshot r) = entriesFromTo r (commitIndex r + 1) (lastLogIndex r) \<and>
     lastIncludedIndex (takeSnapshot r) = commitIndex r \<and>
     lastIncludedTerm (takeSnapshot r) = getEntryTerm r (commitIndex r)"
  by (simp add: takeSnapshot_def node_defs Let_def entriesFromTo_def split: option.split)
    (simp add: snapshotOf_def)

lemma takeSnapshot_compacted:
  assumes "wf_log r" "lastIncludedIndex r \<le> commitIndex r" "commitIndex r \<le> lastLogIndex r"
  shows "compacted r (takeSnapshot r)"
proof (cases "log (takeSnapshot r) = log r \<and> lastIncludedIndex (takeSnapshot r) = lastIncludedIndex r \<and>
     lastIncludedTerm (takeSnapshot r) = lastIncludedTerm r")
  case True
  then show ?thesis by (simp add: compacted_refl)
next
  case False
  let ?k = "nat (commitIndex r - lastIncludedIndex r)"
  have "log (takeSnapshot r) = drop ?k (log r)"
    "lastIncludedIndex (takeSnapshot r) = lastIncludedIndex r + int ?k"
    "lastIncludedTerm (takeSnapshot r) = getEntryTerm r (lastIncludedIndex r + int ?k)"
    using takeSnapshot_log [of r] False entriesFromTo_drop [OF assms] assms(2) by auto
  moreover have "?k \<le> length (log r)"
    using assms lastLogIndex_eq [OF assms(1)] by simp
  ultimately show ?thesis
    unfolding compacted_def by blast
qed

lemma compact_frame [simp]:
  "commitIndex (compact r) = commitIndex r" "lastApplied (compact r) = lastApplied r"
  "raft_id (compact r) = raft_id r" "currentTerm (compact r) = currentTerm r"
  "state (compact r) = state r" "votedFor (compact r) = votedFor r"
  "electionTimer (compact r) = electionTimer r" "proposals (compact r) = proposals r"
  "votesReceived (compact r) = votesReceived r" "currentConfig (compact r) = currentConfig r"
  "kv (compact r) = kv r" "dedupTable (compact r) = dedupTable r" "snapshotBuf (compact r) = snapshotBuf r"
  "outbox (compact r) = outbox r" "isJoining (compact r) = isJoining r" "matchIndex (compact r) = matchIndex r"
  by (simp_all add: compact_def)

lemma compact_compacted:
  "wf_log r \<Longrightarrow> lastIncludedIndex r \<le> commitIndex r \<Longrightarrow> commitIndex r \<le> lastLogIndex r \<Longrightarrow>
   compacted r (compact r)"
  by (simp add: compact_def takeSnapshot_compacted compacted_refl)

lemma compact_last: "lastIncludedIndex (compact r) = lastIncludedIndex r \<or>
  lastIncludedIndex (compact r) = commitIndex r"
  using takeSnapshot_log [of r] by (auto simp: compact_def)

lemma completeProposals_frame [simp]:
  "commitIndex (completeProposals r) = commitIndex r" "lastApplied (completeProposals r) = lastApplied r"
  "log (completeProposals r) = log r" "lastIncludedIndex (completeProposals r) = lastIncludedIndex r"
  "lastIncludedTerm (completeProposals r) = lastIncludedTerm r"
  "raft_id (completeProposals r) = raft_id r" "currentTerm (completeProposals r) = currentTerm r"
  "state (completeProposals r) = state r" "votedFor (completeProposals r) = votedFor r"
  "electionTimer (completeProposals r) = electionTimer r" "wal (completeProposals r) = wal r"
  "env (completeProposals r) = env r" "disk (completeProposals r) = disk r"
  "votesReceived (completeProposals r) = votesReceived r" "currentConfig (completeProposals r) = currentConfig r"
  "kv (completeProposals r) = kv r" "dedupTable (completeProposals r) = dedupTable r"
  "snapshotBuf (completeProposals r) = snapshotBuf r" "isJoining (completeProposals r) = isJoining r"
  "matchIndex (completeProposals r) = matchIndex r"
  by (simp_all add: completeProposals_def emit_def)

lemma applyLogs_frame [simp]:
  "raft_id (applyLogs r) = raft_id r" "currentTerm (applyLogs r) = currentTerm r"
  "commitIndex (applyLogs r) = commitIndex r"
  "lastApplied (applyLogs r) = max (lastApplied r) (commitIndex r)"
  "votesReceived (applyLogs r) = votesReceived r" "snapshotBuf (applyLogs r) = snapshotBuf r"
  by (simp_all add: applyLogs_def)

lemma applyLogs_inv:
  assumes "wf_log r" "0 \<le> lastIncludedIndex r" "lastIncludedIndex r \<le> lastApplied r"
    "lastApplied r \<le> commitIndex r" "commitIndex r \<le> lastLogIndex r"
  shows "node_inv (applyLogs r)" "lastLogIndex r \<le> lastLogIndex (applyLogs r)"
    "lastIncludedIndex r \<le> lastIncludedIndex (applyLogs r)"
proof -
  let ?s = "applyLoop r"
  have wf: "wf_log ?s" "lastLogIndex r \<le> lastLogIndex ?s"
    using applyLoop_wf [OF assms(1)] by auto
  then have c: "compacted ?s (compact ?s)"
    using assms by (intro compact_compacted) auto
  have l: "lastLogIndex (applyLogs r) = lastLogIndex ?s" "wf_log (applyLogs r)"
    using compacted_wf [OF c wf(1)] lastLogIndex_cong [of "applyLogs r" "compact ?s"]
    by (simp_all add: applyLogs_def wf_log_def)
  then show "lastLogIndex r \<le> lastLogIndex (applyLogs r)" using wf(2) by simp
  have i: "lastIncludedIndex (applyLogs r) = lastIncludedIndex r \<or>
      lastIncludedIndex (applyLogs r) = commitIndex r"
    using compact_last [of ?s] by (simp add: applyLogs_def)
  then show "lastIncludedIndex r \<le> lastIncludedIndex (applyLogs r)" using assms by auto
  show "node_inv (applyLogs r)"
    unfolding node_inv_def using i l wf(2) assms by auto
qed

section \<open>Appending the entries of a leader\<close>

text \<open>
  The rule of the protocol for the entries that follow a matching one: keep what agrees in
  its term, and from the first conflict on take what the leader sent.
\<close>

fun mergeEntries :: "LogEntry list \<Rightarrow> LogEntry list \<Rightarrow> LogEntry list" where
  "mergeEntries [] es = es"
| "mergeEntries ls [] = ls"
| "mergeEntries (l # ls) (e # es) = (if Term l = Term e then l # mergeEntries ls es else e # es)"

lemma mergeEntries_Nil2 [simp]: "mergeEntries ls [] = ls"
  by (cases ls) auto

lemma appendOne_frame [simp]:
  "commitIndex (appendOne r e) = commitIndex r" "lastApplied (appendOne r e) = lastApplied r"
  "raft_id (appendOne r e) = raft_id r" "currentTerm (appendOne r e) = currentTerm r"
  "state (appendOne r e) = state r" "votedFor (appendOne r e) = votedFor r"
  "electionTimer (appendOne r e) = electionTimer r" "proposals (appendOne r e) = proposals r"
  "votesReceived (appendOne r e) = votesReceived r" "currentConfig (appendOne r e) = currentConfig r"
  "lastIncludedIndex (appendOne r e) = lastIncludedIndex r"
  "lastIncludedTerm (appendOne r e) = lastIncludedTerm r" "disk (appendOne r e) = disk r"
  "kv (appendOne r e) = kv r" "outbox (appendOne r e) = outbox r"
  "snapshotThreshold (appendOne r e) = snapshotThreshold r"
  by (simp_all add: appendOne_def node_defs Let_def split: option.split)

lemma appendOne_skip: "Index e \<le> lastIncludedIndex r \<Longrightarrow> appendOne r e = r"
  by (simp add: appendOne_def)

lemma appendOne_log:
  assumes "wf_log r" "p \<le> length (log r)" "Index e = lastIncludedIndex r + 1 + int p"
  shows "log (appendOne r e) = take p (log r) @ mergeEntries (drop p (log r)) [e]"
proof (cases "p < length (log r)")
  case True
  have g: "getEntry r (Index e) = Some (log r ! p)"
    unfolding assms(3) using True by (rule getEntry_nth)
  have d: "drop p (log r) = log r ! p # drop (Suc p) (log r)"
    using True by (rule Cons_nth_drop_Suc [symmetric])
  have "Index e \<le> lastLogIndex r" "\<not> Index e \<le> lastIncludedIndex r"
    "nat (Index e - lastIncludedIndex r - 1) = p"
    using True assms by (simp_all add: lastLogIndex_eq)
  then show ?thesis
    using id_take_nth_drop [OF True] by (simp add: appendOne_def g d node_defs Let_def)
next
  case False
  then show ?thesis
    using assms by (simp add: appendOne_def lastLogIndex_eq node_defs)
qed

lemma wf_log_appendOne:
  assumes "wf_log r" "p \<le> length (log r)" "Index e = lastIncludedIndex r + 1 + int p"
  shows "wf_log (appendOne r e)" "p < length (log (appendOne r e))"
    "log (appendOne r e) ! p = (if p < length (log r) \<and> Term (log r ! p) = Term e then log r ! p else e)"
    "take p (log (appendOne r e)) = take p (log r)"
proof -
  have d: "p < length (log r) \<Longrightarrow> drop p (log r) = log r ! p # drop (Suc p) (log r)"
    by (rule Cons_nth_drop_Suc [symmetric])
  have wf: "contiguous (lastIncludedIndex r) (log r)" using assms(1) by (simp add: wf_log_def)
  show "wf_log (appendOne r e)"
  proof (cases "p < length (log r) \<and> Term (log r ! p) = Term e")
    case True
    then have "log (appendOne r e) = log r"
      using appendOne_log [OF assms] d id_take_nth_drop [of p "log r"] by simp
    with wf show ?thesis by (simp add: wf_log_def)
  next
    case False
    then have "log (appendOne r e) = take p (log r) @ [e]"
      using appendOne_log [OF assms] d by (cases "p < length (log r)") auto
    with wf assms(2,3) show ?thesis by (simp add: wf_log_def contiguous_take)
  qed
  show "p < length (log (appendOne r e))" "take p (log (appendOne r e)) = take p (log r)"
    "log (appendOne r e) ! p = (if p < length (log r) \<and> Term (log r ! p) = Term e then log r ! p else e)"
    using appendOne_log [OF assms] d assms(2) by (cases "p < length (log r)"; simp add: nth_append)+
qed

lemma drop_appendOne:
  assumes "wf_log r" "p \<le> length (log r)" "Index e = lastIncludedIndex r + 1 + int p"
  shows "drop p (log r) = [] \<Longrightarrow> drop p (log (appendOne r e)) = [e]"
    "drop p (log r) = l # ls \<Longrightarrow>
     drop p (log (appendOne r e)) = (if Term l = Term e then l # ls else [e])"
  using appendOne_log [OF assms] assms(2) by auto

lemma foldl_appendOne_log:
  assumes "wf_log r" "p \<le> length (log r)" "contiguous (lastIncludedIndex r + int p) es"
  shows "log (foldl appendOne r es) = take p (log r) @ mergeEntries (drop p (log r)) es \<and>
    wf_log (foldl appendOne r es)"
  using assms
proof (induction es arbitrary: r p)
  case (Cons e es)
  let ?s = "appendOne r e"
  have e: "Index e = lastIncludedIndex r + 1 + int p" and
    c: "contiguous (lastIncludedIndex ?s + int (Suc p)) es"
    using Cons.prems(3) by (simp_all add: algebra_simps)
  note s = wf_log_appendOne [OF Cons.prems(1,2) e]
  have IH: "log (foldl appendOne ?s es) = take (Suc p) (log ?s) @ mergeEntries (drop (Suc p) (log ?s)) es"
    "wf_log (foldl appendOne ?s es)"
    using Cons.IH [OF s(1) _ c] s(2) by auto
  have "take (Suc p) (log ?s) = take p (log r) @ [log ?s ! p]"
    using s(2,4) by (simp add: take_Suc_conv_app_nth)
  moreover have "[log ?s ! p] @ mergeEntries (drop (Suc p) (log ?s)) es = mergeEntries (drop p (log r)) (e # es)"
  proof (cases "drop p (log r)")
    case Nil
    then have "drop p (log ?s) = [e]" by (rule drop_appendOne(1) [OF Cons.prems(1,2) e])
    then show ?thesis using Nil s(2) Cons_nth_drop_Suc [of p "log ?s"] by auto
  next
    case (Cons l ls)
    then have "drop p (log ?s) = (if Term l = Term e then l # ls else [e])"
      by (rule drop_appendOne(2) [OF \<open>wf_log r\<close> \<open>p \<le> length (log r)\<close> e])
    then show ?thesis using Cons s(2) Cons_nth_drop_Suc [of p "log ?s"] by (auto split: if_splits)
  qed
  ultimately show ?case using IH by simp
qed simp

text \<open>The general case: entries up to \<open>lastIncludedIndex\<close> are skipped.\<close>

lemma foldl_appendOne_skip:
  "contiguous b es \<Longrightarrow> b \<le> lastIncludedIndex r \<Longrightarrow>
   foldl appendOne r es = foldl appendOne r (drop (nat (lastIncludedIndex r - b)) es)"
proof (induction es arbitrary: b)
  case (Cons e es)
  show ?case
  proof (cases "b = lastIncludedIndex r")
    case False
    then have "nat (lastIncludedIndex r - b) = Suc (nat (lastIncludedIndex r - (b + 1)))"
      using Cons.prems(2) by simp
    moreover have "appendOne r e = r"
      using Cons.prems False by (intro appendOne_skip) simp
    ultimately show ?thesis
      using Cons.IH [of "b + 1"] Cons.prems False by simp
  qed simp
qed simp

lemma foldl_appendOne_frame [simp]:
  "commitIndex (foldl appendOne r es) = commitIndex r" "lastApplied (foldl appendOne r es) = lastApplied r"
  "raft_id (foldl appendOne r es) = raft_id r" "currentTerm (foldl appendOne r es) = currentTerm r"
  "state (foldl appendOne r es) = state r" "votedFor (foldl appendOne r es) = votedFor r"
  "electionTimer (foldl appendOne r es) = electionTimer r" "proposals (foldl appendOne r es) = proposals r"
  "votesReceived (foldl appendOne r es) = votesReceived r" "currentConfig (foldl appendOne r es) = currentConfig r"
  "lastIncludedIndex (foldl appendOne r es) = lastIncludedIndex r"
  "lastIncludedTerm (foldl appendOne r es) = lastIncludedTerm r"
  "snapshotThreshold (foldl appendOne r es) = snapshotThreshold r"
  by (induction es arbitrary: r) simp_all

end
