(* ===== verification/NodeInv.thy ===== *)
theory NodeInv
  imports LogInv
begin

text \<open>
  Invariants of a single node under every handler: the index invariant, monotonicity of the
  term and of the commit point, an election timer that runs whenever the node is not leader,
  and the effect of \<^verbatim>\<open>AppendEntries\<close> and of commit decisions.
\<close>

section \<open>Extending the log\<close>

text \<open>
  \<open>r'\<close> has the log of \<open>r\<close>, possibly with further entries of its own term at the end, and the
  same commit and apply positions.
\<close>

definition extends :: "raft \<Rightarrow> raft \<Rightarrow> bool" where
  "extends r r' \<longleftrightarrow> lastIncludedIndex r' = lastIncludedIndex r \<and> lastIncludedTerm r' = lastIncludedTerm r \<and>
     commitIndex r' = commitIndex r \<and> lastApplied r' = lastApplied r \<and>
     (\<exists>es. log r' = log r @ es \<and> contiguous (lastLogIndex r) es \<and> (\<forall>e \<in> set es. Term e = currentTerm r'))"

lemma extends_same:
  "lastIncludedIndex r' = lastIncludedIndex r \<Longrightarrow> lastIncludedTerm r' = lastIncludedTerm r \<Longrightarrow>
   commitIndex r' = commitIndex r \<Longrightarrow> lastApplied r' = lastApplied r \<Longrightarrow> log r' = log r \<Longrightarrow> extends r r'"
  by (simp add: extends_def)

lemma extends_one:
  "lastIncludedIndex r' = lastIncludedIndex r \<Longrightarrow> lastIncludedTerm r' = lastIncludedTerm r \<Longrightarrow>
   commitIndex r' = commitIndex r \<Longrightarrow> lastApplied r' = lastApplied r \<Longrightarrow>
   log r' = log r @ [\<lparr>Index = lastLogIndex r + 1, Term = currentTerm r', Command = d\<rparr>] \<Longrightarrow> extends r r'"
  by (simp add: extends_def)

lemma extends_inv: "extends r r' \<Longrightarrow> node_inv r \<Longrightarrow> node_inv r'"
  by (auto simp: extends_def node_inv_def wf_log_def lastLogIndex_eq contiguous_append)

lemma extends_trans:
  assumes "extends r r'" "extends r' r''" "currentTerm r'' = currentTerm r' \<or> log r' = log r" "wf_log r"
  shows "extends r r''"
proof -
  from assms(1) obtain es where es: "log r' = log r @ es" "contiguous (lastLogIndex r) es"
    "\<forall>e \<in> set es. Term e = currentTerm r'" by (auto simp: extends_def)
  from assms(2) obtain fs where fs: "log r'' = log r' @ fs" "contiguous (lastLogIndex r') fs"
    "\<forall>e \<in> set fs. Term e = currentTerm r''" by (auto simp: extends_def)
  have "lastLogIndex r' = lastLogIndex r + int (length es)"
    using assms(1,4) es by (auto simp: extends_def wf_log_def contiguous_append lastLogIndex_eq)
  then have "contiguous (lastLogIndex r) (es @ fs)" using es(2) fs(2) by (simp add: contiguous_append)
  moreover have "\<forall>e \<in> set (es @ fs). Term e = currentTerm r''"
    using es fs(3) assms(3) by auto
  ultimately show ?thesis
    using assms(1,2) es(1) fs(1) by (auto simp: extends_def)
qed

section \<open>Elections\<close>

lemma transitionToLeader_extends: "extends r (transitionToLeader r)"
proof (cases "state r = Candidate")
  case True
  then show ?thesis
    by (intro extends_one [where d = "case EncodeNoopEntry of Inr d \<Rightarrow> d | Inl e \<Rightarrow> []"])
      (simp_all add: transitionToLeader_def EncodeNoopEntry_def node_defs Let_def lastLogIndex_def
        split: option.split)
qed (simp add: transitionToLeader_def extends_same)

lemma transitionToLeader_frame [simp]:
  "raft_id (transitionToLeader r) = raft_id r" "currentTerm (transitionToLeader r) = currentTerm r"
  "votedFor (transitionToLeader r) = votedFor r" "votesReceived (transitionToLeader r) = votesReceived r"
  "currentConfig (transitionToLeader r) = currentConfig r" "proposals (transitionToLeader r) = proposals r"
  "kv (transitionToLeader r) = kv r" "isJoining (transitionToLeader r) = isJoining r"
  "dedupTable (transitionToLeader r) = dedupTable r" "disk (transitionToLeader r) = disk r"
  by (simp_all add: transitionToLeader_def EncodeNoopEntry_def node_defs Let_def split: option.split)

lemma transitionToLeader_state:
  "state (transitionToLeader r) = (if state r = Candidate then Leader else state r)"
  by (simp add: transitionToLeader_def EncodeNoopEntry_def node_defs Let_def split: option.split)

lemma startElection_frame [simp]:
  "raft_id (startElection r) = raft_id r" "currentTerm (startElection r) = currentTerm r"
  "votedFor (startElection r) = votedFor r" "votesReceived (startElection r) = votesReceived r"
  "currentConfig (startElection r) = currentConfig r" "isJoining (startElection r) = isJoining r"
  by (simp_all add: startElection_def emit_def Let_def)

lemma startElection_extends: "extends r (startElection r)"
  by (simp add: startElection_def Let_def transitionToLeader_extends emit_def extends_same)

lemma startElection_state:
  "state (startElection r) = (if effectivePeers r = [] \<and> state r = Candidate then Leader else state r)"
  by (simp add: startElection_def emit_def Let_def transitionToLeader_state)

text \<open>The node that \<^verbatim>\<open>transitionToCandidate\<close> hands to \<^verbatim>\<open>startElection\<close>.\<close>

definition asCandidate :: "raft \<Rightarrow> raft" where
  "asCandidate r = fst (walState (emit [SetGauge ''raft_role'' 1, SetGauge ''raft_current_term'' (currentTerm r + 1),
     IncCounter ''raft_leader_elections_total'']
     (r\<lparr>state := Candidate, currentTerm := currentTerm r + 1, votedFor := raft_id r,
       electionTimer := Some True, votesReceived := AList.update (raft_id r) True []\<rparr>)))"

lemma transitionToCandidate_eq: "transitionToCandidate r = startElection (asCandidate r)"
  by (simp add: transitionToCandidate_def asCandidate_def resetElectionTimer_def Let_def)

lemma asCandidate_frame [simp]:
  "raft_id (asCandidate r) = raft_id r" "currentTerm (asCandidate r) = currentTerm r + 1"
  "votedFor (asCandidate r) = raft_id r" "votesReceived (asCandidate r) = AList.update (raft_id r) True []"
  "currentConfig (asCandidate r) = currentConfig r" "state (asCandidate r) = Candidate"
  "log (asCandidate r) = log r" "lastIncludedIndex (asCandidate r) = lastIncludedIndex r"
  "lastIncludedTerm (asCandidate r) = lastIncludedTerm r" "commitIndex (asCandidate r) = commitIndex r"
  "lastApplied (asCandidate r) = lastApplied r" "electionTimer (asCandidate r) = Some True"
  "isJoining (asCandidate r) = isJoining r"
  by (simp_all add: asCandidate_def node_defs)

lemma transitionToCandidate_frame [simp]:
  "raft_id (transitionToCandidate r) = raft_id r" "currentTerm (transitionToCandidate r) = currentTerm r + 1"
  "votedFor (transitionToCandidate r) = raft_id r"
  "votesReceived (transitionToCandidate r) = AList.update (raft_id r) True []"
  "currentConfig (transitionToCandidate r) = currentConfig r" "isJoining (transitionToCandidate r) = isJoining r"
  by (simp_all add: transitionToCandidate_eq)

lemma extends_from:
  "extends s r' \<Longrightarrow> log s = log r \<Longrightarrow> lastIncludedIndex s = lastIncludedIndex r \<Longrightarrow>
   lastIncludedTerm s = lastIncludedTerm r \<Longrightarrow> commitIndex s = commitIndex r \<Longrightarrow>
   lastApplied s = lastApplied r \<Longrightarrow> extends r r'"
  using lastLogIndex_cong [of s r] by (simp add: extends_def)

lemma transitionToCandidate_extends: "extends r (transitionToCandidate r)"
  unfolding transitionToCandidate_eq by (rule extends_from [OF startElection_extends]) simp_all

lemma startPreVote_extends: "extends r (startPreVote r)"
  by (simp add: startPreVote_def Let_def node_defs extends_same
      extends_from [OF transitionToCandidate_extends])

lemma processPreVoteResponse_extends: "extends r (processPreVoteResponse p m r)"
  by (simp add: processPreVoteResponse_def Let_def extends_same
      extends_from [OF transitionToCandidate_extends])

lemma electionTimerFired_extends: "extends r (electionTimerFired r)"
  by (simp add: electionTimerFired_def Let_def node_defs extends_same
      extends_from [OF startPreVote_extends])

lemma transitionToFollower_frame [simp]:
  "raft_id (transitionToFollower t r) = raft_id r" "currentTerm (transitionToFollower t r) = t"
  "state (transitionToFollower t r) = Follower" "votedFor (transitionToFollower t r) = []"
  "log (transitionToFollower t r) = log r" "lastIncludedIndex (transitionToFollower t r) = lastIncludedIndex r"
  "lastIncludedTerm (transitionToFollower t r) = lastIncludedTerm r"
  "commitIndex (transitionToFollower t r) = commitIndex r" "lastApplied (transitionToFollower t r) = lastApplied r"
  "electionTimer (transitionToFollower t r) = Some True" "proposals (transitionToFollower t r) = []"
  "votesReceived (transitionToFollower t r) = votesReceived r"
  "currentConfig (transitionToFollower t r) = currentConfig r" "wal (transitionToFollower t r) = wal r"
  "env (transitionToFollower t r) = env r" "kv (transitionToFollower t r) = kv r"
  "snapshotThreshold (transitionToFollower t r) = snapshotThreshold r"
  "snapshotBuf (transitionToFollower t r) = snapshotBuf r" "disk (transitionToFollower t r) = disk r"
  "dedupTable (transitionToFollower t r) = dedupTable r" "matchIndex (transitionToFollower t r) = matchIndex r"
  by (simp_all add: node_defs Let_def)

lemma transitionToFollower_extends: "extends r (transitionToFollower t r)"
  by (simp add: extends_same)

lemma processRequestVoteResponse_extends: "extends r (processRequestVoteResponse p m r)"
  by (simp add: processRequestVoteResponse_def Let_def extends_same
      extends_from [OF transitionToLeader_extends])

lemma processRequestVote_extends: "extends r (fst (processRequestVote req r))"
  by (simp add: processRequestVote_def Let_def walState_def wroteWal_def resetElectionTimer_def extends_same)

section \<open>Replication\<close>

lemma followLeader_frame [simp]:
  "raft_id (followLeader t l r) = raft_id r" "log (followLeader t l r) = log r"
  "lastIncludedIndex (followLeader t l r) = lastIncludedIndex r"
  "lastIncludedTerm (followLeader t l r) = lastIncludedTerm r"
  "commitIndex (followLeader t l r) = commitIndex r" "lastApplied (followLeader t l r) = lastApplied r"
  "electionTimer (followLeader t l r) = Some True" "votedFor (followLeader t l r) = l"
  "currentConfig (followLeader t l r) = currentConfig r" "wal (followLeader t l r) = wal r"
  "env (followLeader t l r) = env r" "votesReceived (followLeader t l r) = votesReceived r"
  "kv (followLeader t l r) = kv r" "snapshotThreshold (followLeader t l r) = snapshotThreshold r"
  "snapshotBuf (followLeader t l r) = snapshotBuf r" "lastLogIndex (followLeader t l r) = lastLogIndex r"
  "disk (followLeader t l r) = disk r"
  "dedupTable (followLeader t l r) = dedupTable r"
  by (simp_all add: followLeader_def stepDownFor_def Let_def resetElectionTimer_def lastLogIndex_def)

lemma followLeader_getEntry [simp]: "getEntry (followLeader t l r) = getEntry r"
  by (rule getEntry_cong) simp_all

lemma followLeader_term [simp]:
  "currentTerm r \<le> t \<Longrightarrow> currentTerm (followLeader t l r) = t"
  by (simp add: followLeader_def stepDownFor_def Let_def resetElectionTimer_def)

lemma followLeader_state:
  "state (followLeader t l r) = (if currentTerm r < t \<or> state r = Candidate then Follower else state r)"
  by (simp add: followLeader_def stepDownFor_def Let_def resetElectionTimer_def)

lemma followLeader_inv [simp]: "node_inv (followLeader t l r) = node_inv r"
  by (simp add: node_inv_def wf_log_def)

text \<open>
  A request of a correct leader carries consecutive entries after \<^verbatim>\<open>PrevLogIndex\<close>, and it does
  not contradict what the receiver has committed.
\<close>

definition wf_append :: "AppendEntriesRequest \<Rightarrow> bool" where
  "wf_append req \<longleftrightarrow> contiguous (PrevLogIndex req) (Entries req)"

definition agrees_committed :: "AppendEntriesRequest \<Rightarrow> raft \<Rightarrow> bool" where
  "agrees_committed req r \<longleftrightarrow> (\<forall>e \<in> set (Entries req).
     lastIncludedIndex r < Index e \<and> Index e \<le> commitIndex r \<longrightarrow> getEntryTerm r (Index e) = Term e)"

text \<open>The number of entries that the receiver keeps unseen, and that it skips as compacted.\<close>

abbreviation (input) kept :: "AppendEntriesRequest \<Rightarrow> raft \<Rightarrow> nat" where
  "kept req r \<equiv> nat (PrevLogIndex req - lastIncludedIndex r)"

abbreviation (input) skipped :: "AppendEntriesRequest \<Rightarrow> raft \<Rightarrow> nat" where
  "skipped req r \<equiv> nat (lastIncludedIndex r - PrevLogIndex req)"

lemma appended_log:
  assumes "wf_log r" "wf_append req" "PrevLogIndex req \<le> lastLogIndex r"
  shows "log (foldl appendOne r (Entries req)) = take (kept req r) (log r) @
      mergeEntries (drop (kept req r) (log r)) (drop (skipped req r) (Entries req))"
    "wf_log (foldl appendOne r (Entries req))"
proof -
  let ?es = "drop (skipped req r) (Entries req)" and ?p = "kept req r"
  have p: "?p \<le> length (log r)" using assms(1,3) by (simp add: lastLogIndex_eq)
  have c: "contiguous (lastIncludedIndex r + int ?p) ?es"
  proof (cases "skipped req r \<le> length (Entries req)")
    case True
    from contiguous_drop [OF _ this] assms(2)
    have "contiguous (PrevLogIndex req + int (skipped req r)) ?es" by (simp add: wf_append_def)
    moreover have "PrevLogIndex req + int (skipped req r) = lastIncludedIndex r + int ?p" by simp
    ultimately show ?thesis by simp
  qed simp
  have "foldl appendOne r (Entries req) = foldl appendOne r ?es"
    using foldl_appendOne_skip [of "PrevLogIndex req" "Entries req" r] assms(2)
    by (cases "PrevLogIndex req \<le> lastIncludedIndex r") (auto simp: wf_append_def)
  with foldl_appendOne_log [OF assms(1) p c]
  show "log (foldl appendOne r (Entries req)) = take ?p (log r) @ mergeEntries (drop ?p (log r)) ?es"
    "wf_log (foldl appendOne r (Entries req))" by simp_all
qed

lemma mergeEntries_take:
  "(\<And>i. i < n \<Longrightarrow> i < length es \<Longrightarrow> Term (ls ! i) = Term (es ! i)) \<Longrightarrow> n \<le> length ls \<Longrightarrow>
   take n (mergeEntries ls es) = take n ls"
proof (induction ls es arbitrary: n rule: mergeEntries.induct)
  case (3 l ls e es)
  show ?case
  proof (cases n)
    case (Suc m)
    have "Term l = Term e" using "3.prems"(1) [of 0] Suc by simp
    moreover have "take m (mergeEntries ls es) = take m ls"
      using "3.prems"(1) [of "Suc i" for i] "3.prems"(2) Suc \<open>Term l = Term e\<close> by (intro "3.IH") auto
    ultimately show ?thesis using Suc by simp
  qed simp
qed simp_all

lemma take_splice:
  assumes "p \<le> length xs" "take (c - p) ys = take (c - p) (drop p xs)"
  shows "take c (take p xs @ ys) = take c xs"
proof -
  have "take c xs = take c (take p xs @ drop p xs)" by simp
  also have "\<dots> = take c (take p xs @ ys)"
    using assms by (simp only: take_append length_take min_absorb2)
  finally show ?thesis by simp
qed

lemma appended_committed:
  assumes "node_inv r" "wf_append req" "PrevLogIndex req \<le> lastLogIndex r" "agrees_committed req r"
  defines "c \<equiv> nat (commitIndex r - lastIncludedIndex r)"
  shows "take c (log (foldl appendOne r (Entries req))) = take c (log r)"
proof -
  let ?p = "kept req r" and ?k = "skipped req r"
  have wf: "wf_log r" and bounds: "lastIncludedIndex r \<le> commitIndex r" "commitIndex r \<le> lastLogIndex r"
    using assms(1) by (auto simp: node_inv_def)
  have "take (c - ?p) (mergeEntries (drop ?p (log r)) (drop ?k (Entries req))) = take (c - ?p) (drop ?p (log r))"
  proof (rule mergeEntries_take)
    show "c - ?p \<le> length (drop ?p (log r))"
      using bounds lastLogIndex_eq [OF wf] by (simp add: c_def)
    fix i assume i: "i < c - ?p" "i < length (drop ?k (Entries req))"
    let ?e = "Entries req ! (?k + i)"
    have "Index ?e = PrevLogIndex req + 1 + int (?k + i)"
      using assms(2) i(2) unfolding wf_append_def contiguous_def by simp
    then have idx: "Index ?e = lastIncludedIndex r + 1 + int (?p + i)" by simp
    have "?p + i < length (log r)"
      using i(1) bounds lastLogIndex_eq [OF wf] by (simp add: c_def)
    with getEntry_nth [of "?p + i" r] idx have "getEntryTerm r (Index ?e) = Term (log r ! (?p + i))"
      by (simp add: getEntryTerm_def)
    moreover have "int (?p + i) < int c" "int c = commitIndex r - lastIncludedIndex r"
      using i(1) bounds(1) by (simp_all only: c_def)
    then have "?e \<in> set (Entries req)" "lastIncludedIndex r < Index ?e" "Index ?e \<le> commitIndex r"
      using i(2) unfolding idx by (simp, linarith, linarith)
    then have "getEntryTerm r (Index ?e) = Term ?e"
      using assms(4) unfolding agrees_committed_def by blast
    ultimately show "Term (drop ?p (log r) ! i) = Term (drop ?k (Entries req) ! i)"
      using \<open>?p + i < length (log r)\<close> i(2) by simp
  qed
  then show ?thesis
    unfolding appended_log(1) [OF wf assms(2,3)]
    by (intro take_splice) (use assms(3) lastLogIndex_eq [OF wf] in simp)
qed

lemma appended_inv:
  assumes "node_inv r" "wf_append req" "PrevLogIndex req \<le> lastLogIndex r" "agrees_committed req r"
  shows "node_inv (foldl appendOne r (Entries req))"
proof -
  let ?s = "foldl appendOne r (Entries req)" and ?c = "nat (commitIndex r - lastIncludedIndex r)"
  have wf: "wf_log r" "wf_log ?s"
    using appended_log(2) [OF _ assms(2,3)] assms(1) by (auto simp: node_inv_def)
  have "length (take ?c (log ?s)) = length (take ?c (log r))"
    using appended_committed [OF assms] by simp
  then have "?c \<le> length (log ?s)"
    using assms(1) lastLogIndex_eq [OF wf(1)] by (auto simp: node_inv_def)
  then show ?thesis
    using assms(1) wf by (auto simp: node_inv_def lastLogIndex_eq)
qed

lemma applyLogs_commit:
  assumes "node_inv r" "commitIndex r \<le> n" "n \<le> lastLogIndex r"
  shows "node_inv (applyLogs (r\<lparr>commitIndex := n\<rparr>))"
    "lastLogIndex r \<le> lastLogIndex (applyLogs (r\<lparr>commitIndex := n\<rparr>))"
    "lastIncludedIndex r \<le> lastIncludedIndex (applyLogs (r\<lparr>commitIndex := n\<rparr>))"
proof -
  let ?s = "r\<lparr>commitIndex := n\<rparr>"
  have "wf_log ?s" "0 \<le> lastIncludedIndex ?s" "lastIncludedIndex ?s \<le> lastApplied ?s"
    "lastApplied ?s \<le> commitIndex ?s" "commitIndex ?s \<le> lastLogIndex ?s"
    using assms by (auto simp: node_inv_def wf_log_def)
  from applyLogs_inv [OF this] show "node_inv (applyLogs ?s)"
    "lastLogIndex r \<le> lastLogIndex (applyLogs ?s)"
    "lastIncludedIndex r \<le> lastIncludedIndex (applyLogs ?s)" by simp_all
qed

lemma advanceCommit_inv: "node_inv r \<Longrightarrow> node_inv (advanceCommit n r)"
  by (auto simp: advanceCommit_def intro!: applyLogs_commit(1)) (auto simp: node_inv_def)

lemma advanceCommit_frame [simp]:
  "raft_id (advanceCommit n r) = raft_id r" "currentTerm (advanceCommit n r) = currentTerm r"
  "votesReceived (advanceCommit n r) = votesReceived r"
  by (simp_all add: advanceCommit_def)

lemma advanceCommit_commit:
  "node_inv r \<Longrightarrow> commitIndex (advanceCommit n r) = max (commitIndex r) (min n (lastLogIndex r))"
  by (auto simp: advanceCommit_def node_inv_def)

lemma processAppendEntries_inv:
  assumes "node_inv r" "wf_append req" "agrees_committed req r"
  shows "node_inv (fst (processAppendEntries req r))"
proof -
  let ?f = "followLeader (aeTerm req) (aeLeaderId req) r"
  have "agrees_committed req ?f" using assms(3) by (simp add: agrees_committed_def getEntryTerm_def)
  then have "PrevLogIndex req \<le> lastLogIndex r \<Longrightarrow> node_inv (foldl appendOne ?f (Entries req))"
    using assms(1,2) by (intro appended_inv) auto
  then show ?thesis
    using assms(1) by (simp add: processAppendEntries_def Let_def advanceCommit_inv)
qed

section \<open>Committing\<close>

lemma commitStep_inv:
  assumes "node_inv r" "commitIndex r < n" "n \<le> lastLogIndex r"
  shows "node_inv (commitStep r n)" "lastLogIndex r \<le> lastLogIndex (commitStep r n)"
    "commitIndex r \<le> commitIndex (commitStep r n)" "commitIndex (commitStep r n) \<le> n"
    "currentTerm (commitStep r n) = currentTerm r"
  using applyLogs_commit [OF assms(1), of n] assms by (auto simp: commitStep_def)

lemma commitLoop_inv:
  assumes "node_inv r" "commitIndex r < a" "b \<le> lastLogIndex r"
  shows "node_inv (foldl commitStep r [a..b]) \<and> commitIndex r \<le> commitIndex (foldl commitStep r [a..b]) \<and>
    currentTerm (foldl commitStep r [a..b]) = currentTerm r"
  using assms
proof (induction a b arbitrary: r rule: upto.induct)
  case (1 a b)
  show ?case
  proof (cases "a \<le> b")
    case True
    have "a \<le> lastLogIndex r" using True "1.prems"(3) by simp
    note s = commitStep_inv [OF "1.prems"(1,2) this]
    have "node_inv (foldl commitStep (commitStep r a) [a + 1..b]) \<and>
        commitIndex (commitStep r a) \<le> commitIndex (foldl commitStep (commitStep r a) [a + 1..b]) \<and>
        currentTerm (foldl commitStep (commitStep r a) [a + 1..b]) = currentTerm (commitStep r a)"
      using s "1.prems"(3) by (intro "1.IH" [OF True]) auto
    then show ?thesis
      using s by (auto simp: upto_rec1 [OF True])
  qed (use "1.prems"(1) in simp)
qed

lemma processAppendEntriesResponse_inv:
  assumes "node_inv r"
  shows "node_inv (processAppendEntriesResponse p m r) \<and>
    commitIndex r \<le> commitIndex (processAppendEntriesResponse p m r) \<and>
    currentTerm r \<le> currentTerm (processAppendEntriesResponse p m r)"
proof -
  define r1 where "r1 = r\<lparr>matchIndex := AList.update p (MatchIndex m) (matchIndex r),
     nextIndex := AList.update p (MatchIndex m + 1) (nextIndex r)\<rparr>"
  define r2 where "r2 = trimProposalTime (observeLag p (get_int (matchIndex r) p) (MatchIndex m) r1)"
  have "extends r r2" by (simp add: r2_def r1_def trimProposalTime_def observeLag_def emit_def extends_same)
  with assms have inv: "node_inv r2" by (rule extends_inv [rotated])
  have "currentTerm r2 = currentTerm r" "commitIndex r2 = commitIndex r"
    by (simp_all add: r2_def r1_def trimProposalTime_def observeLag_def emit_def)
  with commitLoop_inv [OF inv, of "commitIndex r2 + 1" "lastLogIndex r2"]
  have loop: "node_inv (foldl commitStep r2 [commitIndex r2 + 1..lastLogIndex r2]) \<and>
    commitIndex r \<le> commitIndex (foldl commitStep r2 [commitIndex r2 + 1..lastLogIndex r2]) \<and>
    currentTerm (foldl commitStep r2 [commitIndex r2 + 1..lastLogIndex r2]) = currentTerm r" by simp
  have "extends r (emit [GoReplicateToPeer p] (r\<lparr>nextIndex := ni\<rparr>))" for ni
    by (simp add: emit_def extends_same)
  then have "node_inv (emit [GoReplicateToPeer p] (r\<lparr>nextIndex := ni\<rparr>))" for ni
    using assms extends_inv by blast
  moreover have "node_inv (transitionToFollower t r)" for t
    using assms extends_inv transitionToFollower_extends by blast
  ultimately show ?thesis
    using loop assms unfolding processAppendEntriesResponse_def Let_def r1_def [symmetric] r2_def [symmetric]
    by (simp add: emit_def)
qed

section \<open>Snapshots\<close>

lemma restoreConfig_frame [simp]:
  "log (restoreConfig s r) = log r" "lastIncludedIndex (restoreConfig s r) = lastIncludedIndex r"
  "lastIncludedTerm (restoreConfig s r) = lastIncludedTerm r" "commitIndex (restoreConfig s r) = commitIndex r"
  "lastApplied (restoreConfig s r) = lastApplied r" "currentTerm (restoreConfig s r) = currentTerm r"
  "state (restoreConfig s r) = state r" "votedFor (restoreConfig s r) = votedFor r"
  "electionTimer (restoreConfig s r) = electionTimer r" "raft_id (restoreConfig s r) = raft_id r"
  "votesReceived (restoreConfig s r) = votesReceived r" "kv (restoreConfig s r) = kv r"
  "dedupTable (restoreConfig s r) = dedupTable r" "disk (restoreConfig s r) = disk r"
  "wal (restoreConfig s r) = wal r" "env (restoreConfig s r) = env r" "proposals (restoreConfig s r) = proposals r"
  "snapshotPath (restoreConfig s r) = snapshotPath r" "isJoining (restoreConfig s r) = isJoining r"
  "lastLogIndex (restoreConfig s r) = lastLogIndex r"
  by (simp_all add: restoreConfig_def Let_def lastLogIndex_def split: option.split)

lemma restoreConfig_getEntry [simp]: "getEntry (restoreConfig s r) = getEntry r"
  by (rule getEntry_cong) simp_all

lemma restoreSnapshot_frame [simp]:
  "currentTerm (restoreSnapshot s r) = currentTerm r" "state (restoreSnapshot s r) = state r"
  "votedFor (restoreSnapshot s r) = votedFor r" "electionTimer (restoreSnapshot s r) = electionTimer r"
  "raft_id (restoreSnapshot s r) = raft_id r" "votesReceived (restoreSnapshot s r) = votesReceived r"
  "proposals (restoreSnapshot s r) = proposals r" "isJoining (restoreSnapshot s r) = isJoining r"
  by (simp_all add: restoreSnapshot_def node_defs Let_def split: option.split)

text \<open>Saving the snapshot can fail; otherwise the node is rebuilt from it.\<close>

definition saveOk :: "Snapshot \<Rightarrow> raft \<Rightarrow> bool" where
  "saveOk snap r \<longleftrightarrow> snd (saveSnap snap r) = None"

lemma restoreSnapshot_failed:
  "\<not> saveOk snap r \<Longrightarrow> extends r (restoreSnapshot snap r)"
  by (auto simp: saveOk_def restoreSnapshot_def node_defs Let_def extends_same split: option.split)

lemma restoreSnapshot_ok:
  assumes "saveOk snap r"
  shows "log (restoreSnapshot snap r) = entriesFromTo r (snLastIncludedIndex snap + 1) (lastLogIndex r)"
    "lastIncludedIndex (restoreSnapshot snap r) = snLastIncludedIndex snap"
    "lastIncludedTerm (restoreSnapshot snap r) = snLastIncludedTerm snap"
    "commitIndex (restoreSnapshot snap r) = max (commitIndex r) (snLastIncludedIndex snap)"
    "lastApplied (restoreSnapshot snap r) = max (lastApplied r) (snLastIncludedIndex snap)"
    "kv (restoreSnapshot snap r) = copyMap (KVState snap)"
    "dedupTable (restoreSnapshot snap r) = DedupTable snap"
  using assms
  by (simp_all add: saveOk_def restoreSnapshot_def node_defs Let_def entriesFromTo_def max_def split: option.split)

lemma entriesFromTo_empty: "b < a \<Longrightarrow> entriesFromTo r a b = []"
  by (simp add: entriesFromTo_def List.map_filter_def)

lemma restoreSnapshot_inv:
  assumes "node_inv r" "lastIncludedIndex r \<le> snLastIncludedIndex snap"
  shows "node_inv (restoreSnapshot snap r)"
proof (cases "saveOk snap r")
  case False
  then show ?thesis using assms(1) extends_inv restoreSnapshot_failed by blast
next
  case True
  note r' = restoreSnapshot_ok [OF True]
  let ?S = "snLastIncludedIndex snap" and ?r = "restoreSnapshot snap r"
  have wf: "wf_log r" using assms(1) by (simp add: node_inv_def)
  have "wf_log ?r \<and> max (lastLogIndex r) ?S \<le> lastLogIndex ?r"
  proof (cases "?S \<le> lastLogIndex r")
    case True
    let ?k = "nat (?S - lastIncludedIndex r)"
    have k: "?k \<le> length (log r)" using True wf assms(2) by (simp add: lastLogIndex_eq)
    have l: "log ?r = drop ?k (log r)"
      using entriesFromTo_drop [OF wf assms(2) True] r'(1) by simp
    have "contiguous (lastIncludedIndex r + int ?k) (log ?r)"
      unfolding l using wf k by (intro contiguous_drop) (auto simp: wf_log_def)
    then have "wf_log ?r" using assms(2) r'(2) by (simp add: wf_log_def)
    with l k assms(2) r'(2) wf show ?thesis by (auto simp: lastLogIndex_eq)
  next
    case False
    then have "log ?r = []" using r'(1) by (simp add: entriesFromTo_empty)
    with False r'(2) show ?thesis by (simp add: wf_log_def lastLogIndex_def)
  qed
  with assms r' show ?thesis by (auto simp: node_inv_def)
qed

text \<open>The snapshot that a request completes, if it is the last chunk.\<close>

definition completedSnapshot :: "InstallSnapshotRequest \<Rightarrow> raft \<Rightarrow> Snapshot option" where
  "completedSnapshot req r =
     (if Done req then UnmarshalSnapshot (bufferChunk (Offset req) (Data req) (snapshotBuf r)) else None)"

definition not_stale :: "InstallSnapshotRequest \<Rightarrow> raft \<Rightarrow> bool" where
  "not_stale req r \<longleftrightarrow>
     (case completedSnapshot req r of
        None \<Rightarrow> True | Some snap \<Rightarrow> lastIncludedIndex r \<le> snLastIncludedIndex snap)"

lemma node_inv_cong:
  "log r' = log r \<Longrightarrow> lastIncludedIndex r' = lastIncludedIndex r \<Longrightarrow> commitIndex r' = commitIndex r \<Longrightarrow>
   lastApplied r' = lastApplied r \<Longrightarrow> node_inv r' = node_inv r"
  using lastLogIndex_cong [of r' r] by (simp add: node_inv_def wf_log_def)

lemma processInstallSnapshot_inv:
  assumes "node_inv r" "not_stale req r"
  shows "node_inv (fst (processInstallSnapshot req r))"
proof (cases "isTerm req < currentTerm r")
  case False
  define r2 where "r2 = (followLeader (isTerm req) (isLeaderId req) r)
    \<lparr>snapshotBuf := bufferChunk (Offset req) (Data req) (snapshotBuf r)\<rparr>"
  have inv: "node_inv r2" using assms(1) node_inv_cong [of r2 r] by (simp add: r2_def)
  have "node_inv (restoreSnapshot snap r2)" if "completedSnapshot req r = Some snap" for snap
    using that assms(2) inv by (intro restoreSnapshot_inv) (auto simp: not_stale_def r2_def)
  moreover have "node_inv (x\<lparr>snapshotBuf := b\<rparr>) = node_inv x" for x b
    by (rule node_inv_cong) simp_all
  ultimately show ?thesis
    using inv False
    by (auto simp: processInstallSnapshot_def Let_def r2_def completedSnapshot_def split: option.split)
qed (simp add: processInstallSnapshot_def assms(1))

section \<open>Client requests\<close>

text \<open>The leader after it has appended, recorded and announced a client's entry.\<close>

definition clientAppended :: "bytes \<Rightarrow> nat \<Rightarrow> raft \<Rightarrow> raft" where
  "clientAppended cmd ch r =
     (let entry = \<lparr>Index = lastLogIndex r + 1, Term = currentTerm r, Command = cmd\<rparr>
      in broadcastHeartbeats (addProposal entry ch (stampProposal (Index entry)
           (emit [IncCounter ''raft_log_entries_total''] (fst (appendLog entry r))))))"

lemma handleClientCommand_cases:
  "handleClientCommand cmd ch r =
     (if state r \<noteq> Leader then respond ch False (Some ''not the leader'') r
      else let entry = \<lparr>Index = lastLogIndex r + 1, Term = currentTerm r, Command = cmd\<rparr>;
               r3 = clientAppended cmd ch r
           in case snd (appendLog entry r) of
                Some e \<Rightarrow> respond ch False (Some e) (fst (appendLog entry r))
              | None \<Rightarrow> if effectivePeers r3 = [] \<and> checkCommitMajority r3 (lastLogIndex r + 1)
                        then applyLogs (r3\<lparr>commitIndex := lastLogIndex r + 1\<rparr>) else r3)"
  by (simp add: handleClientCommand_def clientAppended_def Let_def split: prod.split option.split)

lemma clientAppended_frame [simp]:
  "log (clientAppended cmd ch r) = log r @ [\<lparr>Index = lastLogIndex r + 1, Term = currentTerm r, Command = cmd\<rparr>]"
  "lastIncludedIndex (clientAppended cmd ch r) = lastIncludedIndex r"
  "lastIncludedTerm (clientAppended cmd ch r) = lastIncludedTerm r"
  "commitIndex (clientAppended cmd ch r) = commitIndex r" "lastApplied (clientAppended cmd ch r) = lastApplied r"
  "currentTerm (clientAppended cmd ch r) = currentTerm r" "state (clientAppended cmd ch r) = state r"
  "votedFor (clientAppended cmd ch r) = votedFor r" "electionTimer (clientAppended cmd ch r) = electionTimer r"
  "raft_id (clientAppended cmd ch r) = raft_id r" "votesReceived (clientAppended cmd ch r) = votesReceived r"
  "currentConfig (clientAppended cmd ch r) = currentConfig r"
  by (simp_all add: clientAppended_def node_defs Let_def)

lemma clientAppended_extends: "extends r (clientAppended cmd ch r)"
  by (rule extends_one) simp_all

lemma clientAppended_last: "lastLogIndex (clientAppended cmd ch r) = lastLogIndex r + 1"
  by (simp add: lastLogIndex_def)

lemma respond_extends: "extends r s \<Longrightarrow> extends r (respond ch ok e s)"
  by (simp add: extends_def node_defs)

lemma appendLog_extends:
  "extends r (fst (appendLog \<lparr>Index = lastLogIndex r + 1, Term = currentTerm r, Command = d\<rparr> r))"
  by (rule extends_one) (simp_all add: node_defs)

lemma handleClientCommand_inv:
  assumes "node_inv r"
  shows "node_inv (handleClientCommand cmd ch r)"
proof -
  let ?s = "clientAppended cmd ch r"
  have "node_inv ?s" using assms clientAppended_extends extends_inv by blast
  moreover have "node_inv (applyLogs (?s\<lparr>commitIndex := lastLogIndex r + 1\<rparr>))"
    using assms \<open>node_inv ?s\<close> by (intro applyLogs_commit(1)) (auto simp: clientAppended_last node_inv_def)
  moreover have "node_inv (respond c b e x)" if "extends r x" for c b e x
    using assms that extends_inv respond_extends by blast
  ultimately show ?thesis
    using appendLog_extends [of r cmd] extends_same [of r r]
    by (auto simp: handleClientCommand_cases Let_def split: option.split)
qed

text \<open>The leader after it has appended, adopted and announced a joint configuration.\<close>

definition configEntry :: "ClusterConfig \<Rightarrow> raft \<Rightarrow> LogEntry" where
  "configEntry j r = \<lparr>Index = lastLogIndex r + 1, Term = currentTerm r,
     Command = json_print (jsonEnvelope EntryConfigChange None (Some j))\<rparr>"

definition configAppended :: "ClusterConfig \<Rightarrow> nat \<Rightarrow> raft \<Rightarrow> raft" where
  "configAppended j ch r =
     (let entry = configEntry j r
      in broadcastHeartbeats (addProposal entry ch (connectToNewPeers (applyConfigEntry j
           ((stampProposal (Index entry) (fst (appendLog entry r)))
             \<lparr>pendingConfig := True, configChangeIndex := Index entry\<rparr>)))))"

lemma handleConfigChange_cases:
  "handleConfigChange req ch r =
     (if state r \<noteq> Leader then respond ch False (Some ''not the leader'') r
      else if pendingConfig r then respond ch False (Some ''config change already in flight'') r
      else if currentConfig r = None
      then respond ch False (Some ''cluster configuration not initialized'') r
      else (case BuildJointConfig (currentConfig r) (raft_id r) req of
              Inl e \<Rightarrow> respond ch False (Some e) r
            | Inr j \<Rightarrow> (case snd (appendLog (configEntry j r) r) of
                          Some e \<Rightarrow> respond ch False (Some e) (fst (appendLog (configEntry j r) r))
                        | None \<Rightarrow> configAppended j ch r)))"
  by (simp add: handleConfigChange_def EncodeConfigChangeEntry_def configAppended_def configEntry_def Let_def
      split: sum.split prod.split option.split)

lemma configAppended_frame [simp]:
  "log (configAppended j ch r) = log r @ [configEntry j r]"
  "lastIncludedIndex (configAppended j ch r) = lastIncludedIndex r"
  "lastIncludedTerm (configAppended j ch r) = lastIncludedTerm r"
  "commitIndex (configAppended j ch r) = commitIndex r" "lastApplied (configAppended j ch r) = lastApplied r"
  "currentTerm (configAppended j ch r) = currentTerm r" "state (configAppended j ch r) = state r"
  "votedFor (configAppended j ch r) = votedFor r" "electionTimer (configAppended j ch r) = electionTimer r"
  "raft_id (configAppended j ch r) = raft_id r" "votesReceived (configAppended j ch r) = votesReceived r"
  "currentConfig (configAppended j ch r) = Some j" "pendingConfig (configAppended j ch r) = True"
  by (simp_all add: configAppended_def node_defs Let_def)

lemma respond_frame [simp]:
  "log (respond ch ok e r) = log r" "lastIncludedIndex (respond ch ok e r) = lastIncludedIndex r"
  "commitIndex (respond ch ok e r) = commitIndex r" "lastApplied (respond ch ok e r) = lastApplied r"
  "currentTerm (respond ch ok e r) = currentTerm r" "state (respond ch ok e r) = state r"
  "votedFor (respond ch ok e r) = votedFor r" "electionTimer (respond ch ok e r) = electionTimer r"
  "raft_id (respond ch ok e r) = raft_id r" "votesReceived (respond ch ok e r) = votesReceived r"
  "currentConfig (respond ch ok e r) = currentConfig r"
  by (simp_all add: node_defs)

lemma appendLog_frame [simp]:
  "lastIncludedIndex (fst (appendLog x r)) = lastIncludedIndex r" "log (fst (appendLog x r)) = log r @ [x]"
  "commitIndex (fst (appendLog x r)) = commitIndex r" "lastApplied (fst (appendLog x r)) = lastApplied r"
  "currentTerm (fst (appendLog x r)) = currentTerm r" "state (fst (appendLog x r)) = state r"
  "votedFor (fst (appendLog x r)) = votedFor r" "electionTimer (fst (appendLog x r)) = electionTimer r"
  "raft_id (fst (appendLog x r)) = raft_id r" "votesReceived (fst (appendLog x r)) = votesReceived r"
  "currentConfig (fst (appendLog x r)) = currentConfig r" "proposals (fst (appendLog x r)) = proposals r"
  by (simp_all add: node_defs)

lemma handleConfigChange_extends: "extends r (handleConfigChange req ch r)"
proof -
  have "extends r (fst (appendLog (configEntry j r) r))" for j
    unfolding configEntry_def by (rule appendLog_extends)
  moreover have "extends r (configAppended j ch r)" for j
    by (rule extends_one) (simp_all add: configEntry_def)
  ultimately show ?thesis
    using extends_same [of r r]
    by (simp add: handleConfigChange_cases respond_extends split: sum.split option.split)
qed

lemma handleConfigChange_frame [simp]:
  "state (handleConfigChange req ch r) = state r" "electionTimer (handleConfigChange req ch r) = electionTimer r"
  "votedFor (handleConfigChange req ch r) = votedFor r" "raft_id (handleConfigChange req ch r) = raft_id r"
  "votesReceived (handleConfigChange req ch r) = votesReceived r"
  "currentTerm (handleConfigChange req ch r) = currentTerm r"
  by (simp_all add: handleConfigChange_cases split: sum.split option.split)

section \<open>Every event\<close>

definition ok_event :: "event \<Rightarrow> raft \<Rightarrow> bool" where
  "ok_event ev r \<longleftrightarrow>
     (case ev of
        Rpc (appendEntriesMsg m) \<Rightarrow> wf_append m \<and> agrees_committed m r
      | Rpc (installSnapshotMsg m) \<Rightarrow> not_stale m r
      | _ \<Rightarrow> True)"

lemma replicateToPeer_extends: "extends r (fst (replicateToPeer p r))"
  by (simp add: replicateToPeer_def Let_def emit_def extends_same)

lemma processInstallSnapshotResponse_extends: "extends r (processInstallSnapshotResponse p m r)"
  by (simp add: processInstallSnapshotResponse_def emit_def extends_same)

lemma heartbeatTick_extends: "extends r (heartbeatTick r)"
  by (simp add: heartbeatTick_def node_defs extends_same)

lemmas event_extends = electionTimerFired_extends heartbeatTick_extends processRequestVote_extends
  processPreVoteResponse_extends processRequestVoteResponse_extends
  processInstallSnapshotResponse_extends handleConfigChange_extends replicateToPeer_extends

lemmas event_inv = event_extends [THEN extends_inv]

lemma handleRPC_inv:
  assumes "node_inv r" "ok_event (Rpc m) r"
  shows "node_inv (fst (handleRPC m r))"
  using assms
  by (cases m) (auto simp: ok_event_def processAppendEntries_inv processInstallSnapshot_inv
      processAppendEntriesResponse_inv intro: event_inv)

lemma handleEvent_inv:
  assumes "node_inv r" "ok_event ev r"
  shows "node_inv (handleEvent ev r)"
proof (cases ev)
  case (Rpc m)
  then show ?thesis using handleRPC_inv assms by simp
next
  case (ClientCmd cmd ch)
  then show ?thesis using handleClientCommand_inv assms by simp
qed (use assms(1) in \<open>auto intro: event_inv\<close>)

section \<open>Progress\<close>

text \<open>Terms, commit points and applied positions only grow.\<close>

definition progress :: "raft \<Rightarrow> raft \<Rightarrow> bool" where
  "progress r r' \<longleftrightarrow> currentTerm r \<le> currentTerm r' \<and> commitIndex r \<le> commitIndex r' \<and>
     lastApplied r \<le> lastApplied r'"

lemma progress_refl [simp]: "progress r r"
  by (simp add: progress_def)

lemma progress_trans: "progress r s \<Longrightarrow> progress s t \<Longrightarrow> progress r t"
  by (auto simp: progress_def)

lemma extends_progress: "extends r r' \<Longrightarrow> currentTerm r \<le> currentTerm r' \<Longrightarrow> progress r r'"
  by (simp add: extends_def progress_def)

lemma event_terms:
  "currentTerm r \<le> currentTerm (electionTimerFired r)" "currentTerm r \<le> currentTerm (heartbeatTick r)"
  "currentTerm r \<le> currentTerm (fst (processRequestVote req r))"
  "currentTerm r \<le> currentTerm (processPreVoteResponse p m r)"
  "currentTerm r \<le> currentTerm (processRequestVoteResponse p m r)"
  "currentTerm r \<le> currentTerm (processInstallSnapshotResponse p sm r)"
  "currentTerm r \<le> currentTerm (fst (replicateToPeer p r))"
  by (simp_all add: electionTimerFired_def startPreVote_def heartbeatTick_def processRequestVote_def
      processPreVoteResponse_def processRequestVoteResponse_def processInstallSnapshotResponse_def
      replicateToPeer_def Let_def walState_def wroteWal_def resetElectionTimer_def emit_def broadcastHeartbeats_def)

lemmas event_progress = event_extends [THEN extends_progress]

lemma commitLoop_progress:
  "progress r (foldl commitStep r ns) \<or> \<not> sorted (commitIndex r # ns)"
proof (induction ns arbitrary: r)
  case (Cons n ns)
  show ?case
  proof (cases "sorted (commitIndex r # n # ns)")
    case True
    then have "progress r (commitStep r n)" and "sorted (commitIndex (commitStep r n) # ns)"
      by (auto simp: commitStep_def progress_def)
    with Cons.IH [of "commitStep r n"] progress_trans show ?thesis by auto
  qed blast
qed (simp add: progress_def)

lemma processAppendEntriesResponse_progress: "progress r (processAppendEntriesResponse p m r)"
proof -
  define r1 where "r1 = r\<lparr>matchIndex := AList.update p (MatchIndex m) (matchIndex r),
     nextIndex := AList.update p (MatchIndex m + 1) (nextIndex r)\<rparr>"
  define r2 where "r2 = trimProposalTime (observeLag p (get_int (matchIndex r) p) (MatchIndex m) r1)"
  have "progress r r2"
    by (simp add: r2_def r1_def trimProposalTime_def observeLag_def emit_def progress_def)
  moreover have "progress r2 (foldl commitStep r2 [commitIndex r2 + 1..lastLogIndex r2])"
    using commitLoop_progress [of r2 "[commitIndex r2 + 1..lastLogIndex r2]"] by auto
  ultimately show ?thesis
    using progress_trans [of r r2]
    unfolding processAppendEntriesResponse_def Let_def r1_def [symmetric] r2_def [symmetric]
    by (simp add: progress_def emit_def)
qed

lemma applyLogs_progress: "commitIndex r \<le> n \<Longrightarrow> progress r (applyLogs (r\<lparr>commitIndex := n\<rparr>))"
  by (simp add: progress_def)

lemma processAppendEntries_progress:
  assumes "node_inv r" "wf_append req" "agrees_committed req r"
  shows "progress r (fst (processAppendEntries req r))"
proof -
  let ?f = "followLeader (aeTerm req) (aeLeaderId req) r" 
  let ?s = "foldl appendOne ?f (Entries req)"
  have "agrees_committed req ?f" using assms(3) by (simp add: agrees_committed_def getEntryTerm_def)
  then have "PrevLogIndex req \<le> lastLogIndex r \<Longrightarrow> node_inv ?s"
    using assms(1,2) by (intro appended_inv) auto
  then have "PrevLogIndex req \<le> lastLogIndex r \<Longrightarrow> progress ?s (advanceCommit (LeaderCommit req) ?s)"
    by (auto simp: advanceCommit_def progress_def node_inv_def)
  then show ?thesis
    by (auto simp: processAppendEntries_def Let_def progress_def)
qed

lemma restoreSnapshot_progress: "progress r (restoreSnapshot snap r)"
proof (cases "saveOk snap r")
  case True
  then show ?thesis using restoreSnapshot_ok(4,5) by (simp add: progress_def)
next
  case False
  then show ?thesis using restoreSnapshot_failed extends_progress by simp
qed

lemma processInstallSnapshot_progress: "progress r (fst (processInstallSnapshot req r))"
proof (cases "isTerm req < currentTerm r")
  case False
  define r2 where "r2 = (followLeader (isTerm req) (isLeaderId req) r)
    \<lparr>snapshotBuf := bufferChunk (Offset req) (Data req) (snapshotBuf r)\<rparr>"
  have "progress r r2" using False by (simp add: r2_def progress_def)
  moreover have "progress r2 (restoreSnapshot snap r2)" for snap
    by (rule restoreSnapshot_progress)
  ultimately show ?thesis
    using False by (auto simp: processInstallSnapshot_def Let_def r2_def progress_def split: option.split
        intro: order_trans)
qed (simp add: processInstallSnapshot_def)

lemma handleClientCommand_progress: "node_inv r \<Longrightarrow> progress r (handleClientCommand cmd ch r)"
  by (auto simp: handleClientCommand_cases Let_def progress_def node_inv_def node_defs split: option.split)

lemma handleEvent_progress:
  assumes "node_inv r" "ok_event ev r"
  shows "progress r (handleEvent ev r)"
proof (cases ev)
  case (Rpc m)
  then show ?thesis
    using assms
    by (cases m) (auto simp: ok_event_def processAppendEntries_progress processInstallSnapshot_progress
        processAppendEntriesResponse_progress event_terms intro: event_progress)
qed (use assms(1) in \<open>auto simp: handleClientCommand_progress event_terms intro: event_progress\<close>)

section \<open>Runs\<close>

text \<open>What happens to a node from outside: settings, shutdown, reads, and new circumstances.\<close>

inductive adjusts :: "raft \<Rightarrow> raft \<Rightarrow> bool" for r where
  "pred_option wf_map pt \<Longrightarrow> adjusts r (SetPartition pt r)"
| "adjusts r (SetNetworkDelay d r)"
| "adjusts r (SetJoining b r)"
| "adjusts r (SetReadSafety mode r)"
| "wf_map addrs \<Longrightarrow> adjusts r (SetPeerHTTPAddrs addrs r)"
| "adjusts r (InitClusterConfig grpc http r)"
| "adjusts r (fst (connectToPeersLocked r))"
| "adjusts r (Stop r)"
| "adjusts r (r\<lparr>lastHeartbeatQuorum := t\<rparr>)"
| "adjusts r (r\<lparr>outbox := []\<rparr>)"
| "adjusts r (r\<lparr>env := en\<rparr>)"

lemmas adjust_defs = SetPartition_def SetNetworkDelay_def SetJoining_def SetReadSafety_def
  SetPeerHTTPAddrs_def InitClusterConfig_def connectToPeersLocked_def Stop_def Let_def

text \<open>
  A run of one node: any events in any order, with the environment (clock, disk outcomes)
  and the settings of the node changing in between, and its output being taken away.
\<close>

inductive node_run :: "raft \<Rightarrow> raft \<Rightarrow> bool" for r where
  start: "node_run r r"
| event: "node_run r s \<Longrightarrow> ok_event ev s \<Longrightarrow> node_run r (handleEvent ev s)"
| adjust: "node_run r s \<Longrightarrow> adjusts s s' \<Longrightarrow> node_run r s'"

lemma adjusts_inv:
  "adjusts s s' \<Longrightarrow> node_inv s' = node_inv s \<and> progress s s'"
proof (induction rule: adjusts.induct)
  case (6 grpc http)
  then show ?case
    using node_inv_cong [of "InitClusterConfig grpc http s" s]
    by (simp add: InitClusterConfig_def progress_def split: option.split)
qed (simp_all add: node_inv_def wf_log_def lastLogIndex_def adjust_defs progress_def)

lemma node_run_progress:
  assumes "node_run r s" "node_inv r"
  shows "node_inv s \<and> progress r s"
  using assms(1)
proof induction
  case (event s ev)
  then show ?case
    using handleEvent_inv [of s ev] handleEvent_progress [of s ev] progress_trans by blast
next
  case (adjust s s')
  then show ?case using adjusts_inv progress_trans by blast
qed (simp add: assms(2))

lemma node_run_trans: "node_run s t \<Longrightarrow> node_run r s \<Longrightarrow> node_run r t"
  by (induction rule: node_run.induct) (auto intro: node_run.intros)

section \<open>Properties\<close>



end
