(* ===== verification/Timers.thy ===== *)
theory Timers
  imports NodeInv
begin

text \<open>
  Liveness conditions of a single node: a node that is not the leader always has a running
  election timer, and a node that is joining or has been removed never starts an election.
\<close>

section \<open>The election timer\<close>

definition timer_ok :: "raft \<Rightarrow> bool" where
  "timer_ok r \<longleftrightarrow> (state r = Follower \<or> state r = Candidate \<longrightarrow> electionTimer r = Some True)"

lemma timer_okI: "electionTimer r = Some True \<Longrightarrow> timer_ok r"
  by (simp add: timer_ok_def)

lemma timer_ok_cong:
  "state r' = state r \<Longrightarrow> electionTimer r' = electionTimer r \<Longrightarrow> timer_ok r' = timer_ok r"
  by (simp add: timer_ok_def)

lemma timer_ok_applyEnvelope: "timer_ok r \<Longrightarrow> timer_ok (applyEnvelope v r)"
proof -
  assume ok: "timer_ok r"
  have "timer_ok (applyFinalConfig c r)" for c
    using ok by (simp add: timer_ok_def applyFinalConfig_def node_defs Let_def)
  with ok show ?thesis
    by (simp add: timer_ok_def applyEnvelope_def split: option.split)
qed

lemma timer_ok_applyNext: "timer_ok r \<Longrightarrow> timer_ok (applyNext r)"
  using applyNext_cases [of r] timer_ok_applyEnvelope [of "beginApply r"] timer_ok_cong [of "beginApply r" r]
  by auto

lemma timer_ok_applyLogs: "timer_ok r \<Longrightarrow> timer_ok (applyLogs r)"
  using applyLoop_induct [of timer_ok r] timer_ok_applyNext
  by (simp add: applyLogs_def timer_ok_def)

lemma timer_ok_transitionToLeader: "timer_ok r \<Longrightarrow> timer_ok (transitionToLeader r)"
  by (cases "state r = Candidate") (simp_all add: timer_ok_def transitionToLeader_state, simp add: transitionToLeader_def)

lemma timer_ok_startElection: "timer_ok r \<Longrightarrow> timer_ok (startElection r)"
  by (simp add: startElection_def Let_def timer_ok_transitionToLeader)
    (simp add: timer_ok_def emit_def)

lemma timer_ok_transitionToCandidate: "timer_ok (transitionToCandidate r)"
  unfolding transitionToCandidate_eq by (rule timer_ok_startElection) (simp add: timer_ok_def)

lemma timer_ok_commitLoop: "timer_ok r \<Longrightarrow> timer_ok (foldl commitStep r ns)"
proof (induction ns arbitrary: r)
  case (Cons n ns)
  have "timer_ok (r\<lparr>commitIndex := n\<rparr>)" using Cons.prems by (simp add: timer_ok_def)
  then show ?case
    using Cons timer_ok_applyLogs by (simp add: commitStep_def)
qed simp

lemma timer_ok_responses:
  "timer_ok r \<Longrightarrow> timer_ok (processPreVoteResponse p m r)"
  "timer_ok r \<Longrightarrow> timer_ok (processRequestVoteResponse p m r)"
  "timer_ok r \<Longrightarrow> timer_ok (processInstallSnapshotResponse p sm r)"
  "timer_ok r \<Longrightarrow> timer_ok (processAppendEntriesResponse p am r)"
  "timer_ok r \<Longrightarrow> timer_ok (fst (processRequestVote req r))"
  by (simp_all add: processPreVoteResponse_def processRequestVoteResponse_def
      processInstallSnapshotResponse_def processAppendEntriesResponse_def processRequestVote_def Let_def
      timer_okI timer_ok_transitionToCandidate)
    (auto simp: timer_ok_def trimProposalTime_def observeLag_def node_defs
      intro!: timer_ok_transitionToLeader [unfolded timer_ok_def, rule_format]
        timer_ok_commitLoop [unfolded timer_ok_def, rule_format])

lemma applyLogs_follower_timer:
  "state r \<noteq> Leader \<Longrightarrow> state (applyLogs r) = state r \<and> electionTimer (applyLogs r) = electionTimer r"
  by (simp add: applyLogs_def applyLoop_follower)

lemma timer_ok_advanceCommit: "timer_ok r \<Longrightarrow> timer_ok (advanceCommit n r)"
  using timer_ok_applyLogs [of "r\<lparr>commitIndex := n'\<rparr>" for n'] timer_ok_cong [of "r\<lparr>commitIndex := n'\<rparr>" r for n']
  by (simp add: advanceCommit_def)

lemma timer_ok_requests:
  "timer_ok r \<Longrightarrow> timer_ok (fst (processAppendEntries areq r))"
  "timer_ok r \<Longrightarrow> timer_ok (fst (processInstallSnapshot sreq r))"
  by (auto simp: processAppendEntries_def processInstallSnapshot_def Let_def timer_okI
      intro!: timer_ok_advanceCommit split: option.split)

lemma timer_ok_clientAppended: "timer_ok r \<Longrightarrow> timer_ok (clientAppended cmd ch r)"
  by (simp add: timer_ok_def)

lemma timer_ok_client:
  assumes "timer_ok r"
  shows "timer_ok (handleClientCommand cmd ch r)" "timer_ok (handleConfigChange creq ch r)"
proof -
  have "timer_ok (applyLogs ((clientAppended cmd ch r)\<lparr>commitIndex := n\<rparr>))" for n
    using assms by (intro timer_ok_applyLogs) (simp add: timer_ok_def)
  then show "timer_ok (handleClientCommand cmd ch r)"
    using assms timer_ok_clientAppended [of r]
    by (auto simp: handleClientCommand_cases Let_def split: option.split) (simp_all add: timer_ok_def)
  show "timer_ok (handleConfigChange creq ch r)"
    using assms timer_ok_cong [of "handleConfigChange creq ch r" r] by simp
qed

lemma timer_ok_timer: "timer_ok (electionTimerFired r)"
  by (auto simp: electionTimerFired_def Let_def startPreVote_def timer_ok_transitionToCandidate
      resetElectionTimer_def emit_def timer_okI) (simp_all add: timer_ok_def)

lemma timer_ok_handleEvent: "timer_ok r \<Longrightarrow> timer_ok (handleEvent ev r)"
proof -
  assume ok: "timer_ok r"
  have "timer_ok (fst (handleRPC m r))" for m
    using ok by (cases m) (simp_all add: timer_ok_responses timer_ok_requests)
  with ok show ?thesis
    by (cases ev) (simp_all add: timer_ok_timer timer_ok_client,
        simp_all add: heartbeatTick_def replicateToPeer_def timer_ok_def node_defs Let_def)
qed

section \<open>Properties\<close>

text \<open>
  C24. A node that is not the leader can always start an election: once \<^verbatim>\<open>run\<close> has armed the
  election timer, after any sequence of events a follower or candidate has a running timer.
\<close>

theorem election_timer_runs:
  "let s = foldl (\<lambda>s ev. handleEvent ev s) (startRun r) evs
   in state s = Leader \<or> state s = Shutdown \<or> electionTimer s = Some True"
proof -
  have "timer_ok (foldl (\<lambda>s ev. handleEvent ev s) s evs)" if "timer_ok s" for s
    using that by (induction evs arbitrary: s) (simp_all add: timer_ok_handleEvent)
  moreover have "timer_ok (startRun r)" by (simp add: timer_ok_def startRun_def)
  ultimately have "timer_ok (foldl (\<lambda>s ev. handleEvent ev s) (startRun r) evs)" by blast
  then show ?thesis
    using RaftState.exhaust by (auto simp: timer_ok_def Let_def)
qed

end
