(* ===== verification/Replication.thy ===== *)
theory Replication
  imports NodeInv
begin

text \<open>
  What \<^verbatim>\<open>AppendEntries\<close> does to a follower, as a merge of two logs, and that requests which are
  delivered again, late or only in part change nothing.
\<close>

section \<open>Followers apply without changing the log\<close>

lemma applyLogs_compacted:
  assumes "node_inv r" "state r \<noteq> Leader" "commitIndex r \<le> n" "n \<le> lastLogIndex r"
  shows "compacted r (applyLogs (r\<lparr>commitIndex := n\<rparr>))"
proof -
  let ?s = "r\<lparr>commitIndex := n\<rparr>"
  have l: "log (applyLoop ?s) = log r" using assms(2) by (simp add: applyLoop_follower)
  then have "compacted (applyLoop ?s) (compact (applyLoop ?s))"
    using assms lastLogIndex_cong [of "applyLoop ?s" r]
    by (intro compact_compacted) (auto simp: node_inv_def wf_log_def)
  moreover have "getEntry (applyLoop ?s) = getEntry r"
    using l by (intro getEntry_cong) simp_all
  ultimately show ?thesis
    using l by (simp add: compacted_def applyLogs_def getEntryTerm_def)
qed

lemma advanceCommit_compacted:
  "node_inv r \<Longrightarrow> state r \<noteq> Leader \<Longrightarrow> compacted r (advanceCommit n r)"
  by (auto simp: advanceCommit_def compacted_refl intro!: applyLogs_compacted) (auto simp: node_inv_def)

definition prevMatches :: "AppendEntriesRequest \<Rightarrow> raft \<Rightarrow> bool" where
  "prevMatches req r \<longleftrightarrow> PrevLogIndex req \<le> lastLogIndex r \<and>
     (lastIncludedIndex r \<le> PrevLogIndex req \<longrightarrow> getEntryTerm r (PrevLogIndex req) = PrevLogTerm req)"

definition mergedLog :: "AppendEntriesRequest \<Rightarrow> raft \<Rightarrow> LogEntry list" where
  "mergedLog req r = take (kept req r) (log r) @
     mergeEntries (drop (kept req r) (log r)) (drop (skipped req r) (Entries req))"

definition follows :: "AppendEntriesRequest \<Rightarrow> raft \<Rightarrow> bool" where
  "follows req r \<longleftrightarrow> currentTerm r \<le> aeTerm req \<and> (state r \<noteq> Leader \<or> currentTerm r < aeTerm req)"

text \<open>The node between the consistency check and the commit step.\<close>

definition appended :: "AppendEntriesRequest \<Rightarrow> raft \<Rightarrow> raft" where
  "appended req r = foldl appendOne (followLeader (aeTerm req) (aeLeaderId req) r) (Entries req)"

lemma processAppendEntries_match:
  "currentTerm r \<le> aeTerm req \<Longrightarrow> prevMatches req r \<Longrightarrow>
   processAppendEntries req r = (let r3 = advanceCommit (LeaderCommit req) (appended req r)
     in (r3, \<lparr>aerTerm = currentTerm r3, Success = True, MatchIndex = lastLogIndex r3\<rparr>))"
  by (auto simp: processAppendEntries_def Let_def prevMatches_def appended_def getEntryTerm_def)

lemma processAppendEntries_mismatch:
  "\<not> prevMatches req r \<Longrightarrow> log (fst (processAppendEntries req r)) = log r \<and>
   lastIncludedIndex (fst (processAppendEntries req r)) = lastIncludedIndex r \<and>
   commitIndex (fst (processAppendEntries req r)) = commitIndex r \<and>
   kv (fst (processAppendEntries req r)) = kv r \<and>
   \<not> Success (snd (processAppendEntries req r))"
  by (auto simp: processAppendEntries_def Let_def prevMatches_def getEntryTerm_def)

lemma appended_facts:
  assumes "node_inv r" "wf_append req" "agrees_committed req r" "follows req r" "prevMatches req r"
  shows "node_inv (appended req r)" "state (appended req r) \<noteq> Leader" "log (appended req r) = mergedLog req r"
    "lastLogIndex (appended req r) = lastIncludedIndex r + int (length (mergedLog req r))"
proof -
  let ?f = "followLeader (aeTerm req) (aeLeaderId req) r"
  have f: "node_inv ?f" "agrees_committed req ?f" "PrevLogIndex req \<le> lastLogIndex ?f"
    using assms(1,3,5) by (simp_all add: agrees_committed_def getEntryTerm_def prevMatches_def)
  show inv: "node_inv (appended req r)"
    unfolding appended_def by (rule appended_inv) (use f assms(2) in auto)
  show "state (appended req r) \<noteq> Leader"
    using assms(4) by (auto simp: appended_def followLeader_state follows_def)
  show l: "log (appended req r) = mergedLog req r"
    using appended_log(1) [OF _ assms(2) f(3)] f(1) by (simp add: appended_def mergedLog_def node_inv_def)
  show "lastLogIndex (appended req r) = lastIncludedIndex r + int (length (mergedLog req r))"
    using inv l by (simp add: node_inv_def lastLogIndex_eq) (simp add: appended_def)
qed

section \<open>Entries that are already there\<close>

lemma mergeEntries_terms:
  "i < length es \<Longrightarrow> i < length (mergeEntries ls es) \<and> Term (mergeEntries ls es ! i) = Term (es ! i)"
proof (induction ls es arbitrary: i rule: mergeEntries.induct)
  case (3 l ls e es)
  then show ?case by (cases i) (auto simp: nth_Cons')
qed auto

definition holds :: "raft \<Rightarrow> LogEntry \<Rightarrow> bool" where
  "holds r e \<longleftrightarrow> Index e \<le> lastIncludedIndex r \<or>
     Index e \<le> lastLogIndex r \<and> getEntryTerm r (Index e) = Term e"

lemma appendOne_holds: "holds r e \<Longrightarrow> appendOne r e = r"
  by (auto simp: holds_def appendOne_def getEntryTerm_def split: option.split)

lemma foldl_appendOne_holds: "\<forall>e \<in> set es. holds r e \<Longrightarrow> foldl appendOne r es = r"
  by (induction es) (simp_all add: appendOne_holds)

lemma holds_nth:
  "wf_log r \<Longrightarrow> q < length (log r) \<Longrightarrow> Index e = lastIncludedIndex r + 1 + int q \<Longrightarrow>
   Term (log r ! q) = Term e \<Longrightarrow> holds r e"
  using getEntry_nth [of q r] by (simp add: holds_def getEntryTerm_def lastLogIndex_eq)

lemma kept_le: "node_inv r \<Longrightarrow> prevMatches req r \<Longrightarrow> kept req r \<le> length (log r)"
  using lastLogIndex_eq [of r] by (auto simp: node_inv_def prevMatches_def)

lemma mergedLog_holds:
  assumes "node_inv r" "wf_append req" "agrees_committed req r" "follows req r" "prevMatches req r"
    and "e \<in> set (Entries req)"
  shows "holds (appended req r) e"
proof -
  note a = appended_facts [OF assms(1-5)]
  have lii: "lastIncludedIndex (appended req r) = lastIncludedIndex r" by (simp add: appended_def)
  from assms(6) obtain i where i: "i < length (Entries req)" "e = Entries req ! i"
    by (auto simp: in_set_conv_nth)
  have idx: "Index e = PrevLogIndex req + 1 + int i"
    using assms(2) i by (simp add: wf_append_def contiguous_def)
  show ?thesis
  proof (cases "Index e \<le> lastIncludedIndex r")
    case False
    let ?j = "i - skipped req r"
    have j: "skipped req r + ?j = i" "Index e = lastIncludedIndex r + 1 + int (kept req r + ?j)"
      using False idx by auto
    have m: "?j < length (drop (skipped req r) (Entries req))"
      "drop (skipped req r) (Entries req) ! ?j = e"
      using i j(1) by auto
    have k: "kept req r \<le> length (log r)"
      by (rule kept_le [OF assms(1,5)])
    have "kept req r + ?j < length (log (appended req r)) \<and>
        Term (log (appended req r) ! (kept req r + ?j)) = Term e"
      using mergeEntries_terms [OF m(1), of "drop (kept req r) (log r)"] m(2) k
      by (simp add: a(3) mergedLog_def nth_append)
    then show ?thesis
      using a(1) j(2) by (intro holds_nth [of _ "kept req r + ?j"]) (auto simp: lii node_inv_def)
  qed (simp add: holds_def lii)
qed

lemma compacted_holds:
  "compacted r r' \<Longrightarrow> wf_log r \<Longrightarrow> holds r e \<Longrightarrow> holds r' e"
  using compacted_wf [of r r'] compacted_getEntryTerm [of r r' "Index e"]
  by (auto simp: holds_def compacted_def)

lemma appended_prevMatches:
  assumes "node_inv r" "wf_append req" "agrees_committed req r" "follows req r" "prevMatches req r"
  shows "prevMatches req (appended req r)"
proof -
  note a = appended_facts [OF assms(1-5)]
  have fr: "lastIncludedIndex (appended req r) = lastIncludedIndex r"
    "lastIncludedTerm (appended req r) = lastIncludedTerm r" by (simp_all add: appended_def)
  have k: "kept req r \<le> length (log r)"
    by (rule kept_le [OF assms(1,5)])
  have "getEntryTerm (appended req r) (PrevLogIndex req) = getEntryTerm r (PrevLogIndex req)"
    if "lastIncludedIndex r \<le> PrevLogIndex req"
  proof (cases "kept req r")
    case 0
    with that fr show ?thesis by (simp add: getEntryTerm_def getEntry_def)
  next
    case (Suc p)
    have "log (appended req r) ! p = log r ! p" "p < length (log (appended req r))" "p < length (log r)"
      using k Suc unfolding a(3) mergedLog_def by (simp_all add: nth_append)
    moreover have "PrevLogIndex req = lastIncludedIndex r + 1 + int p" using Suc by simp
    ultimately show ?thesis
      using getEntry_nth [of p r] getEntry_nth [of p "appended req r"] fr by (simp add: getEntryTerm_def)
  qed
  with assms(5) a(4) k fr show ?thesis
    by (auto simp: prevMatches_def mergedLog_def)
qed

lemma compacted_prevMatches:
  "compacted r r' \<Longrightarrow> wf_log r \<Longrightarrow> prevMatches req r \<Longrightarrow> prevMatches req r'"
  using compacted_wf [of r r'] compacted_getEntryTerm [of r r' "PrevLogIndex req"]
  by (auto simp: prevMatches_def compacted_def)

section \<open>Properties\<close>


definition demo_append :: AppendEntriesRequest where
  "demo_append = \<lparr>aeTerm = 2, aeLeaderId = ''n2'', PrevLogIndex = 1, PrevLogTerm = 1,
     Entries = [\<lparr>Index = 2, Term = 2, Command = ''x''\<rparr>], LeaderCommit = 1\<rparr>"

lemmas demo_defs = demo_node_def demo_append_def freshRaft_def

lemma demo_append_ok:
  "node_inv demo_node" "wf_append demo_append" "agrees_committed demo_append demo_node"
  "follows demo_append demo_node" "prevMatches demo_append demo_node"
  by (simp_all add: node_inv_def wf_log_def wf_append_def agrees_committed_def follows_def prevMatches_def
      lastLogIndex_def getEntryTerm_def getEntry_def demo_defs)


text \<open>
  Redelivery is harmless: once a request has been accepted, delivering it again, or any
  older request of the same leader that carries only a prefix of its entries, is accepted
  and changes neither the log nor the WAL nor the commit index nor the store.
\<close>

theorem append_entries_redelivery:
  assumes "node_inv r" "wf_append req" "agrees_committed req r" "follows req r" "prevMatches req r"
    and "Entries req' = take n (Entries req)" "PrevLogIndex req' = PrevLogIndex req"
      "PrevLogTerm req' = PrevLogTerm req" "aeTerm req' = aeTerm req"
    and "LeaderCommit req' \<le> commitIndex (fst (processAppendEntries req r))"
  shows "let r' = fst (processAppendEntries req r); r'' = fst (processAppendEntries req' r')
    in Success (snd (processAppendEntries req' r')) \<and> log r'' = log r' \<and> wal r'' = wal r' \<and>
       commitIndex r'' = commitIndex r' \<and> kv r'' = kv r'"
proof -
  let ?a = "appended req r" and ?r' = "fst (processAppendEntries req r)"
  note a = appended_facts [OF assms(1-5)]
  have wf: "wf_log ?a" using a(1) by (simp add: node_inv_def)
  have r': "?r' = advanceCommit (LeaderCommit req) ?a"
    using assms(4,5) by (simp add: processAppendEntries_match follows_def Let_def)
  have c: "compacted ?a ?r'" unfolding r' using a(1,2) by (rule advanceCommit_compacted)
  have t: "currentTerm ?r' = aeTerm req" using assms(4) by (simp add: r' appended_def follows_def)
  have "prevMatches req ?r'"
    by (rule compacted_prevMatches [OF c wf appended_prevMatches [OF assms(1-5)]])
  then have pm: "prevMatches req' ?r'" using assms(7,8) by (simp add: prevMatches_def)
  have h: "\<forall>e \<in> set (Entries req'). holds ?r' e"
    using compacted_holds [OF c wf mergedLog_holds [OF assms(1-5)]] assms(6) by (auto dest: in_set_takeD)
  let ?f = "followLeader (aeTerm req') (aeLeaderId req') ?r'"
  have "appended req' ?r' = ?f"
    unfolding appended_def using h by (intro foldl_appendOne_holds) (auto simp: holds_def getEntryTerm_def)
  moreover have "advanceCommit (LeaderCommit req') ?f = ?f"
    using assms(10) by (simp add: advanceCommit_def)
  ultimately show ?thesis
    using processAppendEntries_match [of ?r' req'] pm t assms(9) by (simp add: Let_def)
qed

theorem append_entries_redelivery_witness:
  "let r' = fst (processAppendEntries demo_append demo_node);
       r'' = fst (processAppendEntries (demo_append\<lparr>LeaderCommit := 0\<rparr>) r')
   in Success (snd (processAppendEntries (demo_append\<lparr>LeaderCommit := 0\<rparr>) r')) \<and> log r'' = log r' \<and>
      wal r'' = wal r' \<and> commitIndex r'' = commitIndex r' \<and> kv r'' = kv r'"
proof (rule append_entries_redelivery [OF demo_append_ok, where n = 1])
  have "0 \<le> commitIndex (fst (processAppendEntries demo_append demo_node))"
    using processAppendEntries_inv [OF demo_append_ok(1-3)] by (simp add: node_inv_def)
  then show "LeaderCommit (demo_append\<lparr>LeaderCommit := 0\<rparr>) \<le>
      commitIndex (fst (processAppendEntries demo_append demo_node))" by simp
qed (simp_all add: demo_append_def)

end
