(* ===== verification/Recovery.thy ===== *)
theory Recovery
  imports Replication
begin

text \<open>
  Crashes and restarts: what the WAL and the snapshot on disk hold compared with the node in
  memory. A crash keeps the files; a restart is \<^verbatim>\<open>NewRaft\<close> on them.
\<close>

section \<open>The WAL as a list of records\<close>

definition wal_holds :: "raft \<Rightarrow> WALRecord list \<Rightarrow> bool" where
  "wal_holds r recs \<longleftrightarrow> isOpen (wal r) \<and>
     (\<forall>rec \<in> set recs. codec_ok (marshal (env r)) (unmarshal (env r)) rec) \<and>
     contents (wal r) = concat (map (framed (marshal (env r))) recs)"

abbreviation (input) can_store :: "raft \<Rightarrow> WALRecord \<Rightarrow> bool" where
  "can_store r rec \<equiv> codec_ok (marshal (env r)) (unmarshal (env r)) rec"

definition replayed :: "WALRecord list \<Rightarrow> LogEntry list" where
  "replayed recs = snd (snd (replayRecords recs))"

lemma Replay_wal_holds: "wal_holds r recs \<Longrightarrow> Replay (unmarshal (env r)) (wal r) = Inr (replayRecords recs)"
  using replayLoop_frames [of recs "marshal (env r)" "unmarshal (env r)" "[]" "(0, [], [])"]
  by (simp add: wal_holds_def Replay_def replayRecords_def)

lemma replayRecords_snoc: "replayRecords (recs @ [x]) = replayRecord (replayRecords recs) x"
  by (simp add: replayRecords_def)

lemma replayed_snoc:
  "replayed (recs @ [WALRecord_Entry e]) = placeEntry e (replayed recs)"
  "replayed (recs @ [WALRecord_TruncateIndex i]) = filter (\<lambda>e. Index e < i) (replayed recs)"
  "replayed (recs @ [WALRecord_State m]) = replayed recs"
  by (cases "replayRecords recs"; simp add: replayed_def replayRecords_snoc)+

text \<open>No write is going to fail.\<close>

definition quiet :: "raft \<Rightarrow> bool" where
  "quiet r \<longleftrightarrow> walOutcomes (env r) = [] \<and> resetOutcomes (env r) = [] \<and> saveOutcomes (env r) = []"

definition same_codec :: "raft \<Rightarrow> raft \<Rightarrow> bool" where
  "same_codec r r' \<longleftrightarrow> marshal (env r') = marshal (env r) \<and> unmarshal (env r') = unmarshal (env r)"

lemma wal_holds_write:
  assumes "wal_holds r recs" "quiet r" "can_store r rec"
  defines "s \<equiv> fst (wroteWal (writeRecord (marshal (env r)) (nextWrite r) (wal r) rec) r)"
  shows "wal_holds s (recs @ [rec])" "quiet s" "same_codec r s"
  using assms writeRecord_ok [of "marshal (env r)" "unmarshal (env r)" rec "wal r"]
  by (simp_all add: s_def wal_holds_def quiet_def same_codec_def wroteWal_def nextWrite_def next_or_def)

lemma wal_holds_cong:
  "wal r' = wal r \<Longrightarrow> env r' = env r \<Longrightarrow> wal_holds r' = wal_holds r"
  "env r' = env r \<Longrightarrow> quiet r' = quiet r"
  by (simp_all add: wal_holds_def quiet_def fun_eq_iff)

lemma placeEntry_fresh: "\<forall>x \<in> set es. Index x \<noteq> Index e \<Longrightarrow> placeEntry e es = es @ [e]"
  by (induction es) auto

lemma contiguous_Index_less: "contiguous b es \<Longrightarrow> x \<in> set es \<Longrightarrow> b < Index x \<and> Index x \<le> b + int (length es)"
  by (auto simp: contiguous_def in_set_conv_nth)

lemma placeEntry_next:
  "contiguous b es \<Longrightarrow> Index e = b + 1 + int (length es) \<Longrightarrow> placeEntry e es = es @ [e]"
  by (rule placeEntry_fresh) (use contiguous_Index_less in fastforce)

lemma truncate_contiguous:
  "contiguous b es \<Longrightarrow> filter (\<lambda>x. Index x < b + 1 + int p) es = take p es"
  by (rule filter_upto_eq_take) (simp add: contiguous_def)

section \<open>The log on disk\<close>

definition synced :: "raft \<Rightarrow> bool" where
  "synced r \<longleftrightarrow> (\<exists>recs. wal_holds r recs \<and> replayed recs = log r)"

lemma synced_appendLog:
  assumes "synced r" "quiet r" "wf_log r" "Index e = lastLogIndex r + 1" "can_store r (WALRecord_Entry e)"
  shows "synced (fst (appendLog e r))" "quiet (fst (appendLog e r))" "same_codec r (fst (appendLog e r))"
proof -
  let ?s = "r\<lparr>log := log r @ [e]\<rparr>"
  from assms(1) obtain recs where recs: "wal_holds r recs" "replayed recs = log r"
    by (auto simp: synced_def)
  have "wal_holds ?s recs" "quiet ?s" "can_store ?s (WALRecord_Entry e)"
    using recs(1) assms(2,5) wal_holds_cong [of ?s r] by simp_all
  note w = wal_holds_write [OF this]
  have a: "fst (appendLog e r) =
      fst (wroteWal (writeRecord (marshal (env ?s)) (nextWrite ?s) (wal ?s) (WALRecord_Entry e)) ?s)"
    by (simp add: appendLog_def walEntry_def AppendEntry_def)
  have "replayed (recs @ [WALRecord_Entry e]) = log r @ [e]"
    using assms(3,4) recs(2) by (simp add: replayed_snoc wf_log_def placeEntry_next lastLogIndex_eq)
  then show "synced (fst (appendLog e r))"
    using w(1) unfolding synced_def a by (intro exI [of _ "recs @ [WALRecord_Entry e]"]) (simp add: wroteWal_def)
  show "quiet (fst (appendLog e r))" "same_codec r (fst (appendLog e r))"
    using w(2,3) unfolding a by (simp_all add: same_codec_def)
qed

lemma synced_truncate:
  assumes "synced r" "quiet r" "wf_log r" "i = lastIncludedIndex r + 1 + int p" "can_store r (WALRecord_TruncateIndex i)"
  defines "s \<equiv> fst (walTruncate i (r\<lparr>log := take p (log r)\<rparr>))"
  shows "synced s" "quiet s" "same_codec r s"
proof -
  let ?s = "r\<lparr>log := take p (log r)\<rparr>"
  from assms(1) obtain recs where recs: "wal_holds r recs" "replayed recs = log r"
    by (auto simp: synced_def)
  have "wal_holds ?s recs" "quiet ?s" "can_store ?s (WALRecord_TruncateIndex i)"
    using recs(1) assms(2,5) wal_holds_cong [of ?s r] by simp_all
  note w = wal_holds_write [OF this]
  have a: "s = fst (wroteWal (writeRecord (marshal (env ?s)) (nextWrite ?s) (wal ?s) (WALRecord_TruncateIndex i)) ?s)"
    by (simp add: s_def walTruncate_def AppendTruncate_def)
  have "replayed (recs @ [WALRecord_TruncateIndex i]) = take p (log r)"
    using assms(3,4) recs(2) by (simp add: replayed_snoc wf_log_def truncate_contiguous)
  then show "synced s"
    using w(1) unfolding synced_def a by (intro exI [of _ "recs @ [WALRecord_TruncateIndex i]"]) (simp add: wroteWal_def)
  show "quiet s" "same_codec r s"
    using w(2,3) unfolding a by (simp_all add: same_codec_def)
qed

lemma synced_appendOne:
  assumes "synced r" "quiet r" "wf_log r" "p \<le> length (log r)" "Index e = lastIncludedIndex r + 1 + int p"
    and "can_store r (WALRecord_Entry e)" "can_store r (WALRecord_TruncateIndex (Index e))"
  shows "synced (appendOne r e)" "quiet (appendOne r e)" "same_codec r (appendOne r e)"
proof -
  have "synced (appendOne r e) \<and> quiet (appendOne r e) \<and> same_codec r (appendOne r e)"
  proof (cases "p < length (log r)")
    case False
    then have "appendOne r e = fst (appendLog e r)"
      using assms(3,4,5) by (simp add: appendOne_def lastLogIndex_eq)
    with synced_appendLog [OF assms(1,2,3) _ assms(6)] False assms(3,4,5) show ?thesis
      by (simp add: lastLogIndex_eq)
  next
    case True
    let ?t = "fst (walTruncate (Index e) (r\<lparr>log := take p (log r)\<rparr>))"
    have g: "getEntry r (Index e) = Some (log r ! p)"
      unfolding assms(5) using True by (rule getEntry_nth)
    have le: "Index e \<le> lastLogIndex r" "\<not> Index e \<le> lastIncludedIndex r"
      "nat (Index e - lastIncludedIndex r - 1) = p"
      using True assms(3,5) by (simp_all add: lastLogIndex_eq)
    have "appendOne r e = (if Term (log r ! p) \<noteq> Term e then fst (appendLog e ?t) else r)"
      by (simp add: appendOne_def g le Let_def)
    moreover have t: "synced ?t" "quiet ?t" "same_codec r ?t"
      by (rule synced_truncate [OF assms(1-3) assms(5,7)])+
    moreover have "wf_log ?t" "lastLogIndex ?t + 1 = Index e"
    proof -
      have "log ?t = take p (log r)" "lastIncludedIndex ?t = lastIncludedIndex r"
        by (simp_all add: walTruncate_def wroteWal_def)
      moreover from this have "wf_log ?t" using assms(3) by (simp add: wf_log_def contiguous_take)
      ultimately show "wf_log ?t" "lastLogIndex ?t + 1 = Index e"
        using True assms(5) by (simp_all add: lastLogIndex_eq)
    qed
    moreover have "can_store ?t (WALRecord_Entry e)"
      using assms(6) t(3) by (simp add: same_codec_def)
    ultimately show ?thesis
      using synced_appendLog [of ?t e] assms(1,2) by (auto simp: same_codec_def)
  qed
  then show "synced (appendOne r e)" "quiet (appendOne r e)" "same_codec r (appendOne r e)" by auto
qed

lemma synced_foldl:
  assumes "synced r" "quiet r" "wf_log r" "contiguous b es" "b \<le> lastLogIndex r"
    and "\<forall>e \<in> set es. can_store r (WALRecord_Entry e) \<and> can_store r (WALRecord_TruncateIndex (Index e))"
  shows "synced (foldl appendOne r es) \<and> quiet (foldl appendOne r es)"
  using assms
proof (induction es arbitrary: r b)
  case (Cons e es)
  show ?case
  proof (cases "Index e \<le> lastIncludedIndex r")
    case True
    then show ?thesis
      using Cons.IH [of r "b + 1"] Cons.prems lastLogIndex_eq [of r] by (simp add: appendOne_skip)
  next
    case False
    define p where "p = nat (Index e - lastIncludedIndex r - 1)"
    have p: "p \<le> length (log r)" "Index e = lastIncludedIndex r + 1 + int p"
      using False Cons.prems lastLogIndex_eq [of r] by (auto simp: p_def)
    note w = wf_log_appendOne [OF Cons.prems(3) p]
    note s = synced_appendOne [OF Cons.prems(1-3) p]
    have st: "synced (appendOne r e)" "quiet (appendOne r e)" "same_codec r (appendOne r e)"
      using s Cons.prems(6) by auto
    have "b + 1 \<le> lastLogIndex (appendOne r e)"
      using w(1,2) Cons.prems(4) p(2) by (simp add: lastLogIndex_eq)
    then show ?thesis
      using Cons.IH [OF st(1,2) w(1), of "b + 1"] Cons.prems(4,6) st(3) by (simp add: same_codec_def)
  qed
qed simp

section \<open>Restart\<close>

text \<open>The storage directory after a crash, and that its snapshot is the one the node works from.\<close>

definition filesAt :: "string \<Rightarrow> raft \<Rightarrow> filesystem" where
  "filesAt dir r = AList.update (dir @ ''/wal.log'') (contents (wal r)) (disk r)"

definition snapshot_current :: "raft \<Rightarrow> bool" where
  "snapshot_current r \<longleftrightarrow>
     (case LoadSnapshot (disk r) (snapshotPath r) of
        Inl e \<Rightarrow> False
      | Inr None \<Rightarrow> lastIncludedIndex r = 0 \<and> lastIncludedTerm r = 0
      | Inr (Some s) \<Rightarrow> snLastIncludedIndex s = lastIncludedIndex r \<and> snLastIncludedTerm s = lastIncludedTerm r)"

definition stored_in :: "string \<Rightarrow> raft \<Rightarrow> bool" where
  "stored_in dir r \<longleftrightarrow> snapshotPath r = dir @ ''/snapshot.json''"

lemma LoadSnapshot_filesAt: "stored_in dir r \<Longrightarrow> LoadSnapshot (filesAt dir r) (snapshotPath r) = LoadSnapshot (disk r) (snapshotPath r)"
  by (rule LoadSnapshot_cong) (simp add: filesAt_def stored_in_def update_conv')

lemma applyLogs_idle:
  assumes "lastApplied r = commitIndex r" "snapshotThreshold r \<le> 0"
  shows "log (applyLogs r) = log r" "lastIncludedIndex (applyLogs r) = lastIncludedIndex r"
    "lastIncludedTerm (applyLogs r) = lastIncludedTerm r" "votedFor (applyLogs r) = votedFor r"
    "kv (applyLogs r) = kv r" "dedupTable (applyLogs r) = dedupTable r"
  using assms by (simp_all add: applyLogs_def applyLoop.simps compact_def)

text \<open>The node that \<^verbatim>\<open>loadState\<close> has built when it calls \<^verbatim>\<open>applyLogs\<close>.\<close>

lemma NewRaft_files:
  assumes "stored_in dir r" "wal_holds r recs" "snapshot_current r" "replayRecords recs = (t, v, es)"
  shows "\<exists>r'. NewRaft (env r) None (filesAt dir r) nid ps dir 0 = Inr r' \<and>
    log r' = filter (\<lambda>e. lastIncludedIndex r < Index e) es \<and>
    lastIncludedIndex r' = lastIncludedIndex r \<and> lastIncludedTerm r' = lastIncludedTerm r \<and>
    currentTerm r' = (if t > 0 then t else 0) \<and> votedFor r' = (if t > 0 then v else []) \<and>
    commitIndex r' = lastIncludedIndex r"
proof -
  let ?w = "OpenWAL (map_of (filesAt dir r) (dir @ ''/wal.log''))"
  let ?f = "freshRaft (env r) (filesAt dir r) nid ps dir 0 ?w"
  have w: "?w = wal r" using assms(2) by (simp add: filesAt_def OpenWAL_def update_conv' wal_holds_def)
  have path: "snapshotPath r = dir @ ''/snapshot.json''" using assms(1) by (simp add: stored_in_def)
  have ls: "LoadSnapshot (filesAt dir r) (dir @ ''/snapshot.json'') = LoadSnapshot (disk r) (snapshotPath r)"
    using LoadSnapshot_filesAt [OF assms(1)] path by simp
  have rp: "Replay (unmarshal (env r)) (wal r) = Inr (t, v, es)"
    using Replay_wal_holds [OF assms(2)] assms(4) by simp
  obtain so where so: "LoadSnapshot (disk r) (snapshotPath r) = Inr so"
    using assms(3) by (auto simp: snapshot_current_def split: sum.splits)
  define r1 where "r1 = (case so of None \<Rightarrow> ?f\<lparr>kv := []\<rparr>
    | Some snap \<Rightarrow> restoreConfig snap (?f\<lparr>kv := KVState snap, dedupTable := DedupTable snap,
        lastIncludedIndex := snLastIncludedIndex snap, lastIncludedTerm := snLastIncludedTerm snap,
        commitIndex := snLastIncludedIndex snap, lastApplied := snLastIncludedIndex snap\<rparr>))"
  have r1: "lastIncludedIndex r1 = lastIncludedIndex r" "lastIncludedTerm r1 = lastIncludedTerm r"
    "commitIndex r1 = lastIncludedIndex r" "lastApplied r1 = lastIncludedIndex r" "log r1 = []"
    "currentTerm r1 = 0" "votedFor r1 = []" "wal r1 = wal r" "env r1 = env r" "snapshotThreshold r1 = 0"
    using assms(3) so
    by (auto simp: r1_def snapshot_current_def freshRaft_def w restoreConfig_def Let_def split: option.splits)
  define r3 where "r3 = (if t > 0 then r1\<lparr>currentTerm := t, votedFor := v\<rparr> else r1)
    \<lparr>log := filter (\<lambda>e. lastIncludedIndex r < Index e) es\<rparr>"
  have "loadState ?f = Inr (applyLogs r3)"
    using so rp r1 by (simp add: loadState_def freshRaft_def ls Let_def r3_def r1_def [symmetric, unfolded freshRaft_def])
  then have "NewRaft (env r) None (filesAt dir r) nid ps dir 0 = Inr (applyLogs r3)"
    by (simp add: NewRaft_def)
  moreover have "lastApplied r3 = commitIndex r3" "snapshotThreshold r3 \<le> 0"
    by (simp_all add: r3_def r1)
  from applyLogs_idle [OF this] have "log (applyLogs r3) = log r3"
    "lastIncludedIndex (applyLogs r3) = lastIncludedIndex r3"
    "lastIncludedTerm (applyLogs r3) = lastIncludedTerm r3" "votedFor (applyLogs r3) = votedFor r3"
    by auto
  ultimately show ?thesis by (simp add: r3_def r1)
qed

lemma synced_restart:
  assumes "stored_in dir r" "synced r" "snapshot_current r" "wf_log r"
  shows "\<exists>r'. NewRaft (env r) None (filesAt dir r) nid ps dir 0 = Inr r' \<and> log r' = log r \<and>
    lastIncludedIndex r' = lastIncludedIndex r \<and> lastIncludedTerm r' = lastIncludedTerm r"
proof -
  from assms(2) obtain recs where recs: "wal_holds r recs" "replayed recs = log r"
    by (auto simp: synced_def)
  obtain t v es where es: "replayRecords recs = (t, v, es)" by (cases "replayRecords recs") auto
  have "es = log r" using recs(2) es by (simp add: replayed_def)
  moreover have "filter (\<lambda>e. lastIncludedIndex r < Index e) (log r) = log r"
    using assms(4) contiguous_Index_less by (auto simp: wf_log_def filter_id_conv)
  ultimately show ?thesis
    using NewRaft_files [OF assms(1) recs(1) assms(3) es, of nid ps] by auto
qed

lemma advanceCommit_follower:
  assumes "state r \<noteq> Leader" "snapshotThreshold r \<le> 0"
  shows "log (advanceCommit n r) = log r" "wal (advanceCommit n r) = wal r" "env (advanceCommit n r) = env r"
    "disk (advanceCommit n r) = disk r" "snapshotPath (advanceCommit n r) = snapshotPath r"
    "lastIncludedIndex (advanceCommit n r) = lastIncludedIndex r"
    "lastIncludedTerm (advanceCommit n r) = lastIncludedTerm r"
  using assms
  by (simp_all add: advanceCommit_def applyLogs_def compact_def applyLoop_follower completeProposals_def emit_def)

lemma appendOne_path [simp]: "snapshotPath (appendOne r e) = snapshotPath r"
  by (simp add: appendOne_def node_defs Let_def split: option.split)

lemma foldl_appendOne_disk [simp]:
  "snapshotPath (foldl appendOne r es) = snapshotPath r" "disk (foldl appendOne r es) = disk r"
  by (induction es arbitrary: r) simp_all

lemma followLeader_path [simp]: "snapshotPath (followLeader t l r) = snapshotPath r"
  by (simp add: followLeader_def stepDownFor_def node_defs Let_def)

lemma synced_cong:
  "wal r' = wal r \<Longrightarrow> env r' = env r \<Longrightarrow> log r' = log r \<Longrightarrow> synced r' = synced r"
  using wal_holds_cong(1) [of r' r] by (simp add: synced_def)

lemma snapshot_current_cong:
  assumes "disk r' = disk r" "snapshotPath r' = snapshotPath r" "lastIncludedIndex r' = lastIncludedIndex r"
    "lastIncludedTerm r' = lastIncludedTerm r"
  shows "snapshot_current r' = snapshot_current r"
  unfolding snapshot_current_def assms ..

section \<open>Properties\<close>

text \<open>
  C14. What a follower acknowledges survives a crash: if the WAL agrees with the log before an
  AppendEntries request and no write fails, then after the request the node that is
  restarted from the files has exactly the log that was acknowledged. (Without compaction;
  \<open>compaction_loses_log_tail\<close> shows what compaction does.)
\<close>

theorem acknowledged_entries_durable:
  assumes "node_inv r" "wf_append req" "agrees_committed req r" "follows req r" "prevMatches req r"
    and "synced r" "quiet r" "snapshot_current r" "stored_in dir r" "snapshotThreshold r \<le> 0"
    and "\<forall>e \<in> set (Entries req). codec_ok (marshal (env r)) (unmarshal (env r)) (WALRecord_Entry e) \<and>
      codec_ok (marshal (env r)) (unmarshal (env r)) (WALRecord_TruncateIndex (Index e))"
  shows "let r' = fst (processAppendEntries req r)
    in \<exists>r''. NewRaft (env r') None (filesAt dir r') nid ps dir 0 = Inr r'' \<and> log r'' = log r' \<and>
      lastLogIndex r'' = MatchIndex (snd (processAppendEntries req r))"
proof -
  let ?f = "followLeader (aeTerm req) (aeLeaderId req) r" and ?a = "appended req r"
    and ?r = "fst (processAppendEntries req r)"
  have f: "synced ?f" "quiet ?f" "wf_log ?f" "PrevLogIndex req \<le> lastLogIndex ?f"
    using assms(1,5,6,7) synced_cong [of ?f r] wal_holds_cong(2) [of ?f r]
    by (simp_all add: node_inv_def wf_log_def prevMatches_def)
  have a: "synced ?a" unfolding appended_def
    using synced_foldl [OF f(1-3), of "PrevLogIndex req" "Entries req"] f(4) assms(2,11)
    by (simp add: wf_append_def)
  note app = appended_facts [OF assms(1-5)]
  have r: "?r = advanceCommit (LeaderCommit req) ?a"
    and m: "MatchIndex (snd (processAppendEntries req r)) = lastLogIndex ?r"
    using assms(4,5) by (simp_all add: processAppendEntries_match follows_def Let_def)
  have "snapshotThreshold ?a \<le> 0" using assms(10) by (simp add: appended_def)
  note k = advanceCommit_follower [OF app(2) this, of "LeaderCommit req"]
  have r': "synced ?r" "wf_log ?r"
    using a k synced_cong [of ?r ?a] app(1) unfolding r by (simp_all add: node_inv_def wf_log_def)
  moreover have "snapshot_current ?r" "stored_in dir ?r"
    using assms(8,9) k snapshot_current_cong [of ?r r] unfolding r
    by (simp_all add: stored_in_def appended_def)
  ultimately obtain r'' where r'': "NewRaft (env ?r) None (filesAt dir ?r) nid ps dir 0 = Inr r''"
    "log r'' = log ?r" "lastIncludedIndex r'' = lastIncludedIndex ?r"
    using synced_restart [of dir ?r nid ps] by auto
  with lastLogIndex_cong [of r'' ?r] show ?thesis by (auto simp: Let_def m)
qed

definition demo_dir_node :: raft where
  "demo_dir_node = demo_node\<lparr>wal := fst (writeRecord demo_marshal WriteOk
     (fst (writeRecord demo_marshal WriteOk (OpenWAL None) (WALRecord_Entry \<lparr>Index = 1, Term = 1, Command = []\<rparr>)))
     (WALRecord_Entry \<lparr>Index = 2, Term = 1, Command = []\<rparr>))\<rparr>"

lemma demo_dir_node_ok:
  "node_inv demo_dir_node" "agrees_committed demo_append demo_dir_node" "follows demo_append demo_dir_node"
  "prevMatches demo_append demo_dir_node" "quiet demo_dir_node" "snapshot_current demo_dir_node"
  "stored_in ''d'' demo_dir_node" "snapshotThreshold demo_dir_node \<le> 0"
  by (simp_all add: node_inv_def wf_log_def agrees_committed_def follows_def prevMatches_def quiet_def
      snapshot_current_def stored_in_def LoadSnapshot_def lastLogIndex_def getEntryTerm_def getEntry_def
      demo_dir_node_def demo_env_def demo_defs)

lemma demo_dir_node_env: "marshal (env demo_dir_node) = demo_marshal" "unmarshal (env demo_dir_node) = demo_unmarshal"
  by (simp_all add: demo_dir_node_def demo_env_def demo_defs)

lemma demo_dir_node_synced: "synced demo_dir_node"
proof -
  let ?e1 = "WALRecord_Entry \<lparr>Index = 1, Term = 1, Command = []\<rparr>"
    and ?e2 = "WALRecord_Entry \<lparr>Index = 2, Term = 1, Command = []\<rparr>"
  have ok: "codec_ok demo_marshal demo_unmarshal ?e1" "codec_ok demo_marshal demo_unmarshal ?e2"
    by (simp_all add: demo_codec_ok demo_small_def)
  have "wal demo_dir_node = writeAll demo_marshal (OpenWAL None) [?e1, ?e2]"
    by (simp add: demo_dir_node_def writeAll_def)
  then have "wal demo_dir_node = (OpenWAL None)\<lparr>contents := concat (map (framed demo_marshal) [?e1, ?e2])\<rparr>"
    using writeAll_contents [of "[?e1, ?e2]" demo_marshal demo_unmarshal "OpenWAL None"] ok
    by (simp add: OpenWAL_def)
  then have "wal_holds demo_dir_node [?e1, ?e2]"
    using ok by (simp add: wal_holds_def demo_dir_node_env OpenWAL_def)
  moreover have "replayed [?e1, ?e2] = log demo_dir_node"
    by (simp add: replayed_def replayRecords_def demo_dir_node_def demo_defs)
  ultimately show ?thesis unfolding synced_def by blast
qed

theorem acknowledged_entries_durable_witness:
  "\<exists>r''. NewRaft (env (fst (processAppendEntries demo_append demo_dir_node))) None
       (filesAt ''d'' (fst (processAppendEntries demo_append demo_dir_node))) ''n1'' [] ''d'' 0 = Inr r'' \<and>
     log r'' = log (fst (processAppendEntries demo_append demo_dir_node))"
proof -
  have "\<forall>e \<in> set (Entries demo_append).
      codec_ok (marshal (env demo_dir_node)) (unmarshal (env demo_dir_node)) (WALRecord_Entry e) \<and>
      codec_ok (marshal (env demo_dir_node)) (unmarshal (env demo_dir_node)) (WALRecord_TruncateIndex (Index e))"
    unfolding demo_dir_node_env by (simp add: demo_append_def demo_codec_ok demo_small_def)
  from acknowledged_entries_durable [OF demo_dir_node_ok(1) demo_append_ok(2) demo_dir_node_ok(2-4)
      demo_dir_node_synced demo_dir_node_ok(5-8) this, of "''n1''" "[]"]
  show ?thesis unfolding Let_def by blast
qed

text \<open>The files that a compaction leaves behind.\<close>

lemma takeSnapshot_files:
  assumes "quiet r" "clean_snapshot (snapshotOf r)"
    and "can_store r (WALRecord_State \<lparr>smTerm = currentTerm r, smVotedFor = votedFor r\<rparr>)"
  shows "wal_holds (takeSnapshot r) [WALRecord_State \<lparr>smTerm = currentTerm r, smVotedFor = votedFor r\<rparr>]"
    "snapshot_current (takeSnapshot r)" "same_codec r (takeSnapshot r)"
    "lastIncludedIndex (takeSnapshot r) = commitIndex r"
    "log (takeSnapshot r) = entriesFromTo r (commitIndex r + 1) (lastLogIndex r)"
proof -
  let ?rec = "WALRecord_State \<lparr>smTerm = currentTerm r, smVotedFor = votedFor r\<rparr>"
  define fs where "fs = fst (SaveSnapshot NoFault (disk r) (snapshotPath r) (snapshotOf r))"
  define r1 where "r1 = r\<lparr>disk := fs, env := (env r)\<lparr>saveOutcomes := []\<rparr>\<rparr>"
  define r2 where "r2 = r1\<lparr>lastIncludedIndex := commitIndex r, lastIncludedTerm := getEntryTerm r (commitIndex r),
    log := entriesFromTo r (commitIndex r + 1) (lastLogIndex r)\<rparr>"
  define r3 where "r3 = r2\<lparr>wal := \<lparr>contents = [], isOpen = True\<rparr>\<rparr>"
  have e: "walOutcomes (env r) = []" "saveOutcomes (env r) = []" "resetOutcomes (env r) = []"
    using assms(1) by (simp_all add: quiet_def)
  have s1: "saveSnap (snapshotOf r) r = (r1, None)"
    by (simp add: saveSnap_def Let_def e next_or_def r1_def fs_def) (simp add: SaveSnapshot_def Let_def)
  have "entriesFromTo r1 (commitIndex r1 + 1) (lastLogIndex r1) =
      entriesFromTo r (commitIndex r + 1) (lastLogIndex r)"
    by (simp add: r1_def entriesFromTo_def)
  then have r2: "r2 = r1\<lparr>lastIncludedIndex := snLastIncludedIndex (snapshotOf r),
      lastIncludedTerm := snLastIncludedTerm (snapshotOf r),
      log := entriesFromTo r1 (commitIndex r1 + 1) (lastLogIndex r1)\<rparr>"
    by (simp add: r2_def snapshotOf_def)
  have s3: "walReset r2 = (r3, None)"
    by (simp add: walReset_def r2_def r1_def e next_or_def Reset_def r3_def Let_def)
  have ts: "takeSnapshot r = fst (walState r3)"
    by (simp only: takeSnapshot_def Let_def s1 prod.case option.case r2 [symmetric] s3)
  have w3: "walState r3 = (r3\<lparr>wal := \<lparr>contents = framed (marshal (env r)) ?rec, isOpen = True\<rparr>\<rparr>, None)"
    using writeRecord_ok [OF assms(3), of "\<lparr>contents = [], isOpen = True\<rparr>"] e(1)
    by (simp add: walState_def wroteWal_def AppendState_def nextWrite_def next_or_def r3_def r2_def r1_def)
  have ts: "wal (takeSnapshot r) = \<lparr>contents = framed (marshal (env r)) ?rec, isOpen = True\<rparr>"
    "disk (takeSnapshot r) = fs" "marshal (env (takeSnapshot r)) = marshal (env r)"
    "unmarshal (env (takeSnapshot r)) = unmarshal (env r)"
    "lastIncludedIndex (takeSnapshot r) = commitIndex r"
    "lastIncludedTerm (takeSnapshot r) = getEntryTerm r (commitIndex r)"
    "log (takeSnapshot r) = entriesFromTo r (commitIndex r + 1) (lastLogIndex r)"
    unfolding ts w3 by (simp_all add: r3_def r2_def r1_def)
  show "wal_holds (takeSnapshot r) [?rec]" using assms(3) by (simp add: wal_holds_def ts)
  show "same_codec r (takeSnapshot r)" by (simp add: same_codec_def ts)
  have "map_of fs (snapshotPath r) = Some (encodeFile (snapshotOf r))"
    by (simp add: fs_def SaveSnapshot_def Let_def update_conv' delete_conv')
  from LoadSnapshot_encoded [OF assms(2) this] show "snapshot_current (takeSnapshot r)"
    by (simp add: snapshot_current_def ts sortSnapshot_def snapshotOf_def)
  show "lastIncludedIndex (takeSnapshot r) = commitIndex r"
    "log (takeSnapshot r) = entriesFromTo r (commitIndex r + 1) (lastLogIndex r)" by (rule ts)+
qed

text \<open>
  C34. Compaction is not crash-safe for the entries behind the snapshot: \<^verbatim>\<open>takeSnapshot\<close> empties
  the WAL and writes back only the term and the vote. Whenever entries above the commit
  index are in the log (a follower has acknowledged them, a leader counts itself for
  them), they are still in memory but a restart from the files comes up without them.
\<close>

theorem compaction_loses_log_tail:
  assumes "node_inv r" "commitIndex r < lastLogIndex r" "quiet r" "stored_in dir r"
    and "clean_snapshot (snapshotOf r)"
      "codec_ok (marshal (env r)) (unmarshal (env r))
         (WALRecord_State \<lparr>smTerm = currentTerm r, smVotedFor = votedFor r\<rparr>)"
  shows "lastLogIndex (takeSnapshot r) = lastLogIndex r \<and>
    (\<exists>r'. NewRaft (env (takeSnapshot r)) None (filesAt dir (takeSnapshot r)) nid ps dir 0 = Inr r' \<and>
       log r' = [] \<and> lastLogIndex r' < lastLogIndex r)"
proof -
  note f = takeSnapshot_files [OF assms(3,5,6)]
  have "compacted r (takeSnapshot r)"
    using assms(1) by (intro takeSnapshot_compacted) (auto simp: node_inv_def)
  from compacted_wf [OF this] assms(1) have l: "lastLogIndex (takeSnapshot r) = lastLogIndex r"
    by (simp add: node_inv_def)
  have "stored_in dir (takeSnapshot r)" using assms(4) by (simp add: stored_in_def)
  from NewRaft_files [OF this f(1,2), of "currentTerm r" "votedFor r" "[]" nid ps]
  obtain r' where "NewRaft (env (takeSnapshot r)) None (filesAt dir (takeSnapshot r)) nid ps dir 0 = Inr r'"
    "log r' = []" "lastIncludedIndex r' = commitIndex r"
    using f(4) by (auto simp: replayRecords_def)
  with l assms(2) show ?thesis by (simp add: lastLogIndex_def [of r'])
qed

definition demo_tail_node :: raft where
  "demo_tail_node = demo_dir_node\<lparr>commitIndex := 1, lastApplied := 1, votedFor := ''n2''\<rparr>"

theorem compaction_loses_log_tail_witness:
  "\<exists>r'. NewRaft (env (takeSnapshot demo_tail_node)) None (filesAt ''d'' (takeSnapshot demo_tail_node)) ''n1'' [] ''d'' 0
      = Inr r' \<and> log r' = [] \<and> lastLogIndex r' < lastLogIndex demo_tail_node"
proof -
  have "node_inv demo_tail_node" "commitIndex demo_tail_node < lastLogIndex demo_tail_node"
    "quiet demo_tail_node" "stored_in ''d'' demo_tail_node"
    by (simp_all add: demo_tail_node_def demo_dir_node_def demo_env_def demo_defs node_inv_def wf_log_def
        lastLogIndex_def quiet_def stored_in_def)
  moreover have "clean_snapshot (snapshotOf demo_tail_node)"
    by (simp add: clean_snapshot_def snapshotOf_def demo_tail_node_def demo_dir_node_def demo_defs
        getEntryTerm_def getEntry_def int64_def clean_map_def clean_dedup_def clean_config_def
        ConfigFromPeers_def copyMap_def clean_def byte_def sanitize.simps)
  moreover have "codec_ok (marshal (env demo_tail_node)) (unmarshal (env demo_tail_node))
      (WALRecord_State \<lparr>smTerm = currentTerm demo_tail_node, smVotedFor = votedFor demo_tail_node\<rparr>)"
    by (simp add: demo_tail_node_def demo_dir_node_def demo_env_def demo_defs demo_codec_ok demo_small_def)
  ultimately show ?thesis using compaction_loses_log_tail [of demo_tail_node "''d''" "''n1''" "[]"] by blast
qed

end
