(* ===== verification/Votes.thy ===== *)
theory Votes
  imports Recovery
begin

text \<open>
  Votes: when a node grants one, that the vote is on disk before the response and therefore
  binds the node after a restart, and that the term a node merely hears of is not.
\<close>

section \<open>Granting\<close>

definition grants :: "RequestVoteRequest \<Rightarrow> raft \<Rightarrow> bool" where
  "grants req r \<longleftrightarrow> currentTerm r \<le> rvTerm req \<and>
     (currentConfig r = None \<or> ContainsNode (currentConfig r) (CandidateId req)) \<and>
     logUpToDate req r \<and>
     (currentTerm r < rvTerm req \<or> votedFor r = [] \<or> votedFor r = CandidateId req)"

lemma logUpToDate_cong:
  "log r' = log r \<Longrightarrow> lastIncludedIndex r' = lastIncludedIndex r \<Longrightarrow>
   lastIncludedTerm r' = lastIncludedTerm r \<Longrightarrow> logUpToDate req r' = logUpToDate req r"
  by (simp add: logUpToDate_def lastLogTerm_def lastLogIndex_def)

lemma logUpToDate_follower [simp]: "logUpToDate req (transitionToFollower t r) = logUpToDate req r"
  by (rule logUpToDate_cong) simp_all

lemma processRequestVote_granted:
  assumes "grants req r"
  defines "s \<equiv> resetElectionTimer ((if rvTerm req > currentTerm r then transitionToFollower (rvTerm req) r else r)
    \<lparr>votedFor := CandidateId req\<rparr>)"
  shows "processRequestVote req r = (fst (walState s), \<lparr>rvrTerm = rvTerm req, VoteGranted = True\<rparr>)"
proof -
  have "currentTerm (fst (walState s)) = rvTerm req"
    using assms(1) by (simp add: s_def grants_def walState_def wroteWal_def resetElectionTimer_def)
  then show ?thesis
    using assms(1) by (auto simp: processRequestVote_def grants_def s_def Let_def)
qed

lemma processRequestVote_refused:
  assumes "\<not> grants req r"
  shows "\<not> VoteGranted (snd (processRequestVote req r)) \<and> wal (fst (processRequestVote req r)) = wal r \<and>
    log (fst (processRequestVote req r)) = log r \<and>
    rvrTerm (snd (processRequestVote req r)) = currentTerm (fst (processRequestVote req r))"
  using assms by (auto simp: processRequestVote_def grants_def Let_def)

section \<open>Properties\<close>


text \<open>
  A vote binds across crashes: if no write fails, the node that is restarted from the
  files after it has granted a vote is in the term of that vote and refuses every other
  candidate of that term.
\<close>

theorem granted_vote_survives_crash:
  assumes "grants req r" "0 < rvTerm req" "CandidateId req \<noteq> []"
    and "wal_holds r recs" "quiet r" "snapshot_current r" "stored_in dir r"
    and "codec_ok (marshal (env r)) (unmarshal (env r))
      (WALRecord_State \<lparr>smTerm = rvTerm req, smVotedFor = CandidateId req\<rparr>)"
  shows "let r' = fst (processRequestVote req r)
    in \<exists>r''. NewRaft (env r') None (filesAt dir r') nid ps dir 0 = Inr r'' \<and> currentTerm r'' = rvTerm req \<and>
      (\<forall>req2. VoteGranted (snd (processRequestVote req2 r'')) \<and> rvTerm req2 = rvTerm req
        \<longrightarrow> CandidateId req2 = CandidateId req)"
proof -
  let ?rec = "WALRecord_State \<lparr>smTerm = rvTerm req, smVotedFor = CandidateId req\<rparr>"
  define s where "s = resetElectionTimer ((if rvTerm req > currentTerm r then transitionToFollower (rvTerm req) r else r)
    \<lparr>votedFor := CandidateId req\<rparr>)"
  let ?r = "fst (processRequestVote req r)"
  have p: "processRequestVote req r = (fst (walState s), \<lparr>rvrTerm = rvTerm req, VoteGranted = True\<rparr>)"
    unfolding s_def by (rule processRequestVote_granted [OF assms(1)])
  have s: "wal s = wal r" "env s = env r" "currentTerm s = rvTerm req" "votedFor s = CandidateId req"
    "disk s = disk r" "snapshotPath s = snapshotPath r" "lastIncludedIndex s = lastIncludedIndex r"
    "lastIncludedTerm s = lastIncludedTerm r"
    using assms(1) by (auto simp: s_def grants_def resetElectionTimer_def transitionToFollower_def Let_def emit_def)
  have "wal_holds s recs" "quiet s" "can_store s ?rec"
    using assms(4,5,8) wal_holds_cong [of s r] s by simp_all
  from wal_holds_write(1) [OF this] have w: "wal_holds ?r (recs @ [?rec])"
    by (simp add: p walState_def AppendState_def s)
  have "snapshot_current ?r" "stored_in dir ?r"
    using assms(6,7) s snapshot_current_cong [of ?r r]
    by (simp_all add: p walState_def wroteWal_def stored_in_def)
  moreover obtain t v es where es: "replayRecords recs = (t, v, es)" by (cases "replayRecords recs") auto
  then have "replayRecords (recs @ [?rec]) = (rvTerm req, CandidateId req, es)"
    by (simp add: replayRecords_snoc)
  ultimately obtain r'' where r'': "NewRaft (env ?r) None (filesAt dir ?r) nid ps dir 0 = Inr r''"
    "currentTerm r'' = rvTerm req" "votedFor r'' = CandidateId req"
    using NewRaft_files [of dir ?r "recs @ [?rec]"] w assms(2) by (metis (no_types, lifting))
  have "CandidateId req2 = CandidateId req"
    if "VoteGranted (snd (processRequestVote req2 r''))" "rvTerm req2 = rvTerm req" for req2
  proof -
    have "grants req2 r''" using that(1) processRequestVote_refused by blast
    with that(2) r''(2,3) assms(3) show ?thesis by (auto simp: grants_def)
  qed
  with r'' show ?thesis by (auto simp: Let_def)
qed

definition demo_vote :: RequestVoteRequest where
  "demo_vote = \<lparr>rvTerm = 2, CandidateId = ''n3'', LastLogIndex = 2, LastLogTerm = 1\<rparr>"

theorem granted_vote_survives_crash_witness:
  "\<exists>r''. NewRaft (env (fst (processRequestVote demo_vote demo_node))) None
      (filesAt ''d'' (fst (processRequestVote demo_vote demo_node))) ''n1'' [] ''d'' 0 = Inr r'' \<and> currentTerm r'' = 2"
proof -
  have "grants demo_vote demo_node" "0 < rvTerm demo_vote" "CandidateId demo_vote \<noteq> []"
    "wal_holds demo_node []" "quiet demo_node" "snapshot_current demo_node" "stored_in ''d'' demo_node"
    by (simp_all add: grants_def demo_vote_def demo_defs demo_env_def logUpToDate_def lastLogTerm_def lastLogIndex_def
        ConfigFromPeers_def copyMap_def has_key_def wal_holds_def OpenWAL_def quiet_def snapshot_current_def
        LoadSnapshot_def stored_in_def)
  moreover have "codec_ok (marshal (env demo_node)) (unmarshal (env demo_node))
      (WALRecord_State \<lparr>smTerm = rvTerm demo_vote, smVotedFor = CandidateId demo_vote\<rparr>)"
    by (simp add: demo_defs demo_env_def demo_vote_def demo_codec_ok demo_small_def)
  ultimately have "\<exists>r''. NewRaft (env (fst (processRequestVote demo_vote demo_node))) None
      (filesAt ''d'' (fst (processRequestVote demo_vote demo_node))) ''n1'' [] ''d'' 0 = Inr r'' \<and>
      currentTerm r'' = rvTerm demo_vote"
    using granted_vote_survives_crash [of demo_vote demo_node "[]" "''d''" "''n1''" "[]"]
    unfolding Let_def by blast
  then show ?thesis by (simp add: demo_vote_def)
qed

text \<open>
  A term that a node adopts from a heartbeat is not persisted: \<^verbatim>\<open>transitionToFollower\<close> does
  not write to the WAL, so a node that is restarted after following a leader of a newer
  term comes up in the older term of its last vote.
\<close>

theorem adopted_term_lost_in_crash:
  assumes "currentTerm r < aeTerm req" "Entries req = []" "LeaderCommit req \<le> commitIndex r"
    and "wal_holds r recs" "replayRecords recs = (t, v, es)" "t \<le> currentTerm r" "0 \<le> currentTerm r"
      "snapshot_current r" "stored_in dir r"
  shows "let r' = fst (processAppendEntries req r)
    in currentTerm r' = aeTerm req \<and>
      (\<exists>r''. NewRaft (env r') None (filesAt dir r') nid ps dir 0 = Inr r'' \<and> currentTerm r'' < currentTerm r')"
proof -
  let ?f = "followLeader (aeTerm req) (aeLeaderId req) r" and ?r = "fst (processAppendEntries req r)"
  have r: "?r = ?f"
    using assms(1-3) by (auto simp: processAppendEntries_def Let_def advanceCommit_def)
  have "wal_holds ?f recs" "snapshot_current ?f" "stored_in dir ?f"
    using assms(4,8,9) wal_holds_cong(1) [of ?f r] snapshot_current_cong [of ?f r] by (simp_all add: stored_in_def)
  from NewRaft_files [OF this(3,1,2) assms(5), of nid ps] show ?thesis
    unfolding r Let_def using assms(1,6,7) by auto
qed

theorem adopted_term_lost_in_crash_witness:
  "\<exists>r''. NewRaft (env (fst (processAppendEntries (demo_append\<lparr>Entries := [], LeaderCommit := 0\<rparr>) demo_node))) None
      (filesAt ''d'' (fst (processAppendEntries (demo_append\<lparr>Entries := [], LeaderCommit := 0\<rparr>) demo_node)))
      ''n1'' [] ''d'' 0 = Inr r'' \<and>
    currentTerm r'' < currentTerm (fst (processAppendEntries (demo_append\<lparr>Entries := [], LeaderCommit := 0\<rparr>) demo_node))"
proof -
  let ?q = "demo_append\<lparr>Entries := [], LeaderCommit := 0\<rparr>"
  have "currentTerm demo_node < aeTerm ?q" "Entries ?q = []" "LeaderCommit ?q \<le> commitIndex demo_node"
    "wal_holds demo_node []" "replayRecords [] = (0, [], [])" "0 \<le> currentTerm demo_node"
    "snapshot_current demo_node" "stored_in ''d'' demo_node"
    by (simp_all add: demo_defs demo_env_def wal_holds_def OpenWAL_def replayRecords_def snapshot_current_def
        LoadSnapshot_def stored_in_def)
  then show ?thesis
    using adopted_term_lost_in_crash [of demo_node ?q "[]" 0 "[]" "[]" "''d''" "''n1''" "[]"]
    unfolding Let_def by blast
qed

end
