(* ===== verification/SnapTransfer.thy ===== *)
theory SnapTransfer
  imports Replication
begin

text \<open>
  Sending a snapshot to a follower in chunks and installing it, and what a snapshot that
  arrives late does to a follower that has moved on.
\<close>

section \<open>Chunks\<close>

definition feed :: "bytes \<Rightarrow> (int \<times> bytes \<times> bool) list \<Rightarrow> bytes" where
  "feed buf chunks = foldl (\<lambda>b c. bufferChunk (fst c) (fst (snd c)) b) buf chunks"

lemma chunksFrom_cases:
  "length rest \<le> chunkSize \<Longrightarrow> chunksFrom off rest = [(off, rest, True)]"
  "chunkSize < length rest \<Longrightarrow> chunksFrom off rest =
     (off, take chunkSize rest, False) # chunksFrom (off + int chunkSize) (drop chunkSize rest)"
  by (simp_all add: chunksFrom.simps [of off rest])

lemma chunkSize_pos [simp]: "0 < chunkSize"
  by (simp add: chunkSize_def)

lemma feed_chunksFrom:
  "off = 0 \<and> pre = [] \<or> 0 < off \<and> int (length buf) = off \<and> pre = buf \<Longrightarrow>
   feed buf (chunksFrom off rest) = pre @ rest"
proof (induction off rest arbitrary: buf pre rule: chunksFrom.induct)
  case (1 off rest)
  show ?case
  proof (cases "length rest \<le> chunkSize")
    case True
    then show ?thesis
      using "1.prems" by (auto simp: chunksFrom_cases feed_def bufferChunk_def Let_def)
  next
    case False
    let ?b = "bufferChunk off (take chunkSize rest) buf"
    have b: "?b = pre @ take chunkSize rest"
      using "1.prems" by (auto simp: bufferChunk_def Let_def)
    then have "feed ?b (chunksFrom (off + int chunkSize) (drop chunkSize rest)) = ?b @ drop chunkSize rest"
      using False "1.prems" by (intro "1.IH") auto
    then show ?thesis
      using False b by (simp add: chunksFrom_cases feed_def)
  qed
qed

text \<open>Exactly the last chunk is marked as the last.\<close>

lemma chunksFrom_done:
  "\<exists>cs c. chunksFrom off rest = cs @ [c] \<and> snd (snd c) \<and> (\<forall>x \<in> set cs. \<not> snd (snd x))"
proof (induction off rest rule: chunksFrom.induct)
  case (1 off rest)
  show ?case
  proof (cases "length rest \<le> chunkSize")
    case True
    then show ?thesis
      by (intro exI [of _ "[]"] exI [of _ "(off, rest, True)"]) (simp add: chunksFrom_cases)
  next
    case False
    then obtain cs c where "chunksFrom (off + int chunkSize) (drop chunkSize rest) = cs @ [c]"
      "snd (snd c)" "\<forall>x \<in> set cs. \<not> snd (snd x)"
      using "1.IH" by auto
    with False show ?thesis
      by (intro exI [of _ "(off, take chunkSize rest, False) # cs"] exI [of _ c]) (simp add: chunksFrom_cases)
  qed
qed

section \<open>Installing\<close>

text \<open>The requests of a transfer, as \<^verbatim>\<open>sendInstallSnapshot\<close> builds them.\<close>

definition chunkReq :: "int \<Rightarrow> string \<Rightarrow> int \<Rightarrow> int \<Rightarrow> int \<times> bytes \<times> bool \<Rightarrow> InstallSnapshotRequest" where
  "chunkReq t l li lt c = \<lparr>isTerm = t, isLeaderId = l, isLastIncludedIndex = li, isLastIncludedTerm = lt,
     Offset = fst c, Data = fst (snd c), Done = snd (snd c)\<rparr>"

definition receiveAll :: "InstallSnapshotRequest list \<Rightarrow> raft \<Rightarrow> raft" where
  "receiveAll reqs r = foldl (\<lambda>r req. fst (processInstallSnapshot req r)) r reqs"

lemma followLeader_again:
  "currentTerm r \<le> t \<Longrightarrow>
   followLeader t l ((followLeader t l r)\<lparr>snapshotBuf := b\<rparr>) = (followLeader t l r)\<lparr>snapshotBuf := b\<rparr>"
proof -
  assume "currentTerm r \<le> t"
  let ?f = "(followLeader t l r)\<lparr>snapshotBuf := b\<rparr>"
  have "stepDownFor t ?f = ?f"
    using \<open>currentTerm r \<le> t\<close> by (auto simp: stepDownFor_def followLeader_state Let_def)
  moreover have "votedFor ?f = l" "electionTimer ?f = Some True" by simp_all
  ultimately show ?thesis
    by (simp add: followLeader_def [of t l ?f] resetElectionTimer_def)
qed

lemma receive_middle:
  assumes "currentTerm r \<le> t" "\<not> snd (snd c)"
  shows "fst (processInstallSnapshot (chunkReq t l li lt c) ((followLeader t l r)\<lparr>snapshotBuf := b\<rparr>)) =
    (followLeader t l r)\<lparr>snapshotBuf := bufferChunk (fst c) (fst (snd c)) b\<rparr>"
  using assms followLeader_again [OF assms(1), of l b]
  by (simp add: processInstallSnapshot_def chunkReq_def Let_def)

lemma receive_chunks:
  assumes "currentTerm r \<le> t" "\<forall>x \<in> set cs. \<not> snd (snd x)"
  shows "receiveAll (map (chunkReq t l li lt) cs) ((followLeader t l r)\<lparr>snapshotBuf := b\<rparr>) =
    (followLeader t l r)\<lparr>snapshotBuf := feed b cs\<rparr>"
  using assms
  by (induction cs arbitrary: b) (simp_all add: receiveAll_def feed_def receive_middle)

lemma receive_last:
  assumes "currentTerm r \<le> t" "snd (snd c)" "UnmarshalSnapshot (bufferChunk (fst c) (fst (snd c)) b) = Some snap"
  shows "fst (processInstallSnapshot (chunkReq t l li lt c) ((followLeader t l r)\<lparr>snapshotBuf := b\<rparr>)) =
    (restoreSnapshot snap ((followLeader t l r)\<lparr>snapshotBuf := bufferChunk (fst c) (fst (snd c)) b\<rparr>))
      \<lparr>snapshotBuf := []\<rparr>"
  using assms followLeader_again [OF assms(1), of l b]
  by (simp add: processInstallSnapshot_def chunkReq_def Let_def)

lemma receive_first:
  assumes "currentTerm r \<le> t"
  shows "processInstallSnapshot (chunkReq t l li lt c) r =
    processInstallSnapshot (chunkReq t l li lt c) ((followLeader t l r)\<lparr>snapshotBuf := snapshotBuf r\<rparr>)"
  using assms followLeader_again [OF assms, of l "snapshotBuf r"]
  by (simp add: processInstallSnapshot_def chunkReq_def Let_def split: option.split)

lemma receive_transfer:
  assumes "currentTerm r \<le> t" "UnmarshalSnapshot data = Some snap"
  shows "receiveAll (map (chunkReq t l li lt) (chunksFrom 0 data)) r =
    (restoreSnapshot snap ((followLeader t l r)\<lparr>snapshotBuf := data\<rparr>))\<lparr>snapshotBuf := []\<rparr>"
proof -
  let ?f = "(followLeader t l r)\<lparr>snapshotBuf := snapshotBuf r\<rparr>"
  obtain cs c where ch: "chunksFrom 0 data = cs @ [c]" "snd (snd c)" "\<forall>x \<in> set cs. \<not> snd (snd x)"
    using chunksFrom_done by blast
  have "feed (snapshotBuf r) (cs @ [c]) = data"
    using feed_chunksFrom [of 0 "[]" "snapshotBuf r" data] by (simp add: ch(1))
  then have b: "bufferChunk (fst c) (fst (snd c)) (feed (snapshotBuf r) cs) = data"
    by (simp add: feed_def)
  have "receiveAll (map (chunkReq t l li lt) (cs @ [c])) r = receiveAll (map (chunkReq t l li lt) (cs @ [c])) ?f"
    using receive_first [OF assms(1), of l li lt] by (cases cs) (simp_all add: receiveAll_def)
  also have "\<dots> = fst (processInstallSnapshot (chunkReq t l li lt c)
      ((followLeader t l r)\<lparr>snapshotBuf := feed (snapshotBuf r) cs\<rparr>))"
    using receive_chunks [OF assms(1) ch(3), of l li lt] by (simp add: receiveAll_def)
  also have "\<dots> = (restoreSnapshot snap ((followLeader t l r)\<lparr>snapshotBuf := data\<rparr>))\<lparr>snapshotBuf := []\<rparr>"
    using receive_last [OF assms(1) ch(2), of "feed (snapshotBuf r) cs" snap l li lt] b assms(2) by simp
  finally show ?thesis by (simp add: ch(1))
qed

section \<open>Properties\<close>

text \<open>
  C19. Snapshot transfer: when a follower receives the chunks of a snapshot in order, in a
  term that is not older than its own, and can save it, it ends up with exactly the
  leader's key-value store and deduplication table, at the snapshot's index and term, with
  nothing of the transfer left over.
\<close>

theorem snapshot_transfer:
  assumes "clean_snapshot snap" "currentTerm r \<le> t" "saveOutcomes (env r) = []"
  shows "let r' = receiveAll (map (chunkReq t l li lt) (chunksFrom 0 (MarshalSnapshot snap))) r
    in map_of (kv r') = map_of (KVState snap) \<and> map_of (dedupTable r') = map_of (DedupTable snap) \<and>
       lastIncludedIndex r' = snLastIncludedIndex snap \<and> lastIncludedTerm r' = snLastIncludedTerm snap \<and>
       snLastIncludedIndex snap \<le> lastApplied r' \<and> currentTerm r' = t \<and> snapshotBuf r' = []"
proof -
  let ?s = "(followLeader t l r)\<lparr>snapshotBuf := MarshalSnapshot snap\<rparr>"
  have "saveOk (sortSnapshot snap) ?s"
    using assms(3) by (simp add: saveOk_def saveSnap_def Let_def next_or_def SaveSnapshot_def)
  note ok = restoreSnapshot_ok [OF this]
  have wf: "wf_map (KVState snap)" "wf_map (DedupTable snap)"
    using assms(1) by (auto simp: clean_snapshot_def clean_map_def clean_dedup_def)
  then show ?thesis
    using receive_transfer [OF assms(2) UnmarshalSnapshot_Marshal [OF assms(1)], of l li lt] ok assms(2) wf
    by (simp add: Let_def sortSnapshot_def map_of_sort_key)
qed

theorem snapshot_transfer_witness:
  "lastIncludedIndex (receiveAll (map (chunkReq 3 ''n2'' 7 2) (chunksFrom 0 (MarshalSnapshot
     (zeroSnapshot\<lparr>snLastIncludedIndex := 7, snLastIncludedTerm := 2\<rparr>)))) demo_node) = 7"
proof -
  have "clean_snapshot (zeroSnapshot\<lparr>snLastIncludedIndex := 7, snLastIncludedTerm := 2\<rparr>)"
    by (simp add: clean_snapshot_def zeroSnapshot_def clean_map_def clean_dedup_def int64_def)
  from snapshot_transfer [OF this, of demo_node 3 "''n2''" 7 2] show ?thesis
    by (simp add: Let_def demo_defs demo_env_def)
qed

text \<open>
  C35. A late snapshot rolls a follower's store back: nothing compares the index of a received
  snapshot with what the node has applied. A snapshot older than \<^verbatim>\<open>lastApplied\<close> (a second
  transfer to the same follower, started before the first one was acknowledged) replaces
  the store by the older one while \<^verbatim>\<open>lastApplied\<close> and \<^verbatim>\<open>commitIndex\<close> stay, and applying
  again up to the commit index does not bring the lost updates back.
\<close>

theorem late_snapshot_rolls_back_store:
  assumes "clean_snapshot snap" "currentTerm r \<le> t" "saveOutcomes (env r) = []"
    and "snLastIncludedIndex snap < lastApplied r" "lastApplied r = commitIndex r"
  shows "let r' = receiveAll (map (chunkReq t l li lt) (chunksFrom 0 (MarshalSnapshot snap))) r
    in map_of (kv r') = map_of (KVState snap) \<and> lastApplied r' = lastApplied r \<and>
       commitIndex r' = commitIndex r \<and> kv (applyLogs r') = kv r'"
proof -
  let ?s = "(followLeader t l r)\<lparr>snapshotBuf := MarshalSnapshot snap\<rparr>"
  let ?r = "receiveAll (map (chunkReq t l li lt) (chunksFrom 0 (MarshalSnapshot snap))) r"
  have "saveOk (sortSnapshot snap) ?s"
    using assms(3) by (simp add: saveOk_def saveSnap_def Let_def next_or_def SaveSnapshot_def)
  note ok = restoreSnapshot_ok [OF this]
  have wf: "wf_map (KVState snap)"
    using assms(1) by (auto simp: clean_snapshot_def clean_map_def)
  have r: "?r = (restoreSnapshot (sortSnapshot snap) ?s)\<lparr>snapshotBuf := []\<rparr>"
    by (rule receive_transfer [OF assms(2) UnmarshalSnapshot_Marshal [OF assms(1)]])
  have kept: "lastApplied ?r = lastApplied r" "commitIndex ?r = commitIndex r"
    unfolding r using ok(4,5) assms(4,5) by (simp_all add: sortSnapshot_def)
  have "kv (applyLogs ?r) = kv ?r"
    using kept assms(5) by (simp add: applyLogs_def applyLoop.simps)
  moreover have "map_of (kv ?r) = map_of (KVState snap)"
    unfolding r using ok(6) wf by (simp add: sortSnapshot_def map_of_sort_key)
  ultimately show ?thesis using kept by (simp add: Let_def)
qed

theorem late_snapshot_rolls_back_store_witness:
  "map_of (kv (receiveAll (map (chunkReq 1 ''n2'' 1 1) (chunksFrom 0 (MarshalSnapshot
      (zeroSnapshot\<lparr>snLastIncludedIndex := 1, snLastIncludedTerm := 1\<rparr>))))
      (demo_node\<lparr>kv := [(''k'', ''v'')], lastApplied := 2, commitIndex := 2\<rparr>))) ''k'' = None"
proof -
  let ?r = "demo_node\<lparr>kv := [(''k'', ''v'')], lastApplied := 2, commitIndex := 2\<rparr>"
  have "clean_snapshot (zeroSnapshot\<lparr>snLastIncludedIndex := 1, snLastIncludedTerm := 1\<rparr>)"
    by (simp add: clean_snapshot_def zeroSnapshot_def clean_map_def clean_dedup_def int64_def)
  from late_snapshot_rolls_back_store [OF this, of ?r 1 "''n2''" 1 1] show ?thesis
    by (simp add: Let_def demo_defs demo_env_def zeroSnapshot_def)
qed

end
