(* ===== verification/Reads.thy ===== *)
theory Reads
  imports NodeInv
begin

text \<open>
  The calls of a node that run outside its event loop (\<^verbatim>\<open>src/raft/raft.go\<close>): reads with their
  leadership check, the status report, and the entry points that hand a request to the event
  loop and wait for the answer. Such a call takes \<^verbatim>\<open>r.mu\<close> several times and the node may have
  moved on in between, so it is a function of the states of the node at the moments at which
  the call holds the lock, and of what arrives on the channels it waits on. The clock of a
  state is in \<open>env\<close>, in milliseconds.
\<close>

section \<open>The leadership check\<close>

text \<open>
  One round of the loop of \<^verbatim>\<open>confirmLeaderQuorum\<close>: a result of one peer, or the timer. After the
  timer the loop goes on: its \<^verbatim>\<open>break\<close> leaves the \<^verbatim>\<open>select\<close> only.
\<close>

datatype arrival = Result string bool | TimerFired

definition noteAck :: "arrival \<Rightarrow> (string, bool) gomap \<Rightarrow> (string, bool) gomap" where
  "noteAck a acks =
     (case a of
        Result peerID ok \<Rightarrow> (if ok then AList.update peerID True acks else acks)
      | TimerFired \<Rightarrow> acks)"

definition ackMajority :: "ClusterConfig option \<Rightarrow> string \<Rightarrow> nat \<Rightarrow> (string, bool) gomap \<Rightarrow> bool" where
  "ackMajority config self n acks =
     (case config of
        Some c \<Rightarrow> HasMajority (Some c) self acks
      | None \<Rightarrow> length acks \<ge> (n + 1) div 2 + 1)"

text \<open>The loop, and the test that is made once more behind it.\<close>

fun ackLoop :: "((string, bool) gomap \<Rightarrow> bool) \<Rightarrow> arrival list \<Rightarrow> (string, bool) gomap \<Rightarrow> bool" where
  "ackLoop majority [] acks = majority acks"
| "ackLoop majority (a # as) acks =
     (let acks' = noteAck a acks
      in if majority acks' then True else ackLoop majority as acks')"

text \<open>
  What the first locked section decides: leadership is lost, there is nobody to ask, or the
  peers are asked with a heartbeat that carries the leader's last entry as the previous one.
\<close>

definition readProbe :: "raft \<Rightarrow> int \<Rightarrow> string \<Rightarrow> AppendEntriesRequest result" where
  "readProbe r t peerID = sendAppendEntries r peerID t (lastLogIndex r) (lastLogTerm r) [] (commitIndex r)"

definition confirmLeaderQuorum :: "int \<Rightarrow> raft \<Rightarrow> arrival list \<Rightarrow> bool" where
  "confirmLeaderQuorum t r arrivals =
     (if state r \<noteq> Leader \<or> currentTerm r \<noteq> t then False
      else let allPeers = effectivePeers r
           in if allPeers = [] then True
              else ackLoop (ackMajority (currentConfig r) (raft_id r) (length allPeers))
                     (take (length allPeers) arrivals) (AList.update (raft_id r) True []))"

text \<open>A check that succeeds renews the lease, at the time at which it ends.\<close>

definition renewLease :: "bool \<Rightarrow> raft \<Rightarrow> raft" where
  "renewLease confirmed r =
     (if confirmed then r\<lparr>lastHeartbeatQuorum := Some (clock (env r))\<rparr> else r)"

fun waitForAppliedIndex :: "int \<Rightarrow> raft list \<Rightarrow> bool" where
  "waitForAppliedIndex readIndex [] = False"
| "waitForAppliedIndex readIndex (r # polls) =
     (if lastApplied r \<ge> readIndex then True else waitForAppliedIndex readIndex polls)"

section \<open>Reads\<close>

definition readKV :: "raft \<Rightarrow> string \<Rightarrow> string \<times> bool" where
  "readKV r key = (case map_of (kv r) key of Some v \<Rightarrow> (v, True) | None \<Rightarrow> ([], False))"

definition leaseValid :: "raft \<Rightarrow> bool" where
  "leaseValid r = (case lastHeartbeatQuorum r of None \<Rightarrow> False | Some t \<Rightarrow> clock (env r) - t < 250)"

text \<open>
  \<^verbatim>\<open>Get\<close>: the node at the first lock, at the lock of the leadership check, what the check
  receives, the states that the wait polls before its deadline, and the node at the last lock.
\<close>

definition Get :: "string \<Rightarrow> raft \<Rightarrow> raft \<Rightarrow> arrival list \<Rightarrow> raft list \<Rightarrow> raft \<Rightarrow> string \<times> bool \<times> bool" where
  "Get key r0 r1 arrivals polls r2 =
     (if state r0 \<noteq> Leader then ([], False, False)
      else
        let mode = (if readSafety r0 = [] then ''safe'' else readSafety r0)
        in if mode = ''local'' then (fst (readKV r0 key), snd (readKV r0 key), True)
           else if mode = ''lease'' \<and> leaseValid r0 then (fst (readKV r0 key), snd (readKV r0 key), True)
           else let readIndex = commitIndex r0; t = currentTerm r0
                in if \<not> confirmLeaderQuorum t r1 arrivals then ([], False, False)
                   else if \<not> waitForAppliedIndex readIndex polls then ([], False, False)
                   else if state r2 \<noteq> Leader \<or> currentTerm r2 \<noteq> t then ([], False, False)
                   else (fst (readKV r2 key), snd (readKV r2 key), True))"

section \<open>Status\<close>

record status =
  stNodeId :: string
  stRole :: string
  stTerm :: int
  stCommitIndex :: int
  stLastApplied :: int
  stLogLength :: int
  stVotedFor :: string
  stMembers :: "string list"
  stSize :: nat
  stJoint :: bool
  stPending :: bool

definition roleName :: "RaftState \<Rightarrow> string" where
  "roleName s = (case s of Leader \<Rightarrow> ''leader'' | Candidate \<Rightarrow> ''candidate'' | _ \<Rightarrow> ''follower'')"

definition memberMap :: "raft \<Rightarrow> (string, bool) gomap" where
  "memberMap r =
     (case currentConfig r of
        Some c \<Rightarrow> let m = markSeen [] (NewPeers c)
                  in if Joint c then markSeen m (OldPeers c) else m
      | None \<Rightarrow> markSeen (AList.update (raft_id r) True []) (peers r))"

definition GetStatus :: "raft \<Rightarrow> status" where
  "GetStatus r =
     (let ms = sort (map fst (memberMap r))
      in \<lparr>stNodeId = raft_id r, stRole = roleName (state r), stTerm = currentTerm r,
          stCommitIndex = commitIndex r, stLastApplied = lastApplied r, stLogLength = lastLogIndex r,
          stVotedFor = votedFor r, stMembers = ms, stSize = length ms,
          stJoint = (case currentConfig r of Some c \<Rightarrow> Joint c | None \<Rightarrow> False),
          stPending = (case currentConfig r of Some c \<Rightarrow> pendingConfig r | None \<Rightarrow> False)\<rparr>)"

section \<open>Entry points\<close>

text \<open>
  A request is put on a channel and its answer is taken from another; a gRPC handler gives up
  when its context ends or the node shuts down, a proposal only while it is being queued.
\<close>

datatype 'a waited = Ready 'a | CtxDone string | NodeShutdown

definition serveRPC :: "unit waited \<Rightarrow> 'a waited \<Rightarrow> 'a result" where
  "serveRPC queued answer =
     (case queued of
        CtxDone e \<Rightarrow> Inl e
      | NodeShutdown \<Rightarrow> Inl ''node is shutting down''
      | Ready _ \<Rightarrow>
          (case answer of
             Ready res \<Rightarrow> Inr res
           | CtxDone e \<Rightarrow> Inl e
           | NodeShutdown \<Rightarrow> Inl ''node is shutting down''))"

definition awaitPropose :: "bool \<Rightarrow> cmdResp \<Rightarrow> bool \<times> string option" where
  "awaitPropose queued res =
     (if queued then (success res, err res) else (False, Some ''node shutdown''))"

text \<open>
  \<^verbatim>\<open>ProposeWithClient\<close> and \<^verbatim>\<open>ProposeConfigChange\<close> with the answer of the event loop; \<open>queued\<close> is
  false if the node shuts down before the request is on its channel.
\<close>

definition proposeCommand ::
  "string \<Rightarrow> string \<Rightarrow> string \<Rightarrow> string \<Rightarrow> int \<Rightarrow> bool \<Rightarrow> (bytes \<Rightarrow> cmdResp) \<Rightarrow> bool \<times> string option" where
  "proposeCommand op key val clientID requestID queued answer =
     (case ProposeWithClient op key val clientID requestID of
        Inl e \<Rightarrow> (False, Some e)
      | Inr envelopeData \<Rightarrow> awaitPropose queued (answer envelopeData))"

definition ProposeConfigChange ::
  "ConfigChangeRequest \<Rightarrow> bool \<Rightarrow> (ConfigChangeRequest \<Rightarrow> cmdResp) \<Rightarrow> bool \<times> string option" where
  "ProposeConfigChange req queued answer = awaitPropose queued (answer req)"

definition connectToPeers :: "raft \<Rightarrow> raft \<times> string option" where
  "connectToPeers r = connectToPeersLocked r"

text \<open>\<^verbatim>\<open>Start\<close>: the event loop runs only if every peer could be dialled.\<close>

definition Start :: "raft \<Rightarrow> raft \<times> string option" where
  "Start r = (case connectToPeers r of (r1, Some e) \<Rightarrow> (r1, Some e) | (r1, None) \<Rightarrow> (startRun r1, None))"

section \<open>The loop collects real acknowledgements\<close>

definition acknowledged :: "string \<Rightarrow> arrival list \<Rightarrow> (string, bool) gomap \<Rightarrow> bool" where
  "acknowledged self as acks \<longleftrightarrow> (\<forall>k. get_bool acks k \<longrightarrow> k = self \<or> Result k True \<in> set as)"

lemma ackLoop_sound:
  assumes "ackLoop majority as acks" "acknowledged self (bs @ as) acks"
  shows "\<exists>acks'. majority acks' \<and> acknowledged self (bs @ as) acks'"
  using assms
proof (induction as arbitrary: acks bs)
  case (Cons a as)
  have n: "acknowledged self (bs @ a # as) (noteAck a acks)"
    using Cons.prems(2)
    by (auto simp: acknowledged_def noteAck_def get_bool_update split: arrival.split)
  show ?case
  proof (cases "majority (noteAck a acks)")
    case True
    with n show ?thesis by blast
  next
    case False
    with Cons.prems(1) have "ackLoop majority as (noteAck a acks)" by (simp add: Let_def)
    from Cons.IH [OF this, of "bs @ [a]"] n show ?thesis by simp
  qed
qed auto

lemma acknowledged_mono: "acknowledged self as acks \<Longrightarrow> set as \<subseteq> set bs \<Longrightarrow> acknowledged self bs acks"
  by (auto simp: acknowledged_def)

lemma acknowledged_self: "acknowledged self as (AList.update self True [])"
  by (simp add: acknowledged_def get_bool_update get_bool_def)

text \<open>What a successful check has seen.\<close>

lemma confirmLeaderQuorum_sound:
  assumes "confirmLeaderQuorum t r arrivals"
  shows "state r = Leader" "currentTerm r = t"
    "effectivePeers r \<noteq> [] \<Longrightarrow> \<exists>acks. acknowledged (raft_id r) arrivals acks \<and>
       ackMajority (currentConfig r) (raft_id r) (length (effectivePeers r)) acks"
proof -
  show "state r = Leader" "currentTerm r = t"
    using assms by (auto simp: confirmLeaderQuorum_def split: if_splits)
  let ?n = "length (effectivePeers r)"
  assume "effectivePeers r \<noteq> []"
  then have "ackLoop (ackMajority (currentConfig r) (raft_id r) ?n) (take ?n arrivals) (AList.update (raft_id r) True [])"
    using assms by (auto simp: confirmLeaderQuorum_def Let_def split: if_splits)
  from ackLoop_sound [OF this, of "raft_id r" "[]"] acknowledged_self [of "raft_id r"]
  obtain acks where "ackMajority (currentConfig r) (raft_id r) ?n acks"
    "acknowledged (raft_id r) (take ?n arrivals) acks" by auto
  then show "\<exists>acks. acknowledged (raft_id r) arrivals acks \<and> ackMajority (currentConfig r) (raft_id r) ?n acks"
    using acknowledged_mono [OF _ set_take_subset] by blast
qed

lemma waitForAppliedIndex_iff: "waitForAppliedIndex n polls \<longleftrightarrow> (\<exists>r \<in> set polls. n \<le> lastApplied r)"
  by (induction polls) auto

section \<open>Properties\<close>



text \<open>The node of the witness: it leads term 1 of a cluster of three, nothing is committed yet.\<close>

definition demo_reader :: raft where
  "demo_reader = demo_node\<lparr>state := Leader, kv := [(''k'', ''v'')]\<rparr>"


end
