(* ===== verification/Steady.thy ===== *)
theory Steady
  imports Timers
begin

text \<open>
  Nodes while the membership does not change: no log entry is a configuration change and the
  configuration has a fixed set \<open>M\<close> of members. Applying entries then never touches the
  configuration, the role or the vote of a node, so that elections can be followed on the
  four fields term, vote, role and received votes.
\<close>

section \<open>Entries that do not change the membership\<close>

definition plain_cmd :: "bytes \<Rightarrow> bool" where
  "plain_cmd d \<longleftrightarrow> d = [] \<or>
     (case DecodeLogEntry d of Inl e \<Rightarrow> True | Inr v \<Rightarrow> envType v \<noteq> EntryConfigChange)"

definition plain_log :: "LogEntry list \<Rightarrow> bool" where
  "plain_log es \<longleftrightarrow> (\<forall>e \<in> set es. plain_cmd (Command e))"

definition steady :: "string set \<Rightarrow> ClusterConfig \<Rightarrow> bool" where
  "steady M c \<longleftrightarrow> \<not> Joint c \<and> wf_map (NewPeers c) \<and> members (NewPeers c) = M \<and> odd (card M)"

definition steady_node :: "string set \<Rightarrow> raft \<Rightarrow> bool" where
  "steady_node M r \<longleftrightarrow> (\<exists>c. currentConfig r = Some c \<and> steady M c) \<and> plain_log (log r)"

lemma plain_log_simps [simp]:
  "plain_log []" "plain_log (e # es) \<longleftrightarrow> plain_cmd (Command e) \<and> plain_log es"
  "plain_log (xs @ ys) \<longleftrightarrow> plain_log xs \<and> plain_log ys"
  by (auto simp: plain_log_def)

lemma plain_log_sub: "plain_log es \<Longrightarrow> set fs \<subseteq> set es \<Longrightarrow> plain_log fs"
  by (auto simp: plain_log_def)

lemma plain_noop: "plain_cmd (json_print (jsonEnvelope EntryNoop None None))"
  using DecodeLogEntry_noop [of "json_print (jsonEnvelope EntryNoop None None)"]
  by (simp add: plain_cmd_def EncodeNoopEntry_def)

lemma plain_proposed:
  assumes "ProposeWithClient op key val cid rid = Inr cmd" "int64 rid"
  shows "plain_cmd cmd"
proof -
  let ?c = "\<lparr>Op = op, Key = key, Val = val, ClientID = cid, RequestID = rid\<rparr>"
  obtain bs d where "EncodeCommandEntry (MarshalCommand ?c) = Inr bs"
    "DecodeLogEntry bs = Inr \<lparr>envType = EntryCommand, envData = Some d, envConfig = None\<rparr>"
    by (rule DecodeLogEntry_command [of ?c]) (simp_all add: assms(2))
  with assms(1) show ?thesis by (simp add: ProposeWithClient_def plain_cmd_def)
qed

lemma plain_getEntry: "plain_log (log r) \<Longrightarrow> getEntry r idx = Some e \<Longrightarrow> plain_cmd (Command e)"
  by (auto simp: getEntry_def plain_log_def plain_cmd_def [of "[]"] Let_def split: if_splits)

lemma plain_entriesFromTo: "plain_log (log r) \<Longrightarrow> plain_log (entriesFromTo r a b)"
proof -
  assume plain: "plain_log (log r)"
  have "\<exists>i. getEntry r i = Some e" if "e \<in> set (entriesFromTo r a b)" for e
    using that by (auto simp: entriesFromTo_def List.map_filter_def)
  then show ?thesis
    unfolding plain_log_def [of "entriesFromTo r a b"] using plain_getEntry [OF plain] by blast
qed

section \<open>Applying plain entries\<close>

lemma applyEnvelope_plain:
  "envType v \<noteq> EntryConfigChange \<Longrightarrow> currentConfig (applyEnvelope v r) = currentConfig r \<and>
     log (applyEnvelope v r) = log r \<and> state (applyEnvelope v r) = state r \<and>
     votedFor (applyEnvelope v r) = votedFor r"
  by (simp add: applyEnvelope_def applyCommand_def split: option.split prod.split)

lemma applyNext_plain:
  assumes "plain_log (log r)"
  shows "currentConfig (applyNext r) = currentConfig r" "log (applyNext r) = log r"
    "state (applyNext r) = state r" "votedFor (applyNext r) = votedFor r"
proof -
  have b: "currentConfig (beginApply r) = currentConfig r" by (simp add: node_defs)
  have "currentConfig (applyNext r) = currentConfig r \<and> log (applyNext r) = log r \<and>
      state (applyNext r) = state r \<and> votedFor (applyNext r) = votedFor r"
  proof (cases "getEntry (beginApply r) (lastApplied (beginApply r))")
    case None
    then show ?thesis using b by (simp add: applyNext_def Let_def)
  next
    case (Some e)
    then have "plain_cmd (Command e)" using plain_getEntry [of "beginApply r"] assms by simp
    with Some b show ?thesis
      by (auto simp: applyNext_def Let_def plain_cmd_def applyEnvelope_plain split: sum.splits)
  qed
  then show "currentConfig (applyNext r) = currentConfig r" "log (applyNext r) = log r"
    "state (applyNext r) = state r" "votedFor (applyNext r) = votedFor r" by auto
qed

lemma applyLoop_plain:
  assumes "plain_log (log r)"
  shows "currentConfig (applyLoop r) = currentConfig r \<and> log (applyLoop r) = log r \<and>
    state (applyLoop r) = state r \<and> votedFor (applyLoop r) = votedFor r"
proof -
  let ?P = "\<lambda>s. currentConfig s = currentConfig r \<and> log s = log r \<and> state s = state r \<and> votedFor s = votedFor r"
  show ?thesis
    by (rule applyLoop_induct [of ?P]) (use assms in \<open>auto simp: applyNext_plain\<close>)
qed

lemma applyLogs_plain:
  assumes "plain_log (log r)"
  shows "currentConfig (applyLogs r) = currentConfig r" "state (applyLogs r) = state r"
    "votedFor (applyLogs r) = votedFor r" "plain_log (log (applyLogs r))"
proof -
  let ?s = "applyLoop r"
  have "plain_log (log (compact ?s))"
    using takeSnapshot_log [of ?s] applyLoop_plain [OF assms] assms plain_entriesFromTo [of ?s]
    by (auto simp: compact_def)
  then show "currentConfig (applyLogs r) = currentConfig r" "state (applyLogs r) = state r"
    "votedFor (applyLogs r) = votedFor r" "plain_log (log (applyLogs r))"
    using applyLoop_plain [OF assms] by (simp_all add: applyLogs_def)
qed

lemma advanceCommit_plain:
  assumes "plain_log (log r)"
  shows "currentConfig (advanceCommit n r) = currentConfig r" "state (advanceCommit n r) = state r"
    "votedFor (advanceCommit n r) = votedFor r" "plain_log (log (advanceCommit n r))"
  using assms by (simp_all add: advanceCommit_def applyLogs_plain)

lemma appendOne_plain: "plain_log (log r) \<Longrightarrow> plain_cmd (Command e) \<Longrightarrow> plain_log (log (appendOne r e))"
  by (auto simp: appendOne_def node_defs Let_def split: option.split intro: plain_log_sub dest: in_set_takeD)

lemma foldl_appendOne_plain:
  "plain_log (log r) \<Longrightarrow> plain_log es \<Longrightarrow> plain_log (log (foldl appendOne r es))"
  by (induction es arbitrary: r) (simp_all add: appendOne_plain)

lemma commitLoop_plain:
  assumes "plain_log (log r)"
  shows "currentConfig (foldl commitStep r ns) = currentConfig r \<and> state (foldl commitStep r ns) = state r \<and>
    votedFor (foldl commitStep r ns) = votedFor r \<and> plain_log (log (foldl commitStep r ns)) \<and>
    currentTerm (foldl commitStep r ns) = currentTerm r \<and> raft_id (foldl commitStep r ns) = raft_id r \<and>
    votesReceived (foldl commitStep r ns) = votesReceived r"
  using assms
proof (induction ns arbitrary: r)
  case (Cons n ns)
  have "plain_log (log (commitStep r n))" "currentConfig (commitStep r n) = currentConfig r"
    "state (commitStep r n) = state r" "votedFor (commitStep r n) = votedFor r"
    "currentTerm (commitStep r n) = currentTerm r" "raft_id (commitStep r n) = raft_id r"
    "votesReceived (commitStep r n) = votesReceived r"
    using Cons.prems by (simp_all add: commitStep_def applyLogs_plain)
  with Cons.IH [of "commitStep r n"] show ?case by simp
qed simp

section \<open>Every event keeps a steady node steady\<close>

definition steady_snapshot :: "string set \<Rightarrow> Snapshot \<Rightarrow> bool" where
  "steady_snapshot M s \<longleftrightarrow> (case snClusterConfig s of None \<Rightarrow> True | Some c \<Rightarrow> steady M c)"

definition plain_event :: "string set \<Rightarrow> event \<Rightarrow> raft \<Rightarrow> bool" where
  "plain_event M ev r \<longleftrightarrow>
     (case ev of
        Rpc (appendEntriesMsg m) \<Rightarrow> plain_log (Entries m)
      | Rpc (installSnapshotMsg m) \<Rightarrow>
          (case completedSnapshot m r of None \<Rightarrow> True | Some s \<Rightarrow> steady_snapshot M s)
      | ClientCmd cmd ch \<Rightarrow> plain_cmd cmd
      | ConfigChange req ch \<Rightarrow> False
      | _ \<Rightarrow> True)"

lemma steady_cong:
  "currentConfig r' = currentConfig r \<Longrightarrow> plain_log (log r') \<Longrightarrow> steady_node M r \<Longrightarrow> steady_node M r'"
  by (auto simp: steady_node_def)

lemma steady_plain: "steady_node M r \<Longrightarrow> plain_log (log r)"
  by (simp add: steady_node_def)

lemma plain_transitionToLeader: "plain_log (log r) \<Longrightarrow> plain_log (log (transitionToLeader r))"
  using plain_noop
  by (simp add: transitionToLeader_def EncodeNoopEntry_def node_defs Let_def split: option.split)

lemma steady_transitionToLeader: "steady_node M r \<Longrightarrow> steady_node M (transitionToLeader r)"
  by (rule steady_cong) (auto intro: plain_transitionToLeader dest: steady_plain)

lemma steady_transitionToCandidate: "steady_node M r \<Longrightarrow> steady_node M (transitionToCandidate r)"
proof -
  assume "steady_node M r"
  then have "steady_node M (asCandidate r)" by (simp add: steady_node_def)
  then show ?thesis
    unfolding transitionToCandidate_eq
    by (auto simp: startElection_def Let_def steady_transitionToLeader)
      (simp add: steady_node_def emit_def)
qed

lemma steady_update:
  "steady_node M (r\<lparr>preVoteVotesReceived := v\<rparr>) = steady_node M r"
  "steady_node M (r\<lparr>votesReceived := v\<rparr>) = steady_node M r"
  "steady_node M (emit es r) = steady_node M r" "steady_node M (resetElectionTimer r) = steady_node M r"
  "steady_node M (r\<lparr>electionTimer := armed\<rparr>) = steady_node M r"
  "steady_node M (transitionToFollower t r) = steady_node M r"
  "steady_node M (followLeader t' l r) = steady_node M r"
  "steady_node M (r\<lparr>snapshotBuf := b\<rparr>) = steady_node M r"
  by (simp_all add: steady_node_def emit_def resetElectionTimer_def)

lemma steady_timer: "steady_node M r \<Longrightarrow> steady_node M (electionTimerFired r)"
  by (simp add: electionTimerFired_def startPreVote_def Let_def steady_update steady_transitionToCandidate)

lemma steady_restore:
  assumes "steady_node M r" "steady_snapshot M snap"
  shows "steady_node M (restoreSnapshot snap r)"
proof (cases "saveOk snap r")
  case False
  then show ?thesis
    using assms(1) by (auto simp: saveOk_def restoreSnapshot_def saveSnap_def Let_def steady_node_def split: option.split)
next
  case True
  have "plain_log (log (restoreSnapshot snap r))"
    unfolding restoreSnapshot_ok(1) [OF True] by (rule plain_entriesFromTo) (rule steady_plain [OF assms(1)])
  moreover have "currentConfig (restoreSnapshot snap r) = (case snClusterConfig snap of None \<Rightarrow> currentConfig r
      | Some c \<Rightarrow> Some \<lparr>OldPeers = copyMap (OldPeers c), NewPeers = copyMap (NewPeers c),
          OldHTTP = copyMap (OldHTTP c), NewHTTP = copyMap (NewHTTP c), Joint = Joint c\<rparr>)"
    using True by (simp add: saveOk_def restoreSnapshot_def restoreConfig_def node_defs Let_def split: option.split)
  ultimately show ?thesis
    using assms by (auto simp: steady_node_def steady_snapshot_def steady_def split: option.splits)
qed

lemma steady_rpc:
  assumes "steady_node M r" "plain_event M (Rpc m) r"
  shows "steady_node M (fst (handleRPC m r))"
proof (cases m)
  case (appendEntriesMsg req)
  let ?f = "followLeader (aeTerm req) (aeLeaderId req) r"
  have "plain_log (log (foldl appendOne ?f (Entries req)))"
    using assms by (intro foldl_appendOne_plain) (auto simp: appendEntriesMsg plain_event_def dest: steady_plain)
  then have "steady_node M (advanceCommit n (foldl appendOne ?f (Entries req)))" for n
    by (intro steady_cong [OF _ _ assms(1)]) (simp_all add: advanceCommit_plain)
  then show ?thesis
    using assms(1) by (simp add: appendEntriesMsg processAppendEntries_def Let_def steady_update)
next
  case (installSnapshotMsg req)
  let ?r2 = "(followLeader (isTerm req) (isLeaderId req) r)\<lparr>snapshotBuf :=
    bufferChunk (Offset req) (Data req) (snapshotBuf r)\<rparr>"
  have "steady_node M (restoreSnapshot snap ?r2)" if "completedSnapshot req r = Some snap" for snap
    using that assms by (intro steady_restore) (auto simp: installSnapshotMsg plain_event_def steady_update)
  then show ?thesis
    using assms(1)
    by (auto simp: installSnapshotMsg processInstallSnapshot_def Let_def steady_update completedSnapshot_def
        split: option.split)
next
  case (requestVoteMsg req)
  then show ?thesis
    using assms(1) by (auto simp: processRequestVote_def Let_def steady_node_def node_defs)
next
  case (appendRespMsg p am)
  have "steady_node M (foldl commitStep s ns)" if "steady_node M s" for s ns
    using that commitLoop_plain [OF steady_plain [OF that], of ns] steady_cong [of "foldl commitStep s ns" s] by blast
  moreover have "steady_node M (trimProposalTime (observeLag q a b (r\<lparr>matchIndex := x, nextIndex := y\<rparr>)))" for q a b x y
    using assms(1) by (simp add: steady_node_def trimProposalTime_def observeLag_def emit_def)
  moreover have "steady_node M (emit [GoReplicateToPeer p] (r\<lparr>nextIndex := x\<rparr>))" for x
    using assms(1) by (simp add: steady_node_def emit_def)
  ultimately show ?thesis
    using assms(1) by (simp add: appendRespMsg processAppendEntriesResponse_def Let_def steady_update)
next
  case (snapshotRespMsg p sm)
  then show ?thesis
    using assms(1) by (simp add: processInstallSnapshotResponse_def steady_node_def node_defs Let_def)
qed (use assms(1) in \<open>simp_all add: processPreVoteResponse_def processRequestVoteResponse_def Let_def
      steady_update steady_transitionToCandidate steady_transitionToLeader\<close>)

lemma steady_event:
  assumes "steady_node M r" "plain_event M ev r"
  shows "steady_node M (handleEvent ev r)"
proof (cases ev)
  case (ClientCmd cmd ch)
  let ?s = "clientAppended cmd ch r"
  have p: "plain_log (log ?s)" using assms by (auto simp: ClientCmd plain_event_def dest: steady_plain)
  then have "steady_node M ?s" by (intro steady_cong [OF _ _ assms(1)]) simp_all
  moreover from p have "steady_node M (applyLogs (?s\<lparr>commitIndex := n\<rparr>))" for n
    by (intro steady_cong [OF _ _ assms(1)]) (simp_all add: applyLogs_plain)
  moreover have "steady_node M (respond c b e x)" if "steady_node M x" for c b e x
    using that by (simp add: steady_node_def)
  moreover have "steady_node M (fst (appendLog \<lparr>Index = i, Term = t, Command = cmd\<rparr> r))" for i t
    using assms by (simp add: ClientCmd plain_event_def steady_node_def)
  ultimately show ?thesis
    using assms(1) by (simp add: ClientCmd handleClientCommand_cases Let_def split: option.split)
next
  case (ConfigChange req ch)
  with assms(2) show ?thesis by (simp add: plain_event_def)
next
  case (Rpc m)
  then show ?thesis using steady_rpc assms by simp
qed (use assms(1) in \<open>simp_all add: steady_timer heartbeatTick_def replicateToPeer_def broadcastHeartbeats_def
      Let_def steady_update\<close>)

end
