(* ===== verification/Ballots.thy ===== *)
theory Ballots
  imports Steady
begin

text \<open>
  The election argument for one node of a cluster with a steady membership of odd size. It
  keeps a history of votes: \<open>V i t\<close> is the candidate that node \<open>i\<close> first voted for in term \<open>t\<close>,
  and \<open>L\<close> is the set of all leaders so far with their terms. Every handler of the node
  model is shown to extend the history consistently; the cluster itself is in theory
  \<open>Cluster\<close>.
\<close>

section \<open>Quorums of a member set\<close>

definition member_quorum :: "string set \<Rightarrow> string \<Rightarrow> (string, bool) gomap \<Rightarrow> bool" where
  "member_quorum M s v \<longleftrightarrow> (\<exists>c. steady M c \<and> HasMajority (Some c) s v)"

lemma member_quorum_card:
  assumes "member_quorum M s v"
  shows "finite M \<and> card M < 2 * card (M \<inter> voters_of v)"
proof -
  from assms obtain c where c: "steady M c" "sideMajority s v (NewPeers c)"
    by (auto simp: member_quorum_def split: if_splits)
  then have "odd (length (NewPeers c))" using members_card [of "NewPeers c"] by (simp add: steady_def)
  with c sideMajority_odd [of "NewPeers c" s v] show ?thesis by (auto simp: steady_def)
qed

interpretation memq: quorum_test "member_quorum M" for M
proof
  fix s v s' v' assume "member_quorum M s v" "member_quorum M s' v'"
  from member_quorum_card [OF this(1)] member_quorum_card [OF this(2)]
  have "(M \<inter> voters_of v) \<inter> (M \<inter> voters_of v') \<noteq> {}"
    by (intro large_subsets_meet [of M]) auto
  then show "\<exists>i. get_bool v i \<and> get_bool v' i" by (auto simp: voters_of_def)
qed

section \<open>The history of votes\<close>

type_synonym vote_history = "string \<Rightarrow> int \<Rightarrow> string option"
type_synonym leader_history = "(int \<times> string) set"

definition vote_ok :: "vote_history \<Rightarrow> leader_history \<Rightarrow> string \<Rightarrow> raft \<Rightarrow> bool" where
  "vote_ok V L i r \<longleftrightarrow>
     votedFor r = [] \<and> V i (currentTerm r) = None \<or> V i (currentTerm r) = Some (votedFor r) \<or>
     (currentTerm r, votedFor r) \<in> L"

definition ballots_ok :: "vote_history \<Rightarrow> leader_history \<Rightarrow> string \<Rightarrow> raft \<Rightarrow> bool" where
  "ballots_ok V L i r \<longleftrightarrow> (state r = Candidate \<longrightarrow> (\<forall>k. get_bool (votesReceived r) k \<longrightarrow>
     V k (currentTerm r) = Some i \<or> (currentTerm r, i) \<in> L))"

definition local_ok :: "string set \<Rightarrow> vote_history \<Rightarrow> leader_history \<Rightarrow> string \<Rightarrow> raft \<Rightarrow> bool" where
  "local_ok M V L i r \<longleftrightarrow> raft_id r = i \<and> steady_node M r \<and>
     (\<forall>t c. V i t = Some c \<longrightarrow> t \<le> currentTerm r \<and> c \<in> M) \<and>
     vote_ok V L i r \<and> ballots_ok V L i r \<and> (state r = Leader \<longrightarrow> (currentTerm r, i) \<in> L)"

definition glob_ok :: "string set \<Rightarrow> vote_history \<Rightarrow> leader_history \<Rightarrow> bool" where
  "glob_ok M V L \<longleftrightarrow> (\<forall>t l. (t, l) \<in> L \<longrightarrow> l \<in> M \<and>
     (\<exists>v. member_quorum M l v \<and> (\<forall>k. get_bool v k \<longrightarrow> V k t = Some l)))"

text \<open>The history after a step of node \<open>i\<close>: nothing is forgotten, only \<open>i\<close> casts a vote.\<close>

definition later :: "string \<Rightarrow> vote_history \<Rightarrow> leader_history \<Rightarrow> vote_history \<Rightarrow> leader_history \<Rightarrow> bool" where
  "later i V L V' L' \<longleftrightarrow> (\<forall>k. k \<noteq> i \<longrightarrow> V' k = V k) \<and> (\<forall>k t c. V k t = Some c \<longrightarrow> V' k t = Some c) \<and> L \<subseteq> L'"

lemma later_refl [simp]: "later i V L V L"
  by (simp add: later_def)

lemma later_trans: "later i V L V' L' \<Longrightarrow> later i V' L' V'' L'' \<Longrightarrow> later i V L V'' L''"
  by (auto simp: later_def)

lemma local_ok_other:
  assumes "local_ok M V L k r" "later i V L V' L'" "k \<noteq> i"
  shows "local_ok M V' L' k r"
proof -
  have l: "V' k = V k" "\<And>j t c. V j t = Some c \<Longrightarrow> V' j t = Some c" "\<And>x. x \<in> L \<Longrightarrow> x \<in> L'"
    using assms(2,3) by (auto simp: later_def)
  have "vote_ok V' L' k r" "ballots_ok V' L' k r" "state r = Leader \<longrightarrow> (currentTerm r, k) \<in> L'"
    using assms(1) l unfolding local_ok_def vote_ok_def ballots_ok_def by metis+
  with assms(1) l(1) show ?thesis by (simp add: local_ok_def)
qed

lemma leader_history_unique:
  assumes "glob_ok M V L" "(t, l) \<in> L" "(t, l') \<in> L"
  shows "l = l'"
proof -
  have "\<exists>v. member_quorum M x v \<and> (\<forall>k. get_bool v k \<longrightarrow> V k t = Some x)" if "(t, x) \<in> L" for x
    using that assms(1) by (simp add: glob_ok_def)
  from this [OF assms(2)] this [OF assms(3)] obtain v v'
    where v: "member_quorum M l v" "\<forall>k. get_bool v k \<longrightarrow> V k t = Some l"
      "member_quorum M l' v'" "\<forall>k. get_bool v' k \<longrightarrow> V k t = Some l'" by auto
  have "Some l = Some l'"
    by (rule memq.one_vote_each_unique [OF v(1,3), of "\<lambda>k. V k t"]) (use v(2,4) in auto)
  then show ?thesis by simp
qed

section \<open>Steps of one node\<close>

definition same_view :: "raft \<Rightarrow> raft \<Rightarrow> bool" where
  "same_view r r' \<longleftrightarrow> raft_id r' = raft_id r \<and> currentTerm r' = currentTerm r \<and> votedFor r' = votedFor r \<and>
     state r' = state r \<and> votesReceived r' = votesReceived r"

lemma local_ok_same: "local_ok M V L i r \<Longrightarrow> same_view r r' \<Longrightarrow> steady_node M r' \<Longrightarrow> local_ok M V L i r'"
  by (simp add: local_ok_def vote_ok_def ballots_ok_def same_view_def)

lemma fresh_term: "local_ok M V L i r \<Longrightarrow> currentTerm r < t \<Longrightarrow> V i t = None"
  by (cases "V i t") (fastforce simp: local_ok_def)+

lemma local_ok_follower:
  assumes "local_ok M V L i r" "currentTerm r < t"
  shows "local_ok M V L i (transitionToFollower t r)"
  using assms fresh_term [OF assms]
  by (force simp: local_ok_def vote_ok_def ballots_ok_def steady_update)

lemma local_ok_followLeader:
  assumes "local_ok M V L i r" "currentTerm r \<le> t" "(t, l) \<in> L"
  shows "local_ok M V L i (followLeader t l r)"
  using assms
  by (force simp: local_ok_def vote_ok_def ballots_ok_def steady_update followLeader_state)

text \<open>
  What a step of node \<open>i\<close> to state \<open>r'\<close> must provide: that it casts no vote, or that it casts at most
  the vote that \<open>r'\<close> remembers (and none unless \<open>b\<close>).
\<close>

definition keeps :: "string set \<Rightarrow> vote_history \<Rightarrow> leader_history \<Rightarrow> string \<Rightarrow> raft \<Rightarrow> bool" where
  "keeps M V L i r' \<longleftrightarrow> (\<exists>L'. L \<subseteq> L' \<and> local_ok M V L' i r' \<and> glob_ok M V L')"

definition castVote :: "string \<Rightarrow> int \<Rightarrow> string \<Rightarrow> vote_history \<Rightarrow> vote_history" where
  "castVote i t c V = V(i := (V i)(t := Some c))"

definition moves :: "string set \<Rightarrow> vote_history \<Rightarrow> leader_history \<Rightarrow> string \<Rightarrow> raft \<Rightarrow> bool \<Rightarrow> bool" where
  "moves M V L i r' b \<longleftrightarrow> keeps M V L i r' \<or>
     b \<and> V i (currentTerm r') = None \<and> keeps M (castVote i (currentTerm r') (votedFor r') V) L i r'"

lemma later_castVote: "V i t = None \<Longrightarrow> later i V L (castVote i t c V) L"
  by (auto simp: later_def castVote_def)

lemma keepsI: "local_ok M V L i r' \<Longrightarrow> glob_ok M V L \<Longrightarrow> keeps M V L i r'"
  unfolding keeps_def by blast

lemma keeps_moves: "keeps M V L i r' \<Longrightarrow> moves M V L i r' b"
  by (simp add: moves_def)

lemma voteMajority_quorum:
  "steady_node M r \<Longrightarrow> voteMajority v r \<Longrightarrow> member_quorum M (raft_id r) v"
  by (auto simp: steady_node_def voteMajority_def member_quorum_def simp del: HasMajority.simps)

lemma keeps_leader:
  assumes "local_ok M V L i r" "glob_ok M V L" "i \<in> M" "state r = Candidate"
    and "member_quorum M i (votesReceived r)"
  shows "keeps M V L i (transitionToLeader r)"
proof -
  let ?t = "currentTerm r"
  let ?L = "insert (?t, i) L"
  have b: "(?t, i) \<in> L \<or> (\<forall>k. get_bool (votesReceived r) k \<longrightarrow> V k ?t = Some i)"
    using assms(1,4) by (auto simp: local_ok_def ballots_ok_def)
  have "glob_ok M V ?L"
  proof (cases "(?t, i) \<in> L")
    case True
    with assms(2) show ?thesis by (simp add: insert_absorb)
  next
    case False
    with b assms(2,3,5) show ?thesis by (auto simp: glob_ok_def)
  qed
  moreover have "local_ok M V ?L i (transitionToLeader r)"
    using assms(1,4) steady_transitionToLeader [of M r]
    by (auto simp: local_ok_def vote_ok_def ballots_ok_def transitionToLeader_state)
  ultimately show ?thesis unfolding keeps_def by blast
qed

text \<open>Casting a vote: \<open>i\<close> votes for \<open>c\<close> in a term in which it has not voted.\<close>

lemma glob_ok_castVote:
  assumes "glob_ok M V L" "V i t = None"
  shows "glob_ok M (castVote i t c V) L"
proof -
  have "V k t' = Some l \<Longrightarrow> castVote i t c V k t' = Some l" for k t' l
    using assms(2) by (auto simp: castVote_def)
  with assms(1) show ?thesis unfolding glob_ok_def by metis
qed

lemma get_bool_self [simp]: "get_bool [(i, True)] k \<longleftrightarrow> k = i"
  by (simp add: get_bool_def)

lemma effectivePeers_alone:
  assumes "steady_node M r" "raft_id r \<in> M" "effectivePeers r = []"
  shows "M = {raft_id r}" "member_quorum M (raft_id r) (AList.update (raft_id r) True [])"
proof -
  from assms(1) obtain c where c: "currentConfig r = Some c" "steady M c" by (auto simp: steady_node_def)
  have "map_of (addAll (raft_id r) [] (NewPeers c)) k = None" for k
    using assms(3) c by (simp add: effectivePeers_def steady_def)
  then have "k = raft_id r \<or> \<not> has_key (NewPeers c) k" for k
    using c(2) addAll_map_of [of "NewPeers c" "raft_id r" "[]" k]
    by (cases "k = raft_id r"; cases "map_of (NewPeers c) k") (simp_all add: steady_def has_key_def)
  then have "k = raft_id r" if "k \<in> M" for k
    using that c(2) by (auto simp: steady_def has_key_members)
  with assms(2) show M: "M = {raft_id r}" by blast
  have "voters_of (AList.update (raft_id r) True []) = {raft_id r}"
    by (auto simp: voters_of_def get_bool_def)
  then have "sideMajority (raft_id r) (AList.update (raft_id r) True []) (NewPeers c)"
    using c(2) M by (subst sideMajority_exact) (auto simp: steady_def)
  with c(2) show "member_quorum M (raft_id r) (AList.update (raft_id r) True [])"
    by (auto simp: member_quorum_def steady_def)
qed

lemma moves_candidate:
  assumes "local_ok M V L i r" "glob_ok M V L" "i \<in> M"
  shows "moves M V L i (transitionToCandidate r) True"
proof -
  let ?t = "currentTerm r + 1" and ?a = "asCandidate r"
  let ?V = "castVote i ?t i V"
  have none: "V i ?t = None" using fresh_term [OF assms(1)] by simp
  have i: "raft_id r = i" "steady_node M r" using assms(1) by (auto simp: local_ok_def)
  have st: "steady_node M ?a" using i(2) by (simp add: steady_node_def)
  have "V i t = Some c \<Longrightarrow> t \<le> currentTerm r \<and> c \<in> M" for t c
    using assms(1) by (simp add: local_ok_def)
  then have "?V i t = Some c \<Longrightarrow> t \<le> ?t \<and> c \<in> M" for t c
    using assms(3) by (fastforce simp: castVote_def split: if_splits)
  then have a: "local_ok M ?V L i ?a"
    using st i(1) by (simp add: local_ok_def vote_ok_def ballots_ok_def) (simp add: castVote_def)
  have g: "glob_ok M ?V L" using assms(2) none by (rule glob_ok_castVote)
  have "keeps M ?V L i (startElection ?a)"
  proof (cases "effectivePeers ?a = []")
    case True
    have "member_quorum M i (votesReceived ?a)"
      using effectivePeers_alone(2) [OF st _ True] assms(3) i(1) by simp
    from keeps_leader [OF a g assms(3) _ this] show ?thesis using True by (simp add: startElection_def)
  next
    case False
    have "local_ok M ?V L i (startElection ?a)"
      by (rule local_ok_same [OF a]) (use False st in \<open>auto simp: startElection_def same_view_def emit_def Let_def steady_node_def\<close>)
    then show ?thesis using g by (rule keepsI)
  qed
  moreover have "currentTerm (startElection ?a) = ?t" "votedFor (startElection ?a) = i"
    using i(1) by (simp_all add: startElection_def Let_def emit_def)
  ultimately show ?thesis
    unfolding transitionToCandidate_eq moves_def using none by simp
qed

lemma ContainsNode_steady: "steady_node M r \<Longrightarrow> ContainsNode (currentConfig r) c \<Longrightarrow> c \<in> M"
  by (auto simp: steady_node_def steady_def has_key_members split: if_splits)

lemma vote_moves:
  fixes req :: RequestVoteRequest
  assumes "local_ok M V L i r" "glob_ok M V L" "[] \<notin> M"
  defines "r' \<equiv> fst (processRequestVote req r)" and "resp \<equiv> snd (processRequestVote req r)"
  shows "\<exists>V'. (V' = V \<or> VoteGranted resp \<and> V i (currentTerm r') = None \<and> V' = castVote i (currentTerm r') (votedFor r') V) \<and>
    local_ok M V' L i r' \<and> glob_ok M V' L \<and>
    (VoteGranted resp \<longrightarrow> V' i (rvrTerm resp) = Some (CandidateId req) \<or> (rvrTerm resp, CandidateId req) \<in> L)"
proof -
  define r1 where "r1 = (if rvTerm req > currentTerm r then transitionToFollower (rvTerm req) r else r)"
  define s where "s = fst (walState (resetElectionTimer (r1\<lparr>votedFor := CandidateId req\<rparr>)))"
  let ?c = "CandidateId req" and ?t = "currentTerm r1"
  have r1: "local_ok M V L i r1" using assms(1) local_ok_follower by (simp add: r1_def)
  have s: "raft_id s = raft_id r1" "currentTerm s = ?t" "votedFor s = ?c" "state s = state r1"
    "votesReceived s = votesReceived r1" "steady_node M s = steady_node M r1"
    by (simp_all add: s_def walState_def wroteWal_def resetElectionTimer_def steady_node_def)
  consider (refused) "local_ok M V L i r'" "\<not> VoteGranted resp"
    | (granted) "r' = s" "VoteGranted resp" "rvrTerm resp = ?t" "votedFor r1 = [] \<or> votedFor r1 = ?c" "?c \<in> M"
  proof (cases "VoteGranted resp")
    case False
    then have "r' = r \<or> r' = r1"
      by (auto simp: r'_def resp_def processRequestVote_def Let_def r1_def split: if_splits)
    with False assms(1) r1 that(1) show ?thesis by auto
  next
    case True
    then have "r' = s" "rvrTerm resp = currentTerm s" "votedFor r1 = [] \<or> votedFor r1 = ?c"
      and "currentConfig r \<noteq> None \<longrightarrow> ContainsNode (currentConfig r) ?c"
      by (auto simp: r'_def resp_def processRequestVote_def Let_def r1_def s_def split: if_splits)
    moreover have "currentConfig r \<noteq> None" "steady_node M r"
      using assms(1) by (auto simp: local_ok_def steady_node_def)
    ultimately show ?thesis using that(2) [OF _ True] ContainsNode_steady s(2) by metis
  qed
  then show ?thesis
  proof cases
    case refused
    then show ?thesis using assms(2) by (intro exI [of _ V]) auto
  next
    case granted
    show ?thesis
    proof (cases "V i ?t = None \<and> (?t, votedFor r1) \<notin> L")
      case True
      let ?V = "castVote i ?t ?c V"
      have "V i t = Some c \<Longrightarrow> t \<le> ?t \<and> c \<in> M" for t c
        using r1 by (simp add: local_ok_def)
      then have "?V i t = Some c \<Longrightarrow> t \<le> ?t \<and> c \<in> M" for t c
        using granted(5) by (auto simp: castVote_def split: if_splits)
      moreover have "ballots_ok ?V L i s"
      proof -
        have "V k t = Some l \<Longrightarrow> ?V k t = Some l" for k t l using True by (auto simp: castVote_def)
        then show ?thesis using r1 s unfolding local_ok_def ballots_ok_def by metis
      qed
      ultimately have "local_ok M ?V L i s"
        using r1 s by (simp add: local_ok_def vote_ok_def) (simp add: castVote_def)
      then show ?thesis
        using True glob_ok_castVote [OF assms(2)] granted(1-3) s(2,3)
        by (intro exI [of _ ?V]) (auto simp: castVote_def)
    next
      case False
      then have v: "V i ?t = Some (votedFor r1) \<or> (?t, votedFor r1) \<in> L"
        using r1 by (auto simp: local_ok_def vote_ok_def)
      then have "votedFor r1 \<in> M" using r1 assms(2) by (auto simp: local_ok_def glob_ok_def)
      then have c: "votedFor r1 = ?c" using granted(4) assms(3) by auto
      then have "local_ok M V L i s"
        using r1 s by (simp add: local_ok_def vote_ok_def ballots_ok_def)
      then show ?thesis
        using v c granted(1,3) assms(2) by (intro exI [of _ V]) auto
    qed
  qed
qed

section \<open>Every event of a node\<close>

text \<open>What the cluster guarantees of a message that is delivered to node \<open>i\<close>.\<close>

definition msg_ok :: "vote_history \<Rightarrow> leader_history \<Rightarrow> string \<Rightarrow> rpcReq \<Rightarrow> bool" where
  "msg_ok V L i m \<longleftrightarrow>
     (case m of
        voteRespMsg p resp \<Rightarrow> VoteGranted resp \<longrightarrow>
          V p (rvrTerm resp) = Some i \<or> (rvrTerm resp, i) \<in> L
      | appendEntriesMsg req \<Rightarrow> (aeTerm req, aeLeaderId req) \<in> L \<and> plain_log (Entries req)
      | installSnapshotMsg req \<Rightarrow> (isTerm req, isLeaderId req) \<in> L
      | _ \<Rightarrow> True)"

lemma msg_ok_later: "msg_ok V L i m \<Longrightarrow> later j V L V' L' \<Longrightarrow> msg_ok V' L' i m"
  by (cases m) (auto simp: msg_ok_def later_def)

lemma same_view_refl [simp]: "same_view r r"
  by (simp add: same_view_def)

lemma keeps_same:
  "local_ok M V L i r \<Longrightarrow> glob_ok M V L \<Longrightarrow> same_view r r' \<Longrightarrow> steady_node M r' \<Longrightarrow> keeps M V L i r'"
  using local_ok_same by (rule keepsI)

lemma append_keeps:
  assumes "local_ok M V L i r" "glob_ok M V L" "msg_ok V L i (appendEntriesMsg req)"
  shows "keeps M V L i (fst (processAppendEntries req r))"
proof (cases "aeTerm req < currentTerm r")
  case True
  then show ?thesis using assms(1,2) by (simp add: processAppendEntries_def keepsI)
next
  case False
  let ?f = "followLeader (aeTerm req) (aeLeaderId req) r"
  let ?a = "foldl appendOne ?f (Entries req)"
  have f: "local_ok M V L i ?f" using assms False by (intro local_ok_followLeader) (auto simp: msg_ok_def)
  then have st: "steady_node M ?f" by (simp add: local_ok_def)
  have p: "plain_log (log ?a)"
    using st assms(3) by (intro foldl_appendOne_plain) (auto simp: msg_ok_def dest: steady_plain)
  have "same_view ?f (advanceCommit n ?a)" for n
    using p by (simp add: same_view_def advanceCommit_plain)
  moreover have "steady_node M (advanceCommit n ?a)" for n
    using p by (intro steady_cong [OF _ _ st]) (simp_all add: advanceCommit_plain)
  ultimately have "keeps M V L i (advanceCommit n ?a)" for n
    using keeps_same [OF f assms(2)] by blast
  then show ?thesis
    using False keepsI [OF f assms(2)] by (simp add: processAppendEntries_def Let_def)
qed

lemma install_keeps:
  assumes "local_ok M V L i r" "glob_ok M V L" "msg_ok V L i (installSnapshotMsg req)"
    and "plain_event M (Rpc (installSnapshotMsg req)) r"
  shows "keeps M V L i (fst (processInstallSnapshot req r))"
proof (cases "isTerm req < currentTerm r")
  case True
  then show ?thesis using assms(1,2) by (simp add: processInstallSnapshot_def keepsI)
next
  case False
  let ?f = "followLeader (isTerm req) (isLeaderId req) r"
  have f: "local_ok M V L i ?f" using assms False by (intro local_ok_followLeader) (auto simp: msg_ok_def)
  have "same_view ?f (fst (processInstallSnapshot req r))"
    using False by (simp add: same_view_def processInstallSnapshot_def Let_def split: option.split)
  moreover have "steady_node M (fst (processInstallSnapshot req r))"
    using steady_rpc [of M r "installSnapshotMsg req"] assms(1,4) by (simp add: local_ok_def)
  ultimately show ?thesis by (rule keeps_same [OF f assms(2)])
qed

lemma keeps_follower:
  "local_ok M V L i r \<Longrightarrow> glob_ok M V L \<Longrightarrow> currentTerm r < t \<Longrightarrow> keeps M V L i (transitionToFollower t r)"
  by (intro keepsI local_ok_follower)

text \<open>The events in which a node votes: for itself when it becomes a candidate, or for another.\<close>

fun casts :: "event \<Rightarrow> raft \<Rightarrow> bool" where
  "casts Timer r \<longleftrightarrow> (state r = Follower \<or> state r = Candidate) \<and> \<not> isJoining r \<and> effectivePeers r = []"
| "casts (Rpc (preVoteRespMsg p resp)) r \<longleftrightarrow> (state r = Follower \<or> state r = Candidate) \<and> VoteGranted resp \<and>
     voteMajority (AList.update p True (preVoteVotesReceived r)) r"
| "casts (Rpc (requestVoteMsg req)) r \<longleftrightarrow> VoteGranted (snd (processRequestVote req r))"
| "casts ev r \<longleftrightarrow> False"

lemma prevote_response_moves:
  assumes "local_ok M V L i r" "glob_ok M V L" "i \<in> M"
  shows "moves M V L i (processPreVoteResponse p resp r) (casts (Rpc (preVoteRespMsg p resp)) r)"
proof -
  let ?s = "r\<lparr>preVoteVotesReceived := AList.update p True (preVoteVotesReceived r)\<rparr>"
  have s: "local_ok M V L i ?s"
    using assms(1) by (intro local_ok_same [OF assms(1)]) (auto simp: same_view_def steady_update local_ok_def)
  have "voteMajority v ?s = voteMajority v r" for v
    by (simp add: voteMajority_def split: option.split)
  then show ?thesis
    using keepsI [OF assms(1,2)] keepsI [OF s assms(2)] moves_candidate [OF s assms(2,3)]
    by (simp add: processPreVoteResponse_def Let_def keeps_moves)
qed

lemma vote_response_keeps:
  assumes "local_ok M V L i r" "glob_ok M V L" "i \<in> M" "msg_ok V L i (voteRespMsg p resp)"
  shows "keeps M V L i (processRequestVoteResponse p resp r)"
proof -
  let ?s = "r\<lparr>votesReceived := AList.update p True (votesReceived r)\<rparr>"
  consider (newer) "rvrTerm resp > currentTerm r"
    | (vote) "state r = Candidate" "rvrTerm resp = currentTerm r" "VoteGranted resp"
    | (ignored) "\<not> rvrTerm resp > currentTerm r"
        "\<not> (state r = Candidate \<and> rvrTerm resp = currentTerm r \<and> VoteGranted resp)"
    by blast
  then show ?thesis
  proof cases
    case newer
    then show ?thesis using keeps_follower [OF assms(1,2)] by (simp add: processRequestVoteResponse_def)
  next
    case vote
    have s: "local_ok M V L i ?s"
      using assms(1,4) vote
      by (auto simp: local_ok_def vote_ok_def ballots_ok_def msg_ok_def steady_update get_bool_update)
    have "member_quorum M i (votesReceived ?s)" if "voteMajority (votesReceived ?s) ?s"
      using voteMajority_quorum [OF _ that] s by (simp add: local_ok_def)
    then show ?thesis
      using vote keepsI [OF s assms(2)] keeps_leader [OF s assms(2,3)]
      by (simp add: processRequestVoteResponse_def Let_def)
  next
    case ignored
    then show ?thesis using keepsI [OF assms(1,2)] by (simp only: processRequestVoteResponse_def if_False)
  qed
qed

lemma append_response_keeps:
  assumes "local_ok M V L i r" "glob_ok M V L"
  shows "keeps M V L i (processAppendEntriesResponse p resp r)"
proof (cases "aerTerm resp > currentTerm r")
  case True
  then show ?thesis using keeps_follower [OF assms] by (simp add: processAppendEntriesResponse_def)
next
  case False
  have "steady_node M (processAppendEntriesResponse p resp r)"
    using steady_rpc [of M r "appendRespMsg p resp"] assms(1) by (simp add: local_ok_def plain_event_def)
  moreover have "same_view r (processAppendEntriesResponse p resp r)"
  proof -
    have "same_view r (foldl commitStep (trimProposalTime (observeLag q a b (r\<lparr>matchIndex := x, nextIndex := y\<rparr>))) ns)"
      for q a b x y ns
    proof -
      let ?s = "trimProposalTime (observeLag q a b (r\<lparr>matchIndex := x, nextIndex := y\<rparr>))"
      have "plain_log (log ?s)" "same_view r ?s"
        using assms(1) by (auto simp: local_ok_def steady_node_def trimProposalTime_def observeLag_def emit_def same_view_def)
      then show ?thesis using commitLoop_plain [of ?s ns] by (simp add: same_view_def)
    qed
    then show ?thesis
      using False by (simp add: processAppendEntriesResponse_def Let_def) (simp add: same_view_def emit_def)
  qed
  ultimately show ?thesis using keeps_same [OF assms] by blast
qed


lemma rpc_moves:
  assumes "local_ok M V L i r" "glob_ok M V L" "i \<in> M" "[] \<notin> M" "msg_ok V L i m" "plain_event M (Rpc m) r"
  shows "moves M V L i (fst (handleRPC m r)) (casts (Rpc m) r)"
proof (cases m)
  case (requestVoteMsg req)
  from vote_moves [OF assms(1,2,4), of req] obtain V' where V': "V' = V \<or> VoteGranted (snd (processRequestVote req r)) \<and>
      V i (currentTerm (fst (processRequestVote req r))) = None \<and>
      V' = castVote i (currentTerm (fst (processRequestVote req r))) (votedFor (fst (processRequestVote req r))) V"
    "keeps M V' L i (fst (processRequestVote req r))"
    using keepsI by metis
  then show ?thesis by (auto simp: requestVoteMsg moves_def)
next
  case (snapshotRespMsg p resp)
  have "steady_node M (processInstallSnapshotResponse p resp r)"
    using steady_rpc [of M r m] assms(1) snapshotRespMsg by (simp add: local_ok_def plain_event_def)
  then show ?thesis
    using keeps_follower [OF assms(1,2)] keeps_same [OF assms(1,2)]
    by (auto simp: snapshotRespMsg processInstallSnapshotResponse_def same_view_def emit_def intro!: keeps_moves)
next
  case (preVoteReqMsg req)
  then show ?thesis using keepsI [OF assms(1,2)] by (simp add: keeps_moves)
next
  case (preVoteRespMsg p resp)
  then show ?thesis using prevote_response_moves [OF assms(1-3)] by simp
qed (use assms append_keeps install_keeps vote_response_keeps append_response_keeps in \<open>simp_all add: keeps_moves\<close>)

lemma timer_moves:
  assumes "local_ok M V L i r" "glob_ok M V L" "i \<in> M"
  shows "moves M V L i (electionTimerFired r) (casts Timer r)"
proof -
  let ?s = "(r\<lparr>electionTimer := Some True\<rparr>)\<lparr>preVoteVotesReceived := AList.update (raft_id r) True []\<rparr>"
  have s: "local_ok M V L i ?s"
    using assms(1) by (intro local_ok_same [OF assms(1)]) (auto simp: same_view_def steady_update local_ok_def)
  have e: "effectivePeers ?s = effectivePeers r" by (simp add: effectivePeers_def split: option.split)
  have st: "steady_node M (electionTimerFired r)" using assms(1) by (simp add: local_ok_def steady_timer)
  show ?thesis
  proof (cases "casts Timer r")
    case True
    then show ?thesis
      using moves_candidate [OF s assms(2,3)] e
      by (simp add: electionTimerFired_def startPreVote_def resetElectionTimer_def Let_def)
  next
    case False
    then have "same_view r (electionTimerFired r)"
      using e by (auto simp: same_view_def electionTimerFired_def startPreVote_def resetElectionTimer_def emit_def Let_def)
    then show ?thesis using keeps_moves [OF keeps_same [OF assms(1,2)]] st by blast
  qed
qed

lemma client_keeps:
  assumes "local_ok M V L i r" "glob_ok M V L" "plain_cmd cmd"
  shows "keeps M V L i (handleClientCommand cmd ch r)"
proof -
  have st: "steady_node M (handleClientCommand cmd ch r)"
    using steady_event [of M r "ClientCmd cmd ch"] assms(1,3) by (simp add: local_ok_def plain_event_def)
  have "plain_log (log (clientAppended cmd ch r))"
    using assms(1,3) by (auto simp: local_ok_def dest: steady_plain)
  then have "same_view r (handleClientCommand cmd ch r)"
    by (simp add: same_view_def handleClientCommand_cases applyLogs_plain Let_def split: option.split)
  then show ?thesis using keeps_same [OF assms(1,2)] st by blast
qed

end
