(* ===== verification/Cluster.thy ===== *)
theory Cluster
  imports Ballots Votes
begin

text \<open>
  A cluster of nodes that exchange messages over a network which may delay, reorder,
  duplicate and lose them. Nodes are the node model unchanged; the network is the set of all
  messages ever sent, any of which may be delivered at any time, any number of times.
  A message is addressed to a node and is what that node finds on its \<^verbatim>\<open>rpcCh\<close>: a request, or
  the response to a call it made together with the peer that gave it.

  The membership is steady: the set \<open>M\<close> of nodes has an odd number of elements, nobody asks
  for a membership change, and a snapshot that a node has assembled names the members \<open>M\<close>.
\<close>

section \<open>The cluster\<close>

type_synonym packet = "string \<times> rpcReq"

record cluster =
  nodes :: "string \<Rightarrow> raft"
  net :: "packet set"

text \<open>
  The calls that the goroutines of a node in state \<open>r\<close> can make. What is sent is fixed by the
  state in which the goroutine held the lock; whether the call is made depends on the
  connections at the time of the call, so \<open>at\<close> is the same node with other connections.
\<close>

definition at :: "raft \<Rightarrow> (string, bool) gomap option \<Rightarrow> strmap \<Rightarrow> raft" where
  "at r pt conns = r\<lparr>partition := pt, grpcPeers := conns\<rparr>"

inductive sends :: "raft \<Rightarrow> packet \<Rightarrow> bool" for r where
  pre_vote: "GoSendPreVote p t li lt \<in> set (outbox r) \<Longrightarrow>
    sendPreVote (at r pt conns) p t li lt = Inr q \<Longrightarrow> sends r (p, preVoteReqMsg q)"
| request_vote: "GoSendRequestVote p t li lt \<in> set (outbox r) \<Longrightarrow>
    sendRequestVote (at r pt conns) p t li lt = Inr q \<Longrightarrow> sends r (p, requestVoteMsg q)"
| append: "snd (replicateToPeer p (at r pt conns)) = Some q \<Longrightarrow> sends r (p, appendEntriesMsg q)"
| read_probe: "state r = Leader \<Longrightarrow>
    sendAppendEntries (at r pt conns) p (currentTerm r) (lastLogIndex r) (lastLogTerm r) [] (commitIndex r) = Inr q \<Longrightarrow>
    sends r (p, appendEntriesMsg q)"
| snapshot: "snapshotToSend r = Some d \<Longrightarrow> x \<in> set (chunksFrom 0 d) \<Longrightarrow>
    chunkRequest (at r pt conns) p x = Inr q \<Longrightarrow> sends r (p, installSnapshotMsg q)"

text \<open>The response of node \<open>i\<close> goes back to the node that made the call.\<close>

fun reply :: "string \<Rightarrow> rpcReq \<Rightarrow> rpcResp option \<Rightarrow> packet set" where
  "reply i (preVoteReqMsg q) (Some (VoteResp a)) = {(CandidateId q, preVoteRespMsg i a)}"
| "reply i (requestVoteMsg q) (Some (VoteResp a)) = {(CandidateId q, voteRespMsg i a)}"
| "reply i (appendEntriesMsg q) (Some (AppendResp a)) = {(aeLeaderId q, appendRespMsg i a)}"
| "reply i (installSnapshotMsg q) (Some (SnapshotResp a)) = {(isLeaderId q, snapshotRespMsg i a)}"
| "reply i m resp = {}"

definition keeps_members :: "string set \<Rightarrow> rpcReq \<Rightarrow> raft \<Rightarrow> bool" where
  "keeps_members M m r \<longleftrightarrow>
     (case m of installSnapshotMsg q \<Rightarrow>
        (case completedSnapshot q r of None \<Rightarrow> True | Some s \<Rightarrow> steady_snapshot M s)
      | _ \<Rightarrow> True)"

definition stepNode :: "string \<Rightarrow> raft \<Rightarrow> cluster \<Rightarrow> cluster" where
  "stepNode i r' c = c\<lparr>nodes := (nodes c)(i := r')\<rparr>"

inductive cstep :: "string set \<Rightarrow> cluster \<Rightarrow> cluster \<Rightarrow> bool" for M where
  deliver: "i \<in> M \<Longrightarrow> (i, m) \<in> net c \<Longrightarrow> keeps_members M m (nodes c i) \<Longrightarrow>
    handleRPC m (nodes c i) = (r', resp) \<Longrightarrow>
    cstep M c ((stepNode i r' c)\<lparr>net := net c \<union> reply i m resp\<rparr>)"
| timer: "i \<in> M \<Longrightarrow> cstep M c (stepNode i (handleEvent Timer (nodes c i)) c)"
| heartbeat: "i \<in> M \<Longrightarrow> cstep M c (stepNode i (handleEvent Heartbeat (nodes c i)) c)"
| replicate: "i \<in> M \<Longrightarrow> cstep M c (stepNode i (handleEvent (Replicate p) (nodes c i)) c)"
| command: "i \<in> M \<Longrightarrow> ProposeWithClient op key val cid rid = Inr cmd \<Longrightarrow> int64 rid \<Longrightarrow>
    cstep M c (stepNode i (handleEvent (ClientCmd cmd ch) (nodes c i)) c)"
| send: "i \<in> M \<Longrightarrow> sends (nodes c i) pk \<Longrightarrow> cstep M c (c\<lparr>net := insert pk (net c)\<rparr>)"
| adjust: "i \<in> M \<Longrightarrow> adjusts (nodes c i) r' \<Longrightarrow> cstep M c (stepNode i r' c)"

text \<open>
  A cluster starts with every node started from an empty directory with the addresses of
  the other members, and with no message on the network.
\<close>

definition blank :: "filesystem \<Rightarrow> string \<Rightarrow> bool" where
  "blank fs dir \<longleftrightarrow> \<not> has_key fs (dir @ ''/snapshot.json'') \<and> \<not> has_key fs (dir @ ''/wal.log'')"

definition first_start :: "string set \<Rightarrow> string \<Rightarrow> raft \<Rightarrow> bool" where
  "first_start M i r \<longleftrightarrow> (\<exists>en fs ps dir th r0. blank fs dir \<and> members ps = M - {i} \<and>
     NewRaft en None fs i ps dir th = Inr r0 \<and> r = startRun r0)"

definition cluster_init :: "string set \<Rightarrow> cluster \<Rightarrow> bool" where
  "cluster_init M c \<longleftrightarrow> finite M \<and> odd (card M) \<and> [] \<notin> M \<and> net c = {} \<and> (\<forall>i \<in> M. first_start M i (nodes c i))"

section \<open>The invariant\<close>

definition cluster_inv :: "string set \<Rightarrow> vote_history \<Rightarrow> leader_history \<Rightarrow> cluster \<Rightarrow> bool" where
  "cluster_inv M V L c \<longleftrightarrow> [] \<notin> M \<and> glob_ok M V L \<and> (\<forall>i \<in> M. local_ok M V L i (nodes c i)) \<and>
     (\<forall>(i, m) \<in> net c. msg_ok V L i m)"

lemma plain_entryOrEmpty: "plain_log (log r) \<Longrightarrow> plain_cmd (Command (entryOrEmpty r i))"
  by (auto simp: entryOrEmpty_def plain_cmd_def [of "[]"] dest: plain_getEntry split: option.split)

lemma callPeer_request: "callPeer r p q = Inr q' \<Longrightarrow> q' = q"
  by (auto simp: callPeer_def split: option.splits if_splits)

lemma at_simps [simp]:
  "state (at r pt conns) = state r" "raft_id (at r pt conns) = raft_id r" "log (at r pt conns) = log r"
  "currentTerm (at r pt conns) = currentTerm r"
  by (simp_all add: at_def)

text \<open>Only a leader sends entries and snapshots, and it sends them in its own name and term.\<close>

lemma sends_ok:
  assumes "sends r (p, m)" "local_ok M V L i r"
  shows "msg_ok V L p m"
  using assms(1)
proof cases
  case (append pt conns q)
  let ?a = "at r pt conns"
  from append have l: "state r = Leader" and
    q: "sendAppendEntries ?a p (currentTerm r) (get_int (nextIndex ?a) p - 1)
      (getEntryTerm ?a (get_int (nextIndex ?a) p - 1))
      (if lastLogIndex ?a \<ge> get_int (nextIndex ?a) p
       then map (entryOrEmpty ?a) [get_int (nextIndex ?a) p..lastLogIndex ?a] else []) (commitIndex ?a) = Inr q"
    by (auto simp: replicateToPeer_def Let_def split: if_splits sum.splits)
  have "plain_log (map (entryOrEmpty ?a) is)" for "is"
    using assms(2) plain_entryOrEmpty [of ?a] by (auto simp: local_ok_def plain_log_def [of "map _ _"] dest: steady_plain)
  then show ?thesis
    using append(1) l callPeer_request [OF q [unfolded sendAppendEntries_def]] assms(2)
    by (auto simp: msg_ok_def local_ok_def)
next
  case (read_probe pt conns q)
  then show ?thesis
    using callPeer_request [OF read_probe(3) [unfolded sendAppendEntries_def]] assms(2)
    by (auto simp: msg_ok_def local_ok_def)
next
  case (snapshot d x pt conns q)
  then have "state r = Leader" by (auto simp: snapshotToSend_def split: if_splits)
  then show ?thesis
    using snapshot(1) callPeer_request [OF snapshot(4) [unfolded chunkRequest_def sendInstallSnapshot_def]] assms(2)
    by (auto simp: msg_ok_def local_ok_def)
qed (simp_all add: msg_ok_def)

lemma adjusts_ok: "adjusts r r' \<Longrightarrow> local_ok M V L i r \<Longrightarrow> local_ok M V L i r'"
proof (induction rule: adjusts.induct)
  case (6 grpc http)
  then show ?case by (auto simp: InitClusterConfig_def local_ok_def steady_node_def)
next
  case 8
  then show ?case by (auto simp: local_ok_def vote_ok_def ballots_ok_def steady_node_def Stop_def)
qed (simp_all add: local_ok_def vote_ok_def ballots_ok_def steady_node_def adjust_defs)

text \<open>One node moves: the history grows, and everything else stays consistent with it.\<close>

lemma cluster_inv_node:
  assumes "cluster_inv M V L c" "i \<in> M" "later i V L V' L'" "local_ok M V' L' i r'" "glob_ok M V' L'"
    and "\<forall>(j, m) \<in> ps. msg_ok V' L' j m"
  shows "cluster_inv M V' L' ((stepNode i r' c)\<lparr>net := net c \<union> ps\<rparr>)"
proof -
  have "local_ok M V' L' k (nodes c k)" if "k \<in> M" "k \<noteq> i" for k
    using assms(1,3) that local_ok_other by (auto simp: cluster_inv_def)
  moreover have "msg_ok V' L' j m" if "(j, m) \<in> net c" for j m
    using assms(1,3) that msg_ok_later by (fastforce simp: cluster_inv_def)
  ultimately show ?thesis
    using assms(1,4-6) by (auto simp: cluster_inv_def stepNode_def)
qed

text \<open>
  A step of the cluster and the votes that it casts: none, or one by a node in an event that
  makes it vote, which is then the vote that the node remembers. A message that makes it
  vote was on the network.
\<close>

definition voted :: "string set \<Rightarrow> vote_history \<Rightarrow> vote_history \<Rightarrow> cluster \<Rightarrow> cluster \<Rightarrow> bool" where
  "voted M V V' c c' \<longleftrightarrow> V' = V \<or> (\<exists>i \<in> M. \<exists>ev. nodes c' i = handleEvent ev (nodes c i) \<and> casts ev (nodes c i) \<and>
     (\<forall>m. ev = Rpc m \<longrightarrow> (i, m) \<in> net c) \<and> V i (currentTerm (nodes c' i)) = None \<and> V' = castVote i (currentTerm (nodes c' i)) (votedFor (nodes c' i)) V)"

lemma cluster_inv_moves:
  assumes "cluster_inv M V L c" "i \<in> M" "moves M V L i (handleEvent ev (nodes c i)) (casts ev (nodes c i))"
    and "\<forall>m. ev = Rpc m \<longrightarrow> (i, m) \<in> net c"
  shows "\<exists>V' L'. L \<subseteq> L' \<and> voted M V V' c (stepNode i (handleEvent ev (nodes c i)) c) \<and>
    cluster_inv M V' L' (stepNode i (handleEvent ev (nodes c i)) c)"
proof -
  let ?r = "handleEvent ev (nodes c i)"
  have step: "\<exists>L'. L \<subseteq> L' \<and> cluster_inv M V' L' (stepNode i ?r c)" if "keeps M V' L i ?r" "later i V L V' L" for V'
  proof -
    from that(1) obtain L' where "L \<subseteq> L'" "local_ok M V' L' i ?r" "glob_ok M V' L'" by (auto simp: keeps_def)
    moreover from this(1) that(2) have "later i V L V' L'" by (auto simp: later_def)
    ultimately show ?thesis using cluster_inv_node [OF assms(1,2), of V' L' ?r "{}"] by (auto simp: stepNode_def)
  qed
  from assms(3) show ?thesis unfolding moves_def
  proof (elim disjE conjE)
    assume "keeps M V L i ?r"
    with step [of V] show ?thesis by (auto simp: voted_def)
  next
    let ?V = "castVote i (currentTerm ?r) (votedFor ?r) V"
    assume c: "casts ev (nodes c i)" "V i (currentTerm ?r) = None" "keeps M ?V L i ?r"
    then obtain L' where "L \<subseteq> L'" "cluster_inv M ?V L' (stepNode i ?r c)" using step [OF c(3) later_castVote] by blast
    moreover have "voted M V ?V c (stepNode i ?r c)"
      unfolding voted_def using c assms(2,4) by (intro disjI2 bexI [of _ i] exI [of _ ev]) (simp_all add: stepNode_def)
    ultimately show ?thesis by blast
  qed
qed

text \<open>The response of a node keeps the promise that the history makes for it.\<close>

lemma deliver_inv:
  assumes "cluster_inv M V L c" "i \<in> M" "(i, m) \<in> net c" "keeps_members M m (nodes c i)"
    and "handleRPC m (nodes c i) = (r', resp)"
  shows "\<exists>V' L'. L \<subseteq> L' \<and> voted M V V' c ((stepNode i r' c)\<lparr>net := net c \<union> reply i m resp\<rparr>) \<and>
    cluster_inv M V' L' ((stepNode i r' c)\<lparr>net := net c \<union> reply i m resp\<rparr>)"
proof -
  let ?c = "(stepNode i r' c)\<lparr>net := net c \<union> reply i m resp\<rparr>"
  have loc: "local_ok M V L i (nodes c i)" and glob: "glob_ok M V L" "[] \<notin> M" and msg: "msg_ok V L i m"
    using assms(1-3) by (auto simp: cluster_inv_def)
  show ?thesis
  proof (cases "\<exists>req. m = requestVoteMsg req")
    case True
    then obtain req where m: "m = requestVoteMsg req" by blast
    with assms(5) have r': "r' = fst (processRequestVote req (nodes c i))"
      "resp = Some (VoteResp (snd (processRequestVote req (nodes c i))))" by auto
    from vote_moves [OF loc glob, of req, folded r'(1)] obtain V' where
      V': "V' = V \<or> VoteGranted (snd (processRequestVote req (nodes c i))) \<and> V i (currentTerm r') = None \<and>
        V' = castVote i (currentTerm r') (votedFor r') V" "local_ok M V' L i r'" "glob_ok M V' L"
      and g: "VoteGranted (snd (processRequestVote req (nodes c i))) \<longrightarrow>
        V' i (rvrTerm (snd (processRequestVote req (nodes c i)))) = Some (CandidateId req) \<or>
        (rvrTerm (snd (processRequestVote req (nodes c i))), CandidateId req) \<in> L" by auto
    have "later i V L V' L" using V'(1) later_castVote by fastforce
    moreover have "\<forall>(j, x) \<in> reply i m resp. msg_ok V' L j x" using g by (simp add: m r'(2) msg_ok_def)
    ultimately have "cluster_inv M V' L ?c" using cluster_inv_node [OF assms(1,2) _ V'(2,3)] by blast
    moreover have "voted M V V' c ?c"
      using V'(1) assms(2,3) unfolding voted_def
      by (auto simp: stepNode_def r'(1) m intro!: bexI [of _ i] exI [of _ "Rpc m"])
    ultimately show ?thesis by blast
  next
    case False
    have "plain_event M (Rpc m) (nodes c i)"
      using assms(4) msg by (auto simp: plain_event_def keeps_members_def msg_ok_def split: rpcReq.splits)
    from rpc_moves [OF loc glob(1) assms(2) glob(2) msg this]
    have "moves M V L i (handleEvent (Rpc m) (nodes c i)) (casts (Rpc m) (nodes c i))" by simp
    from cluster_inv_moves [OF assms(1,2) this] assms(3,5) obtain V' L' where
      V': "L \<subseteq> L'" "voted M V V' c (stepNode i r' c)" "cluster_inv M V' L' (stepNode i r' c)" by auto
    moreover have "\<forall>(j, x) \<in> reply i m resp. msg_ok V' L' j x"
      using False by (cases "(i, m, resp)" rule: reply.cases) (auto simp: msg_ok_def)
    ultimately have "cluster_inv M V' L' ?c" by (auto simp: cluster_inv_def stepNode_def)
    with V' show ?thesis by (auto simp: voted_def)
  qed
qed

lemma cstep_voted:
  assumes "cstep M c c'" "cluster_inv M V L c"
  shows "\<exists>V' L'. L \<subseteq> L' \<and> voted M V V' c c' \<and> cluster_inv M V' L' c'"
  using assms(1)
proof cases
  case (deliver i m r' resp)
  then show ?thesis using deliver_inv [OF assms(2)] by simp
next
  case (timer i)
  with timer_moves assms(2) cluster_inv_moves [OF assms(2), of i Timer] show ?thesis
    by (simp add: cluster_inv_def)
next
  case (heartbeat i)
  then have "keeps M V L i (handleEvent Heartbeat (nodes c i))"
    using assms(2) by (intro keeps_same [of M V L i "nodes c i"])
      (auto simp: cluster_inv_def same_view_def heartbeatTick_def local_ok_def broadcastHeartbeats_def emit_def steady_node_def)
  with heartbeat cluster_inv_moves [OF assms(2), of i Heartbeat] show ?thesis by (simp add: keeps_moves)
next
  case (replicate i p)
  then have "keeps M V L i (handleEvent (Replicate p) (nodes c i))"
    using assms(2) by (intro keeps_same [of M V L i "nodes c i"])
      (auto simp: cluster_inv_def same_view_def replicateToPeer_def Let_def local_ok_def emit_def steady_node_def)
  with replicate cluster_inv_moves [OF assms(2), of i "Replicate p"] show ?thesis by (simp add: keeps_moves)
next
  case (command i op key val cid rid cmd ch)
  with assms(2) have "keeps M V L i (handleEvent (ClientCmd cmd ch) (nodes c i))"
    by (simp add: cluster_inv_def client_keeps plain_proposed)
  with command cluster_inv_moves [OF assms(2), of i "ClientCmd cmd ch"] show ?thesis by (simp add: keeps_moves)
next
  case (send i pk)
  then have "cluster_inv M V L c'"
    using assms(2) sends_ok [of "nodes c i" "fst pk" "snd pk"] by (auto simp: cluster_inv_def)
  then show ?thesis by (auto simp: voted_def)
next
  case (adjust i r')
  then have "cluster_inv M V L c'"
    using assms(2) adjusts_ok cluster_inv_node [OF assms(2), of i V L r' "{}"] by (auto simp: cluster_inv_def stepNode_def)
  then show ?thesis by (auto simp: voted_def)
qed

lemma cstep_inv: "cstep M c c' \<Longrightarrow> cluster_inv M V L c \<Longrightarrow> \<exists>V' L'. L \<subseteq> L' \<and> cluster_inv M V' L' c'"
  by (drule (1) cstep_voted) auto

section \<open>The start\<close>

lemma NewRaft_blank:
  assumes "blank fs dir"
  shows "NewRaft en None fs i ps dir th = Inr (freshRaft en fs i ps dir th (OpenWAL None))"
proof -
  let ?f = "freshRaft en fs i ps dir th (OpenWAL None)"
  have "LoadSnapshot fs (dir @ ''/snapshot.json'') = Inr None" "map_of fs (dir @ ''/wal.log'') = None"
    using assms by (simp_all add: blank_def has_key_def LoadSnapshot_def)
  moreover have "Replay u (OpenWAL None) = Inr (0, [], [])" for u
    by (simp add: Replay_def OpenWAL_def replayLoop.simps ReadFull_def)
  moreover have "applyLogs ?f = ?f"
    by (auto simp: applyLogs_def applyLoop.simps compact_def completeProposals_def freshRaft_def lastLogIndex_def emit_def)
  ultimately show ?thesis
    by (simp add: NewRaft_def loadState_def) (simp add: freshRaft_def)
qed

lemma steady_first:
  assumes "members ps = M - {i}" "i \<in> M" "odd (card M)"
  shows "steady M (ConfigFromPeers ps [] i)"
proof -
  have "members (NewPeers (ConfigFromPeers ps [] i)) = M"
    using assms(1,2) members_copy [of ps] by (auto simp: ConfigFromPeers_def members_def dom_update)
  moreover have "wf_map (NewPeers (ConfigFromPeers ps [] i))" by (simp add: ConfigFromPeers_def)
  ultimately show ?thesis using assms(3) by (simp add: steady_def) (simp add: ConfigFromPeers_def)
qed

lemma first_start_ok:
  assumes "first_start M i r" "i \<in> M" "odd (card M)"
  shows "local_ok M (\<lambda>_ _. None) {} i r"
proof -
  obtain en fs ps dir th where r: "r = startRun (freshRaft en fs i ps dir th (OpenWAL None))" "members ps = M - {i}"
    using assms(1) by (auto simp: first_start_def NewRaft_blank)
  from steady_first [OF r(2) assms(2,3)] show ?thesis
    by (simp add: r(1) startRun_def freshRaft_def local_ok_def vote_ok_def ballots_ok_def steady_node_def)
qed

lemma cluster_init_inv: "cluster_init M c \<Longrightarrow> cluster_inv M (\<lambda>_ _. None) {} c"
  by (auto simp: cluster_init_def cluster_inv_def glob_ok_def first_start_ok)

lemma run_inv:
  assumes "(cstep M)\<^sup>*\<^sup>* c c'" "cluster_inv M V L c"
  shows "\<exists>V' L'. L \<subseteq> L' \<and> cluster_inv M V' L' c'"
  using assms
proof (induction rule: rtranclp_induct)
  case (step c1 c2)
  then obtain V1 L1 where "L \<subseteq> L1" "cluster_inv M V1 L1 c1" by blast
  with cstep_inv [OF step.hyps(2)] show ?case by (meson subset_trans)
qed blast

section \<open>Election safety\<close>

text \<open>
  C3. Election safety: in every run of a cluster with a steady membership of odd size, over
  any network that delays, reorders, duplicates and loses messages, no term ever has two
  leaders: a node that leads term \<open>t\<close> at some point of the run and a node that leads term \<open>t\<close>
  at any later point are the same node.
\<close>

theorem election_safety:
  assumes "cluster_init M c0" "(cstep M)\<^sup>*\<^sup>* c0 c" "(cstep M)\<^sup>*\<^sup>* c c'" "i \<in> M" "j \<in> M"
    and "state (nodes c i) = Leader" "state (nodes c' j) = Leader"
    and "currentTerm (nodes c i) = currentTerm (nodes c' j)"
  shows "i = j"
proof -
  from run_inv [OF assms(2) cluster_init_inv [OF assms(1)]] obtain V L
    where c: "cluster_inv M V L c" by blast
  from run_inv [OF assms(3) c] obtain V' L' where c': "L \<subseteq> L'" "cluster_inv M V' L' c'" by blast
  have "(currentTerm (nodes c i), i) \<in> L" using c assms(4,6) by (simp add: cluster_inv_def local_ok_def)
  then have "(currentTerm (nodes c i), i) \<in> L'" using c'(1) by blast
  moreover have "(currentTerm (nodes c i), j) \<in> L'"
    using c'(2) assms(5,7,8) by (simp add: cluster_inv_def local_ok_def)
  moreover have "glob_ok M V' L'" using c'(2) by (simp add: cluster_inv_def)
  ultimately show ?thesis by (intro leader_history_unique)
qed

text \<open>A run of three nodes in which the first becomes the leader of term 1.\<close>

definition demo_members :: "string set" where
  "demo_members = {''n1'', ''n2'', ''n3''}"

definition demo_start :: "string \<Rightarrow> raft" where
  "demo_start i = startRun (freshRaft demo_env [] i
     (filter (\<lambda>p. fst p \<noteq> i) [(''n1'', ''h:1''), (''n2'', ''h:2''), (''n3'', ''h:3'')]) ''d'' 0 (OpenWAL None))"

definition demo_req :: RequestVoteRequest where
  "demo_req = \<lparr>rvTerm = 1, CandidateId = ''n1'', LastLogIndex = 0, LastLogTerm = 0\<rparr>"

definition demo_yes :: RequestVoteResponse where
  "demo_yes = \<lparr>rvrTerm = 1, VoteGranted = True\<rparr>"

definition demo_asking :: raft where
  "demo_asking = handleEvent Timer (demo_start ''n1'')"

definition demo_candidate :: raft where
  "demo_candidate = fst (handleRPC (preVoteRespMsg ''n2'' demo_yes) demo_asking)"

definition demo_leader :: raft where
  "demo_leader = fst (handleRPC (voteRespMsg ''n2'' demo_yes) demo_candidate)"

definition demo_voter :: raft where
  "demo_voter = fst (handleRPC (requestVoteMsg demo_req) (demo_start ''n2''))"

definition demo_cluster :: "raft \<Rightarrow> raft \<Rightarrow> packet list \<Rightarrow> cluster" where
  "demo_cluster a b ps = \<lparr>nodes = demo_start(''n1'' := a, ''n2'' := b), net = set ps\<rparr>"

definition demo_config :: ClusterConfig where
  "demo_config = ConfigFromPeers [(''n2'', ''h:2''), (''n3'', ''h:3'')] [] ''n1''"

lemma voteMajority_config: "currentConfig r = Some c \<Longrightarrow> voteMajority v r = HasMajority (Some c) (raft_id r) v"
  by (simp add: voteMajority_def)

lemma demo_majority: "HasMajority (Some demo_config) ''n1'' [(''n1'', True), (''n2'', True)]"
  by code_simp

lemma demo_start_facts:
  "processPreVote demo_req (demo_start ''n2'') = demo_yes"
  "raft_id demo_asking = ''n1''" "GoSendPreVote ''n2'' 1 0 0 \<in> set (outbox demo_asking)"
  "state demo_asking = Follower" "currentTerm demo_asking = 0"
  "currentConfig demo_asking = Some demo_config"
  "AList.update ''n2'' True (preVoteVotesReceived demo_asking) = [(''n1'', True), (''n2'', True)]"
  "map fst (effectivePeers demo_asking) = [''n2'', ''n3'']" "lastLogIndex demo_asking = 0" "lastLogTerm demo_asking = 0"
  by code_simp+

lemma demo_voter_facts: "snd (processRequestVote demo_req (demo_start ''n2'')) = demo_yes"
proof -
  have "grants demo_req (demo_start ''n2'')" by code_simp
  then show ?thesis using processRequestVote_granted by (simp add: demo_req_def demo_yes_def)
qed

text \<open>The steps that write to the WAL are followed through their frame lemmas.\<close>

lemma demo_candidate_eq:
  "demo_candidate = transitionToCandidate
     (demo_asking\<lparr>preVoteVotesReceived := [(''n1'', True), (''n2'', True)]\<rparr>)"
  using demo_start_facts(2,4,6,7) demo_majority
  by (simp add: demo_candidate_def processPreVoteResponse_def demo_yes_def voteMajority_config Let_def
      del: HasMajority.simps)

lemma demo_candidate_facts:
  "raft_id demo_candidate = ''n1''" "state demo_candidate = Candidate" "currentTerm demo_candidate = 1"
  "votesReceived demo_candidate = [(''n1'', True)]" "currentConfig demo_candidate = currentConfig demo_asking"
  "GoSendRequestVote ''n2'' 1 0 0 \<in> set (outbox demo_candidate)"
proof -
  let ?a = "asCandidate (demo_asking\<lparr>preVoteVotesReceived := [(''n1'', True), (''n2'', True)]\<rparr>)"
  have e: "effectivePeers ?a = effectivePeers demo_asking" "lastLogIndex ?a = lastLogIndex demo_asking"
    "lastLogTerm ?a = lastLogTerm demo_asking"
    using demo_start_facts(6) by (simp_all add: effectivePeers_def lastLogIndex_def lastLogTerm_def)
  have "''n2'' \<in> set (map fst (effectivePeers demo_asking))"
    by (simp only: demo_start_facts(8) list.set_intros)
  then obtain p where p: "p \<in> set (effectivePeers demo_asking)" "fst p = ''n2''" by auto
  then have c: "demo_candidate = emit (map (\<lambda>p. GoSendRequestVote (fst p) 1 0 0) (effectivePeers demo_asking)) ?a"
    using e demo_start_facts(2,5,9,10)
    by (auto simp: demo_candidate_eq transitionToCandidate_eq startElection_def Let_def)
  show "raft_id demo_candidate = ''n1''" "state demo_candidate = Candidate" "currentTerm demo_candidate = 1"
    "votesReceived demo_candidate = [(''n1'', True)]" "currentConfig demo_candidate = currentConfig demo_asking"
    using demo_start_facts(2,5) by (simp_all add: c emit_def)
  show "GoSendRequestVote ''n2'' 1 0 0 \<in> set (outbox demo_candidate)"
    using p by (force simp: c emit_def)
qed

lemma demo_leader_facts: "state demo_leader = Leader" "currentTerm demo_leader = 1"
proof -
  have "AList.update ''n2'' True [(''n1'', True)] = [(''n1'', True), (''n2'', True)]" by simp
  then show "state demo_leader = Leader" "currentTerm demo_leader = 1"
    using demo_candidate_facts demo_start_facts(6) demo_majority
    by (simp_all add: demo_leader_def processRequestVoteResponse_def demo_yes_def Let_def voteMajority_config
        transitionToLeader_state del: HasMajority.simps)
qed

lemma demo_deliver:
  assumes "i \<in> {''n1'', ''n2''}" "(i, m) \<in> set ps" "keeps_members demo_members m (nodes (demo_cluster a b ps) i)"
    and "handleRPC m (nodes (demo_cluster a b ps) i) = (r', resp)" "reply i m resp = set qs"
  shows "cstep demo_members (demo_cluster a b ps)
    (if i = ''n1'' then demo_cluster r' b (ps @ qs) else demo_cluster a r' (ps @ qs))"
proof -
  have "(if i = ''n1'' then demo_cluster r' b (ps @ qs) else demo_cluster a r' (ps @ qs)) =
      (stepNode i r' (demo_cluster a b ps))\<lparr>net := net (demo_cluster a b ps) \<union> reply i m resp\<rparr>"
    using assms(1,5) by (auto simp: demo_cluster_def stepNode_def fun_upd_twist)
  moreover have "i \<in> demo_members" using assms(1) by (auto simp: demo_members_def)
  ultimately show ?thesis
    using deliver [of i demo_members m "demo_cluster a b ps" r' resp] assms(2-4) by (simp add: demo_cluster_def)
qed

lemma demo_send:
  assumes "sends a pk"
  shows "cstep demo_members (demo_cluster a b ps) (demo_cluster a b (pk # ps))"
  using send [of "''n1''" demo_members "demo_cluster a b ps" pk] assms
  by (simp add: demo_cluster_def demo_members_def)

text \<open>The packets of the run, newest first.\<close>

abbreviation demo_net :: "packet list" where
  "demo_net \<equiv> [(''n2'', requestVoteMsg demo_req), (''n2'', preVoteReqMsg demo_req), (''n1'', preVoteRespMsg ''n2'' demo_yes)]"

lemma demo_steps:
  "cstep demo_members (demo_cluster (demo_start ''n1'') (demo_start ''n2'') []) (demo_cluster demo_asking (demo_start ''n2'') [])"
  "cstep demo_members (demo_cluster demo_asking (demo_start ''n2'') []) (demo_cluster demo_asking (demo_start ''n2'') [(''n2'', preVoteReqMsg demo_req)])"
  "cstep demo_members (demo_cluster demo_asking (demo_start ''n2'') [(''n2'', preVoteReqMsg demo_req)])
      (demo_cluster demo_asking (demo_start ''n2'') [(''n2'', preVoteReqMsg demo_req), (''n1'', preVoteRespMsg ''n2'' demo_yes)])"
  "cstep demo_members (demo_cluster demo_asking (demo_start ''n2'') [(''n2'', preVoteReqMsg demo_req), (''n1'', preVoteRespMsg ''n2'' demo_yes)])
      (demo_cluster demo_candidate (demo_start ''n2'') [(''n2'', preVoteReqMsg demo_req), (''n1'', preVoteRespMsg ''n2'' demo_yes)])"
  "cstep demo_members (demo_cluster demo_candidate (demo_start ''n2'') [(''n2'', preVoteReqMsg demo_req), (''n1'', preVoteRespMsg ''n2'' demo_yes)])
      (demo_cluster demo_candidate (demo_start ''n2'') demo_net)"
  "cstep demo_members (demo_cluster demo_candidate (demo_start ''n2'') demo_net)
      (demo_cluster demo_candidate demo_voter (demo_net @ [(''n1'', voteRespMsg ''n2'' demo_yes)]))"
  "cstep demo_members (demo_cluster demo_candidate demo_voter (demo_net @ [(''n1'', voteRespMsg ''n2'' demo_yes)]))
      (demo_cluster demo_leader demo_voter (demo_net @ [(''n1'', voteRespMsg ''n2'' demo_yes)]))"
proof -
  let ?s = "demo_start ''n2''"
  show "cstep demo_members (demo_cluster (demo_start ''n1'') (demo_start ''n2'') []) (demo_cluster demo_asking (demo_start ''n2'') [])"
    using timer [of "''n1''" demo_members "demo_cluster (demo_start ''n1'') (demo_start ''n2'') []"]
    by (simp add: demo_cluster_def stepNode_def demo_asking_def demo_members_def fun_upd_twist)
  show "cstep demo_members (demo_cluster demo_asking (demo_start ''n2'') []) (demo_cluster demo_asking (demo_start ''n2'') [(''n2'', preVoteReqMsg demo_req)])"
    using demo_start_facts(2,3)
    by (intro demo_send pre_vote [where pt = None and conns = "[(''n2'', ''h:2'')]"])
      (auto simp: sendPreVote_def callPeer_def checkNetworkFault_def at_def has_key_def demo_req_def)
  show "cstep demo_members (demo_cluster demo_asking (demo_start ''n2'') [(''n2'', preVoteReqMsg demo_req)])
      (demo_cluster demo_asking ?s [(''n2'', preVoteReqMsg demo_req), (''n1'', preVoteRespMsg ''n2'' demo_yes)])"
    using demo_deliver [of "''n2''" "preVoteReqMsg demo_req" "[(''n2'', preVoteReqMsg demo_req)]" demo_asking ?s ?s
        "Some (VoteResp demo_yes)" "[(''n1'', preVoteRespMsg ''n2'' demo_yes)]"] demo_start_facts(1)
    by (simp add: keeps_members_def demo_cluster_def) (simp add: demo_req_def)
  show "cstep demo_members (demo_cluster demo_asking (demo_start ''n2'') [(''n2'', preVoteReqMsg demo_req), (''n1'', preVoteRespMsg ''n2'' demo_yes)])
      (demo_cluster demo_candidate ?s [(''n2'', preVoteReqMsg demo_req), (''n1'', preVoteRespMsg ''n2'' demo_yes)])"
    using demo_deliver [of "''n1''" "preVoteRespMsg ''n2'' demo_yes"
        "[(''n2'', preVoteReqMsg demo_req), (''n1'', preVoteRespMsg ''n2'' demo_yes)]" demo_asking ?s demo_candidate None "[]"]
    by (simp add: keeps_members_def demo_cluster_def demo_candidate_def)
  show "cstep demo_members (demo_cluster demo_candidate (demo_start ''n2'') [(''n2'', preVoteReqMsg demo_req), (''n1'', preVoteRespMsg ''n2'' demo_yes)])
      (demo_cluster demo_candidate ?s demo_net)"
    using demo_candidate_facts(1,6)
    by (intro demo_send request_vote [where pt = None and conns = "[(''n2'', ''h:2'')]"])
      (auto simp: sendRequestVote_def callPeer_def checkNetworkFault_def at_def has_key_def demo_req_def)
  show "cstep demo_members (demo_cluster demo_candidate (demo_start ''n2'') demo_net)
      (demo_cluster demo_candidate demo_voter (demo_net @ [(''n1'', voteRespMsg ''n2'' demo_yes)]))"
    using demo_deliver [of "''n2''" "requestVoteMsg demo_req" demo_net demo_candidate ?s demo_voter
        "Some (VoteResp demo_yes)" "[(''n1'', voteRespMsg ''n2'' demo_yes)]"] demo_voter_facts
    by (simp add: keeps_members_def demo_cluster_def demo_voter_def) (simp add: demo_req_def)
  show "cstep demo_members (demo_cluster demo_candidate demo_voter (demo_net @ [(''n1'', voteRespMsg ''n2'' demo_yes)]))
      (demo_cluster demo_leader demo_voter (demo_net @ [(''n1'', voteRespMsg ''n2'' demo_yes)]))"
    using demo_deliver [of "''n1''" "voteRespMsg ''n2'' demo_yes" "demo_net @ [(''n1'', voteRespMsg ''n2'' demo_yes)]"
        demo_candidate demo_voter demo_leader None "[]"]
    by (simp add: keeps_members_def demo_cluster_def demo_leader_def)
qed

lemma demo_run:
  "(cstep demo_members)\<^sup>*\<^sup>* (demo_cluster (demo_start ''n1'') (demo_start ''n2'') [])
     (demo_cluster demo_leader demo_voter (demo_net @ [(''n1'', voteRespMsg ''n2'' demo_yes)]))"
  using demo_steps by (meson rtranclp.rtrancl_refl rtranclp.rtrancl_into_rtrancl)

lemma demo_init: "cluster_init demo_members (demo_cluster (demo_start ''n1'') (demo_start ''n2'') [])"
proof -
  have "first_start demo_members i (demo_start i)" if "i \<in> demo_members" for i
  proof -
    let ?ps = "filter (\<lambda>p. fst p \<noteq> i) [(''n1'', ''h:1''), (''n2'', ''h:2''), (''n3'', ''h:3'')]"
    have b: "blank [] ''d''" by (simp add: blank_def has_key_def)
    moreover have "members ?ps = demo_members - {i}" by (auto simp: members_def demo_members_def)
    ultimately show ?thesis
      unfolding first_start_def demo_start_def using NewRaft_blank [OF b] by blast
  qed
  then show ?thesis by (auto simp: cluster_init_def demo_cluster_def demo_members_def)
qed

theorem election_safety_witness:
  "{j \<in> demo_members. \<exists>c. c = demo_cluster demo_leader demo_voter (demo_net @ [(''n1'', voteRespMsg ''n2'' demo_yes)]) \<and>
      state (nodes c j) = Leader \<and> currentTerm (nodes c j) = 1} = {''n1''}"
proof -
  let ?c = "demo_cluster demo_leader demo_voter (demo_net @ [(''n1'', voteRespMsg ''n2'' demo_yes)])"
  have l: "state (nodes ?c ''n1'') = Leader" "currentTerm (nodes ?c ''n1'') = 1" "''n1'' \<in> demo_members"
    using demo_leader_facts by (simp_all add: demo_cluster_def demo_members_def)
  have "''n1'' = j" if "j \<in> demo_members" "state (nodes ?c j) = Leader" "currentTerm (nodes ?c j) = 1" for j
    using election_safety [OF demo_init demo_run rtranclp.rtrancl_refl l(3) that(1) l(1) that(2)] l(2) that(3) by simp
  with l show ?thesis by blast
qed

end
