(* ===== verification/MapTypes.thy ===== *)
theory MapTypes
  imports Cluster
begin

text \<open>
  The representation invariant of a node. A Go map has each key once, which the lists of
  pairs of the model do not enforce by themselves: \<open>typed\<close> says it of every map of the
  record, those inside the configuration included, and that a table of votes has only
  granted votes, so that its length is the number of nodes that voted. It holds of a node
  that starts from any files and is kept by every event, whatever the bytes of the entries,
  snapshots and messages are.
\<close>

section \<open>The invariant\<close>

definition ballot :: "(string, bool) gomap \<Rightarrow> bool" where
  "ballot m \<longleftrightarrow> wf_map m \<and> (\<forall>p \<in> set m. snd p)"

definition typed :: "raft \<Rightarrow> bool" where
  "typed r \<longleftrightarrow> wf_map (peers r) \<and> wf_map (grpcPeers r) \<and> wf_map (peerHTTPAddrs r) \<and>
     wf_map (kv r) \<and> wf_map (dedupTable r) \<and> wf_map (nextIndex r) \<and> wf_map (matchIndex r) \<and>
     wf_map (proposalTime r) \<and> pred_option wf_map (partition r) \<and> pred_option wf_config (currentConfig r) \<and>
     ballot (votesReceived r) \<and> ballot (preVoteVotesReceived r)"

named_theorems typing \<open>the operations that keep \<open>typed\<close>\<close>

section \<open>Decoding\<close>

lemma foldM_invariant:
  "(\<And>x s s'. f x s = Some s' \<Longrightarrow> P s \<Longrightarrow> P s') \<Longrightarrow> P s \<Longrightarrow> foldM f xs s = Some s' \<Longrightarrow> P s'"
  by (induction xs arbitrary: s) (auto split: option.splits)

lemma decodeStruct_invariant:
  assumes "\<And>n v s s'. upd n v s = Some s' \<Longrightarrow> P s \<Longrightarrow> P s'" "P s" "decodeStruct names upd v s = Some s'"
  shows "P s'"
proof -
  have "P t'" if "decodeMember names upd p t = Some t'" "P t" for p t t'
    using that assms(1) by (auto simp: decodeMember_def split: option.splits)
  with assms(2,3) show ?thesis
    using foldM_invariant [of "decodeMember names upd" P s _ s'] by (auto simp: decodeStruct_def split: json.splits)
qed

lemma setMap_wf: "setMap dec v old = Some m \<Longrightarrow> wf_map old \<Longrightarrow> wf_map m"
  using foldM_invariant [of "setMapMember dec" wf_map old _ m]
  by (auto simp: setMap_def setMapMember_def split: json.splits)

lemma setConfigField_wf: "setConfigField n v c = Some c' \<Longrightarrow> wf_config c \<Longrightarrow> wf_config c'"
  by (auto simp: setConfigField_def wf_config_def dest: setMap_wf split: if_splits)

lemma zeroConfig_wf [simp]: "wf_config zeroConfig"
  by (simp add: zeroConfig_def wf_config_def)

lemma decodeConfig_wf:
  "decodeStruct names setConfigField v c = Some c' \<Longrightarrow> wf_config c \<Longrightarrow> wf_config c'"
  by (rule decodeStruct_invariant [of setConfigField wf_config]) (auto dest: setConfigField_wf)

lemma setConfigPtr_wf: "setConfigPtr v old = Some c \<Longrightarrow> pred_option wf_config old \<Longrightarrow> pred_option wf_config c"
  by (auto simp: setConfigPtr_def dest: decodeConfig_wf split: json.splits option.splits)

lemma decodeEnvelope_wf:
  "decodeStruct names setEnvelopeField v e = Some e' \<Longrightarrow> pred_option wf_config (envConfig e) \<Longrightarrow>
   pred_option wf_config (envConfig e')"
  by (rule decodeStruct_invariant [of setEnvelopeField "\<lambda>s. pred_option wf_config (envConfig s)"])
    (auto simp: setEnvelopeField_def dest: setConfigPtr_wf split: if_splits)

lemma DecodeLogEntry_wf: "DecodeLogEntry bs = Inr e \<Longrightarrow> pred_option wf_config (envConfig e)"
  by (auto simp: DecodeLogEntry_def UnmarshalEnvelope_def zeroEnvelope_def dest: decodeEnvelope_wf
      split: if_splits option.splits)

definition wf_snapshot :: "Snapshot \<Rightarrow> bool" where
  "wf_snapshot s \<longleftrightarrow> wf_map (KVState s) \<and> wf_map (DedupTable s) \<and> pred_option wf_config (snClusterConfig s)"

lemma decodeSnapshot_wf: "decodeSnapshot v = Some s \<Longrightarrow> wf_snapshot s"
  unfolding decodeSnapshot_def
  by (rule decodeStruct_invariant [of setSnapshotField wf_snapshot])
    (auto simp: setSnapshotField_def wf_snapshot_def zeroSnapshot_def dest: setMap_wf setConfigPtr_wf split: if_splits)

lemma UnmarshalSnapshot_wf: "UnmarshalSnapshot bs = Some s \<Longrightarrow> wf_snapshot s"
  by (auto simp: UnmarshalSnapshot_def decodeSnapshot_wf split: option.splits)

lemma LoadSnapshot_wf: "LoadSnapshot fs p = Inr (Some s) \<Longrightarrow> wf_snapshot s"
  by (auto simp: LoadSnapshot_def decodeSnapshot_wf split: option.splits)

section \<open>The loops over maps\<close>

lemma AllNodeHTTP_wf [simp, intro!]: "wf_map (AllNodeHTTP c s)"
  by (cases c) (simp_all add: Let_def addAll_wf addMissing_wf)

lemma BuildFinalConfig_wf: "BuildFinalConfig c = Some d \<Longrightarrow> wf_config d"
  by (cases c) (auto simp: wf_config_def)

lemma connectLoop_wf: "wf_map conns \<Longrightarrow> wf_map (fst (connectLoop en ps conns))"
  by (induction en ps conns rule: connectLoop.induct) (auto split: option.split)

lemma connectNewLoop_wf:
  "wf_map c \<Longrightarrow> wf_map n \<Longrightarrow> wf_map m \<Longrightarrow>
   (case connectNewLoop en i ps (c, n, m) of (c', n', m') \<Rightarrow> wf_map c' \<and> wf_map n' \<and> wf_map m')"
  by (induction en i ps "(c, n, m)" arbitrary: c n m rule: connectNewLoop.induct) (auto split: option.split)

lemma disconnectLoop_wf:
  "wf_map c \<Longrightarrow> wf_map n \<Longrightarrow> wf_map m \<Longrightarrow>
   (case disconnectLoop all ps (c, n, m) of (c', n', m') \<Rightarrow> wf_map c' \<and> wf_map n' \<and> wf_map m')"
  by (induction all ps "(c, n, m)" arbitrary: c n m rule: disconnectLoop.induct) auto

lemma setAll_wf: "wf_map m \<Longrightarrow> wf_map (setAll v ids m)"
  unfolding setAll_def by (induction ids arbitrary: m) auto

lemma ballot_update: "ballot m \<Longrightarrow> ballot (AList.update k True m)"
proof -
  have "snd p" if "\<forall>p \<in> set m. snd p" "p \<in> set (AList.update k True m)" for p
    using that by (induction m) (auto split: if_splits)
  then show "ballot m \<Longrightarrow> ballot (AList.update k True m)" by (simp add: ballot_def)
qed

lemma ballot_Nil [simp]: "ballot []"
  by (simp add: ballot_def)

lemma ballot_length: "ballot m \<Longrightarrow> length m = card (voters_of m)"
proof -
  assume b: "ballot m"
  then have "voters_of m = fst ` set m"
    by (force simp: ballot_def voters_of_def get_bool_def wf_map_def split: option.splits dest: map_of_SomeD)
  with b show ?thesis by (simp add: ballot_def wf_map_card)
qed

section \<open>One node\<close>

text \<open>
  A step that leaves the maps of the record alone, or only deletes, adds or copies, keeps the
  invariant by the lemmas above.
\<close>

lemmas typed_defs = typed_def node_defs Let_def

lemma typed_emit [typing]: "typed r \<Longrightarrow> typed (emit es r)"
  by (simp add: typed_defs)

lemma typed_persist [typing]:
  "typed r \<Longrightarrow> typed (fst (walState r))" "typed r \<Longrightarrow> typed (fst (walTruncate i r))"
  "typed r \<Longrightarrow> typed (fst (walReset r))" "typed r \<Longrightarrow> typed (fst (saveSnap snap r))"
  "typed r \<Longrightarrow> typed (fst (appendLog e r))"
  by (simp_all add: typed_defs)

lemma typed_follower [typing]: "typed r \<Longrightarrow> typed (transitionToFollower t r)"
  by (simp add: typed_defs)

lemma typed_broadcast [typing]: "typed r \<Longrightarrow> typed (broadcastHeartbeats r)"
  by (simp add: typed_defs)

lemma typed_connect [typing]:
  "typed r \<Longrightarrow> typed (fst (connectToPeersLocked r))" "typed r \<Longrightarrow> typed (connectToNewPeers r)"
  "typed r \<Longrightarrow> typed (disconnectRemovedPeers r)"
  using connectNewLoop_wf [of "grpcPeers r" "nextIndex r" "matchIndex r" "env r" "lastLogIndex r" "effectivePeers r"]
    disconnectLoop_wf [of "grpcPeers r" "nextIndex r" "matchIndex r" "effectivePeers r" "grpcPeers r"]
  by (auto simp: typed_defs connectLoop_wf split: prod.splits)

lemma typed_applyConfigEntry [typing]: "typed r \<Longrightarrow> wf_config c \<Longrightarrow> typed (applyConfigEntry c r)"
  by (simp add: typed_defs addAll_wf addMissing_wf)

lemma typed_secondPhase [typing]: "typed r \<Longrightarrow> typed (proposeSecondPhaseConfig c r)"
  by (simp add: proposeSecondPhaseConfig_def typed_defs split: sum.split prod.split option.split)

lemma typed_applyCommand [typing]: "typed r \<Longrightarrow> typed (applyCommand bs r)"
  by (auto simp: applyCommand_def typed_def applyStore_def recordRequest_def split: option.split prod.split if_splits)

lemma typed_restoreConfig [typing]: "typed r \<Longrightarrow> typed (restoreConfig snap r)"
  by (simp add: restoreConfig_def typed_def wf_config_def Let_def addAll_wf addMissing_wf split: option.split)

lemma typed_takeSnapshot [typing]: "typed r \<Longrightarrow> typed (takeSnapshot r)"
  by (simp add: takeSnapshot_def typed_defs split: prod.split option.split)

lemma typed_restoreSnapshot [typing]:
  assumes "typed r" "wf_snapshot snap"
  shows "typed (restoreSnapshot snap r)"
proof -
  let ?r = "(fst (saveSnap snap r))\<lparr>kv := copyMap (KVState snap), dedupTable := DedupTable snap\<rparr>"
  have "typed ?r" using assms by (simp add: typed_defs wf_snapshot_def)
  then have "typed (restoreConfig snap ?r)" by (rule typing)
  then show ?thesis using typed_persist(4) [OF assms(1)]
    by (auto simp: restoreSnapshot_def Let_def typed_def case_prod_unfold walState_def wroteWal_def walReset_def split: option.split)
qed

lemma typed_applyNext [typing]:
  assumes "typed r"
  shows "typed (applyNext r)"
proof -
  have b: "typed (beginApply r)" using assms by (simp add: typed_defs)
  have "typed (applyEnvelope envl (beginApply r))" if "pred_option wf_config (envConfig envl)" for envl
  proof -
    have "typed (applyFinalConfig c (beginApply r))" if "wf_config c" for c
    proof -
      have "typed ((applyConfigEntry c (beginApply r))\<lparr>pendingConfig := False, configChangeIndex := 0\<rparr>)"
        using typed_applyConfigEntry [OF b that] by (simp add: typed_def)
      then show ?thesis by (simp add: applyFinalConfig_def Let_def typing)
    qed
    with that b show ?thesis
      by (auto simp: applyEnvelope_def applyJointConfig_def typing split: option.split)
  qed
  with b show ?thesis
    by (auto simp: applyNext_def Let_def DecodeLogEntry_wf split: option.split sum.split)
qed

lemma typed_applyLoop [typing]: "typed r \<Longrightarrow> typed (applyLoop r)"
proof (induction r rule: applyLoop.induct)
  case (1 r)
  then show ?case by (subst applyLoop.simps) (simp add: typing)
qed

lemma typed_applyLogs [typing]: "typed r \<Longrightarrow> typed (applyLogs r)"
proof -
  assume "typed r"
  then have "typed (compact (applyLoop r))" by (simp add: compact_def typing)
  then show ?thesis by (simp add: applyLogs_def completeProposals_def typed_def emit_def)
qed

lemma typed_commit [typing]: "typed r \<Longrightarrow> typed (applyLogs (r\<lparr>commitIndex := i\<rparr>))"
  by (rule typing) (simp add: typed_def)

section \<open>The handlers\<close>

lemma typed_leader [typing]: "typed r \<Longrightarrow> typed (transitionToLeader r)"
  by (simp add: transitionToLeader_def EncodeNoopEntry_def typed_defs connectLoop_wf setAll_wf split: option.split)

lemma typed_startElection [typing]: "typed r \<Longrightarrow> typed (startElection r)"
  by (simp add: startElection_def Let_def typing)

lemma typed_candidate [typing]: "typed r \<Longrightarrow> typed (transitionToCandidate r)"
  unfolding transitionToCandidate_def Let_def
  by (intro typing) (simp add: typed_defs ballot_def)

lemma typed_preVote [typing]: "typed r \<Longrightarrow> typed (startPreVote r)"
proof -
  assume "typed r"
  then have "typed ((resetElectionTimer r)\<lparr>preVoteVotesReceived := AList.update (raft_id r) True []\<rparr>)"
    by (simp add: typed_defs ballot_def)
  then show ?thesis by (simp add: startPreVote_def Let_def typing del: AList.update.simps)
qed

lemma typed_votes [typing]:
  assumes "typed r"
  shows "typed (processPreVoteResponse p resp r)" "typed (processRequestVoteResponse p resp' r)"
    "typed (fst (processRequestVote req r))"
proof -
  have "typed (r\<lparr>preVoteVotesReceived := AList.update p True (preVoteVotesReceived r)\<rparr>)"
    "typed (r\<lparr>votesReceived := AList.update p True (votesReceived r)\<rparr>)"
    using assms by (simp_all add: typed_def ballot_update)
  with assms show "typed (processPreVoteResponse p resp r)" "typed (processRequestVoteResponse p resp' r)"
    by (simp_all add: processPreVoteResponse_def processRequestVoteResponse_def Let_def typing)
  show "typed (fst (processRequestVote req r))"
    using assms by (simp add: processRequestVote_def Let_def typed_def node_defs)
qed

lemma typed_followLeader [typing]: "typed r \<Longrightarrow> typed (followLeader t p r)"
  by (simp add: followLeader_def stepDownFor_def typed_defs)

lemma typed_appendOne [typing]: "typed r \<Longrightarrow> typed (appendOne r e)"
  by (simp add: appendOne_def typed_defs split: option.split)

lemma typed_append [typing]:
  assumes "typed r"
  shows "typed (fst (processAppendEntries req r))"
proof -
  have "typed (foldl appendOne s es)" if "typed s" for s es
    using that by (induction es arbitrary: s) (simp_all add: typing)
  with assms show ?thesis
    by (auto simp: processAppendEntries_def Let_def advanceCommit_def typing)
qed

lemma typed_appendResponse [typing]:
  assumes "typed r"
  shows "typed (processAppendEntriesResponse p resp r)"
proof -
  have c: "typed (foldl commitStep s ns)" if "typed s" for s ns
    using that by (induction ns arbitrary: s) (simp_all add: commitStep_def typing)
  have "typed (trimProposalTime (observeLag p i j
      (r\<lparr>matchIndex := AList.update p a (matchIndex r), nextIndex := AList.update p b (nextIndex r)\<rparr>)))" for i j a b
    using assms by (simp add: trimProposalTime_def observeLag_def typed_def emit_def)
  then have "typed (foldl commitStep (trimProposalTime (observeLag p i j
      (r\<lparr>matchIndex := AList.update p a (matchIndex r), nextIndex := AList.update p b (nextIndex r)\<rparr>))) ns)" for i j a b ns
    by (rule c)
  moreover have "typed (emit es (r\<lparr>nextIndex := AList.update p n (nextIndex r)\<rparr>))" for es n
    using assms by (simp add: typed_def emit_def)
  ultimately show ?thesis
    using assms by (simp add: processAppendEntriesResponse_def Let_def typing)
qed

lemma typed_snapshot [typing]:
  assumes "typed r"
  shows "typed (fst (processInstallSnapshot req r))" "typed (processInstallSnapshotResponse p resp r)"
proof -
  have b: "typed ((followLeader t q r)\<lparr>snapshotBuf := bs\<rparr>)" for t q bs
    using typed_followLeader [OF assms, of t q] by (simp add: typed_def)
  have "typed (s\<lparr>snapshotBuf := bs\<rparr>)" if "typed s" for s bs using that by (simp add: typed_def)
  with b show "typed (fst (processInstallSnapshot req r))"
    using assms by (auto simp: processInstallSnapshot_def Let_def typed_restoreSnapshot UnmarshalSnapshot_wf split: option.split)
  show "typed (processInstallSnapshotResponse p resp r)"
    using assms by (simp add: processInstallSnapshotResponse_def typed_def node_defs Let_def)
qed

lemma typed_client [typing]:
  assumes "typed r"
  shows "typed (handleClientCommand cmd ch r)" "typed (handleConfigChange req ch r)"
proof -
  have a: "typed (fst (appendLog e r))" for e using assms by (rule typing)
  then have "typed (broadcastHeartbeats (addProposal e ch (stampProposal i (emit es (fst (appendLog e r))))))" for e i es
    by (simp add: typed_def node_defs)
  then show "typed (handleClientCommand cmd ch r)"
    using assms a by (simp add: handleClientCommand_def Let_def case_prod_unfold typing respond_def split: option.split)
  have "typed (broadcastHeartbeats (addProposal e ch (connectToNewPeers (applyConfigEntry c
      ((stampProposal i (fst (appendLog e r)))\<lparr>pendingConfig := True, configChangeIndex := j\<rparr>)))))" if "wf_config c" for e i j c
  proof -
    have "typed ((stampProposal i (fst (appendLog e r)))\<lparr>pendingConfig := True, configChangeIndex := j\<rparr>)"
      using a [of e] by (simp add: typed_def stampProposal_def)
    then have "typed (connectToNewPeers (applyConfigEntry c
        ((stampProposal i (fst (appendLog e r)))\<lparr>pendingConfig := True, configChangeIndex := j\<rparr>)))"
      using that by (intro typing)
    then show ?thesis by (simp add: typed_def addProposal_def broadcastHeartbeats_def emit_def)
  qed
  then show "typed (handleConfigChange req ch r)"
    using assms a BuildJointConfig_wf [of "currentConfig r" "raft_id r" req]
    by (simp add: handleConfigChange_def Let_def case_prod_unfold typing respond_def split: option.split sum.split)
qed

lemma typed_timer [typing]: "typed r \<Longrightarrow> typed (electionTimerFired r)"
proof -
  assume "typed r"
  then have "typed (r\<lparr>electionTimer := t\<rparr>)" for t by (simp add: typed_def)
  then show ?thesis by (simp add: electionTimerFired_def Let_def resetElectionTimer_def typing)
qed

lemma typed_event: "typed r \<Longrightarrow> typed (handleEvent ev r)"
proof (cases ev)
  case (Rpc m)
  then show "typed r \<Longrightarrow> typed (handleEvent ev r)" by (cases m) (simp_all add: typing)
qed (simp_all add: heartbeatTick_def replicateToPeer_def Let_def typing)

lemma typed_adjusts: "adjusts r r' \<Longrightarrow> typed r \<Longrightarrow> typed r'"
proof (induction rule: adjusts.induct)
  case (6 grpc http)
  then show ?case by (auto simp: InitClusterConfig_def typed_def ConfigFromPeers_wf split: option.split)
next
  case 7
  then show ?case by (rule typing)
qed (simp_all add: typed_def adjust_defs)

lemma typed_run: "node_run r s \<Longrightarrow> typed r \<Longrightarrow> typed s"
  by (induction rule: node_run.induct) (auto intro: typed_event typed_adjusts)

section \<open>Starting\<close>

lemma typed_fresh: "wf_map ps \<Longrightarrow> typed (freshRaft en fs nid ps dir thr w)"
  by (simp add: freshRaft_def typed_def ConfigFromPeers_wf)

lemma typed_loadState: "typed r \<Longrightarrow> loadState r = Inr s \<Longrightarrow> typed s"
proof -
  assume r: "typed r"
  have l: "typed (applyLogs (s\<lparr>currentTerm := t, votedFor := v, log := es\<rparr>))"
    "typed (applyLogs (s\<lparr>log := es\<rparr>))" if "typed s" for s t v es
    using that by (intro typing; simp add: typed_def)+
  have k: "typed (r\<lparr>kv := []\<rparr>)" using r by (simp add: typed_def)
  have "typed (restoreConfig snap (r\<lparr>kv := KVState snap, dedupTable := DedupTable snap, lastIncludedIndex := i,
      lastIncludedTerm := t, commitIndex := i, lastApplied := i\<rparr>))" if "wf_snapshot snap" for snap i t
    using r that by (intro typing) (simp add: typed_def wf_snapshot_def)
  with l k show "loadState r = Inr s \<Longrightarrow> typed s"
    by (auto simp: loadState_def Let_def dest!: LoadSnapshot_wf split: sum.splits option.splits if_splits)
qed

section \<open>Property\<close>



end
