(* ===== verification/Machine.thy ===== *)
theory Machine
  imports Steady
begin

text \<open>
  The state machine of a node and its log: applying executes exactly the commands of the
  entries between the applied and the committed position, in log order, each once, whatever
  else those entries are, and a leader that is alone in its cluster executes a client's
  command before it answers.
\<close>

section \<open>The command of an entry\<close>

definition entryCommand :: "LogEntry \<Rightarrow> Command option" where
  "entryCommand e =
     (if Command e = [] then None
      else (case DecodeLogEntry (Command e) of
              Inl _ \<Rightarrow> None
            | Inr v \<Rightarrow>
                if envType v = EntryCommand
                then (case envData v of None \<Rightarrow> None | Some d \<Rightarrow> if d = [] then None else UnmarshalCommand d)
                else None))"

definition logCommands :: "raft \<Rightarrow> int \<Rightarrow> int \<Rightarrow> Command list" where
  "logCommands r a b = List.map_filter entryCommand (entriesFromTo r a b)"

lemma applyEnvelope_store:
  "(kv (applyEnvelope v r), dedupTable (applyEnvelope v r)) =
     (if envType v = EntryCommand
      then (case envData v of
              None \<Rightarrow> (kv r, dedupTable r)
            | Some d \<Rightarrow> if d = [] then (kv r, dedupTable r)
                        else (case UnmarshalCommand d of
                                None \<Rightarrow> (kv r, dedupTable r)
                              | Some c \<Rightarrow> applyStore c (kv r, dedupTable r)))
      else (kv r, dedupTable r))"
proof (cases "envType v = EntryCommand")
  case True
  then show ?thesis by (simp add: applyEnvelope_def applyCommand_def split: option.split prod.split)
next
  case False
  have "kv (applyJointConfig c r) = kv r" "dedupTable (applyJointConfig c r) = dedupTable r"
    "kv (applyFinalConfig c r) = kv r" "dedupTable (applyFinalConfig c r) = dedupTable r" for c
    by (simp_all add: applyJointConfig_def applyFinalConfig_def proposeSecondPhaseConfig_def node_defs Let_def
        split: option.split sum.split prod.split)
  with False show ?thesis by (simp add: applyEnvelope_def split: option.split)
qed

lemma applyNext_store:
  "(kv (applyNext r), dedupTable (applyNext r)) =
     (case getEntry r (lastApplied r + 1) of
        None \<Rightarrow> (kv r, dedupTable r)
      | Some e \<Rightarrow> (case entryCommand e of
                     None \<Rightarrow> (kv r, dedupTable r)
                   | Some c \<Rightarrow> applyStore c (kv r, dedupTable r)))"
proof -
  let ?b = "beginApply r"
  have b: "kv ?b = kv r" "dedupTable ?b = dedupTable r" "lastApplied ?b = lastApplied r + 1"
    "getEntry ?b = getEntry r"
    using getEntry_cong [of ?b r] by (simp_all add: node_defs)
  show ?thesis
  proof (cases "getEntry r (lastApplied r + 1)")
    case None
    with b show ?thesis by (simp add: applyNext_def Let_def)
  next
    case (Some e)
    with b show ?thesis
      using applyEnvelope_store [of _ ?b]
      by (auto simp: applyNext_def Let_def entryCommand_def split: sum.split option.split)
  qed
qed

lemma applyNext_getEntry:
  assumes "wf_log r" "i \<le> lastLogIndex r"
  shows "getEntry (applyNext r) i = getEntry r i"
  using applyNext_log [of r] assms lastLogIndex_eq [OF assms(1)]
  by (auto simp: grows_by_one_def getEntry_def Let_def nth_append)

lemma logCommands_step:
  "a \<le> b \<Longrightarrow> logCommands r a b =
     (case getEntry r a of None \<Rightarrow> [] | Some e \<Rightarrow> (case entryCommand e of None \<Rightarrow> [] | Some c \<Rightarrow> [c]))
       @ logCommands r (a + 1) b"
  by (simp add: logCommands_def entriesFromTo_def upto_rec1 List.map_filter_simps split: option.split)

lemma applyLoop_store:
  "wf_log r \<Longrightarrow> commitIndex r \<le> lastLogIndex r \<Longrightarrow>
   (kv (applyLoop r), dedupTable (applyLoop r)) =
     applyAll (logCommands r (lastApplied r + 1) (commitIndex r)) (kv r, dedupTable r)"
proof (induction r rule: applyLoop.induct)
  case (1 r)
  show ?case
  proof (cases "lastApplied r < commitIndex r")
    case False
    then have "logCommands r (lastApplied r + 1) (commitIndex r) = []"
      by (simp add: logCommands_def entriesFromTo_def List.map_filter_simps)
    with False show ?thesis by (simp add: applyLoop.simps applyAll_def)
  next
    case True
    let ?n = "applyNext r"
    have "entriesFromTo ?n a (commitIndex r) = entriesFromTo r a (commitIndex r)" for a
      unfolding entriesFromTo_def List.map_filter_def using 1(2,3) applyNext_getEntry [of r]
      by (intro arg_cong2 [of _ _ _ _ map] filter_cong map_cong) auto
    then have c: "logCommands ?n a (commitIndex r) = logCommands r a (commitIndex r)" for a
      by (simp add: logCommands_def)
    have "(kv (applyLoop ?n), dedupTable (applyLoop ?n)) =
        applyAll (logCommands r (lastApplied r + 2) (commitIndex r)) (kv ?n, dedupTable ?n)"
      using 1(1) [OF True] 1(2,3) applyNext_wf applyNext_last [of r] by (simp add: c add.assoc)
    also have "\<dots> = applyAll (logCommands r (lastApplied r + 1) (commitIndex r)) (kv r, dedupTable r)"
      using True unfolding applyNext_store
      by (subst (2) logCommands_step) (auto simp: applyAll_def add.assoc split: option.split)
    finally show ?thesis using True by (subst (1 2) applyLoop.simps) simp
  qed
qed

section \<open>Properties\<close>

text \<open>
  C9. The state machine follows the log: \<^verbatim>\<open>applyLogs\<close> brings the applied position up to the
  commit index, and the store and the deduplication table become those that result from
  executing the commands of exactly the entries in between, in their order in the log.
\<close>

theorem apply_logs_executes_committed:
  assumes "node_inv r"
  shows "lastApplied (applyLogs r) = commitIndex r \<and>
    (kv (applyLogs r), dedupTable (applyLogs r)) =
      applyAll (logCommands r (lastApplied r + 1) (commitIndex r)) (kv r, dedupTable r)"
proof -
  have "wf_log r" "commitIndex r \<le> lastLogIndex r" "lastApplied r \<le> commitIndex r"
    using assms by (auto simp: node_inv_def)
  with applyLoop_store [of r] show ?thesis by (simp add: applyLogs_def)
qed

text \<open>A follower of the witness: two committed entries, the second with a command.\<close>

definition demo_committed :: raft where
  "demo_committed = demo_node\<lparr>commitIndex := 2, log := [\<lparr>Index = 1, Term = 1, Command = []\<rparr>,
     \<lparr>Index = 2, Term = 1, Command = ''{\"op\":\"PUT\",\"key\":\"k\",\"val\":\"v\"}''\<rparr>]\<rparr>"

theorem apply_logs_executes_committed_witness:
  "lastApplied (applyLogs demo_committed) = 2 \<and>
   (kv (applyLogs demo_committed), dedupTable (applyLogs demo_committed)) = ([(''k'', ''v'')], [])"
proof -
  have "node_inv demo_committed"
    by (simp add: node_inv_def wf_log_def lastLogIndex_def demo_committed_def demo_node_def freshRaft_def)
  moreover have "applyAll (logCommands demo_committed (lastApplied demo_committed + 1) (commitIndex demo_committed))
      (kv demo_committed, dedupTable demo_committed) = ([(''k'', ''v'')], [])"
    by code_simp
  moreover have "commitIndex demo_committed = 2" by (simp add: demo_committed_def)
  ultimately show ?thesis using apply_logs_executes_committed [of demo_committed] by simp
qed

section \<open>A leader that is alone\<close>

lemma effectivePeers_lone:
  assumes "steady_node {raft_id r} r"
  shows "effectivePeers r = []"
proof -
  from assms obtain c where c: "currentConfig r = Some c" "steady {raft_id r} c" by (auto simp: steady_node_def)
  have "addAll s [] ps = []" if "\<forall>p \<in> set ps. fst p = s" for s ps
    using that by (induction ps) auto
  then show ?thesis using c by (auto simp: effectivePeers_def steady_def members_def)
qed

lemma get_bool_addVoter: "get_bool v k \<Longrightarrow> get_bool (foldl (addVoter n) v ms) k"
  by (induction ms arbitrary: v) (auto simp: addVoter_def get_bool_update)

lemma checkCommitMajority_lone:
  assumes "steady_node {raft_id r} r"
  shows "checkCommitMajority r n"
proof -
  from assms obtain c where c: "currentConfig r = Some c" "steady {raft_id r} c" by (auto simp: steady_node_def)
  let ?v = "foldl (addVoter n) (AList.update (raft_id r) True []) (matchIndex r)"
  have "get_bool ?v (raft_id r)" by (rule get_bool_addVoter) (simp add: get_bool_def)
  moreover from this have "card (members (NewPeers c) \<inter> voters_of ?v) = 1"
    using c(2) by (simp add: steady_def voters_of_def)
  moreover have "card (members (NewPeers c)) = 1" "wf_map (NewPeers c)" "raft_id r \<in> members (NewPeers c)"
    using c(2) by (auto simp: steady_def)
  ultimately have "sideMajority (raft_id r) ?v (NewPeers c)" using sideMajority_exact [of "NewPeers c" "raft_id r" ?v] by simp
  then show ?thesis using c by (simp add: checkCommitMajority_def steady_def)
qed

lemma applyLoop_proposals:
  assumes "plain_log (log r)"
  shows "proposals (applyLoop r) = proposals r"
proof -
  have e: "envType v \<noteq> EntryConfigChange \<Longrightarrow> proposals (applyEnvelope v s) = proposals s" for v s
    by (simp add: applyEnvelope_def applyCommand_def split: option.split prod.split)
  have n: "proposals (applyNext s) = proposals s" if "plain_log (log s)" for s
  proof -
    have "plain_cmd (Command x)" if "getEntry (beginApply s) i = Some x" for x i
      using plain_getEntry [of "beginApply s"] \<open>plain_log (log s)\<close> that by (simp add: node_defs)
    then have "Command x \<noteq> [] \<Longrightarrow> DecodeLogEntry (Command x) = Inr v \<Longrightarrow> envType v \<noteq> EntryConfigChange"
      if "getEntry (beginApply s) i = Some x" for x i v
      using that by (fastforce simp: plain_cmd_def)
    moreover have "proposals (beginApply s) = proposals s" by (simp add: node_defs)
    ultimately show ?thesis by (auto simp: applyNext_def Let_def e split: option.split sum.split)
  qed
  have "plain_log (log (applyLoop r)) \<and> proposals (applyLoop r) = proposals r"
    by (rule applyLoop_induct [where P = "\<lambda>s. plain_log (log s) \<and> proposals s = proposals r"])
      (use assms n applyNext_plain in auto)
  then show ?thesis by simp
qed


lemma entryCommand_proposed:
  assumes "ProposeWithClient op key val cid rid = Inr cmd" "int64 rid"
  shows "entryCommand \<lparr>Index = i, Term = t, Command = cmd\<rparr> =
    Some (sanitizeCommand \<lparr>Op = op, Key = key, Val = val, ClientID = cid, RequestID = rid\<rparr>)"
proof -
  let ?c = "\<lparr>Op = op, Key = key, Val = val, ClientID = cid, RequestID = rid\<rparr>"
  let ?d = "json_print (sanitize_json (jsonCommand ?c))"
  have "int64 (RequestID ?c)" using assms(2) by simp
  from DecodeLogEntry_command [OF this] UnmarshalCommand_sanitized [OF this]
  have "cmd \<noteq> []" "DecodeLogEntry cmd = Inr \<lparr>envType = EntryCommand, envData = Some ?d, envConfig = None\<rparr>"
    "UnmarshalCommand ?d = Some (sanitizeCommand ?c)"
    using assms(1) by (auto simp: ProposeWithClient_def)
  moreover have "?d \<noteq> []" by (simp add: jsonCommand_def json_print.simps)
  ultimately show ?thesis by (simp add: entryCommand_def)
qed

lemma logCommands_snoc:
  assumes "a \<le> b" "getEntry r b = Some e" "entryCommand e = Some c"
  shows "logCommands r a b = logCommands r a (b - 1) @ [c]"
  using assms by (simp add: logCommands_def entriesFromTo_def upto_rec2 List.map_filter_def)


text \<open>The answer to the proposal for the entry at the commit index.\<close>

lemma lone_leader_answers:
  assumes "node_inv r" "plain_log (log r)" "getEntry r (commitIndex r) = Some e"
    and "\<lparr>prIndex = commitIndex r, prTerm = Term e, respCh = ch\<rparr> \<in> set (proposals r)"
  shows "Respond ch \<lparr>success = True, err = None\<rparr> \<in> set (outbox (applyLogs r))"
proof -
  let ?l = "applyLoop r" let ?x = "compact ?l" and ?p = "\<lparr>prIndex = commitIndex r, prTerm = Term e, respCh = ch\<rparr>"
  have l: "log ?l = log r" using applyLoop_plain [OF assms(2)] by simp
  then have "getEntryTerm ?l (commitIndex r) = Term e"
    using getEntry_cong [of ?l r] assms(3) by (simp add: getEntryTerm_def)
  moreover have "wf_log ?l" "lastLogIndex ?l = lastLogIndex r"
    using l assms(1) lastLogIndex_cong [of ?l r] by (auto simp: node_inv_def wf_log_def)
  then have "compacted ?l ?x" using assms(1) by (intro compact_compacted) (auto simp: node_inv_def)
  then have "getEntryTerm ?x (commitIndex r) = getEntryTerm ?l (commitIndex r)"
    using compact_last [of ?l] assms(1) by (intro compacted_getEntryTerm) (auto simp: node_inv_def)
  ultimately have "completeProposal ?x ?p = [Respond ch \<lparr>success = True, err = None\<rparr>]"
    by (simp add: completeProposal_def)
  moreover have "?p \<in> set (proposals ?x)" using assms(4) applyLoop_proposals [OF assms(2)] by simp
  ultimately show ?thesis
    unfolding applyLogs_def completeProposals_def emit_def by (force intro: bexI [of _ ?p])
qed

lemma clientAppended_proposals:
  "proposals (clientAppended cmd ch r) =
     proposals r @ [\<lparr>prIndex = lastLogIndex r + 1, prTerm = currentTerm r, respCh = ch\<rparr>]"
  by (simp add: clientAppended_def node_defs Let_def)

text \<open>
  A write to a leader that is alone: the command is executed behind whatever was still to be
  applied, and the client is answered.
\<close>

lemma lone_leader_write:
  assumes "ProposeWithClient op key val cid rid = Inr cmd" "int64 rid"
    and "state r = Leader" "node_inv r" "steady_node {raft_id r} r"
    and "snd (appendLog \<lparr>Index = lastLogIndex r + 1, Term = currentTerm r, Command = cmd\<rparr> r) = None"
  obtains a where "handleClientCommand cmd ch r = applyLogs a" "node_inv a" "plain_log (log a)" "state a = Leader"
    "currentTerm a = currentTerm r" "steady_node {raft_id a} a" "readSafety a = readSafety r"
    "lastHeartbeatQuorum a = lastHeartbeatQuorum r" "env a = env (clientAppended cmd ch r)"
    "commitIndex a = lastLogIndex r + 1" "lastApplied a = lastApplied r"
    "Respond ch \<lparr>success = True, err = None\<rparr> \<in> set (outbox (applyLogs a))"
    "(kv (applyLogs a), dedupTable (applyLogs a)) =
       applyStore (sanitizeCommand \<lparr>Op = op, Key = key, Val = val, ClientID = cid, RequestID = rid\<rparr>)
         (applyAll (logCommands a (lastApplied r + 1) (lastLogIndex r)) (kv r, dedupTable r))"
proof
  let ?n = "lastLogIndex r + 1" and ?s = "clientAppended cmd ch r"
  let ?e = "\<lparr>Index = ?n, Term = currentTerm r, Command = cmd\<rparr>"
  let ?a = "?s\<lparr>commitIndex := ?n\<rparr>"
  let ?c = "sanitizeCommand \<lparr>Op = op, Key = key, Val = val, ClientID = cid, RequestID = rid\<rparr>"
  show plain: "plain_log (log ?a)"
    using steady_plain [OF assms(5)] plain_proposed [OF assms(1,2)] by simp
  then have steady: "steady_node {raft_id ?s} ?s" using steady_cong [of ?s r "{raft_id r}"] assms(5) by simp
  then show "handleClientCommand cmd ch r = applyLogs ?a"
    using assms(3,6) effectivePeers_lone [of ?s] checkCommitMajority_lone [of ?s]
    by (simp add: handleClientCommand_cases Let_def)
  show "steady_node {raft_id ?a} ?a" using plain steady steady_cong [of ?a ?s "{raft_id ?s}"] by simp
  have "node_inv ?s" using assms(4) clientAppended_extends extends_inv by blast
  then show inv: "node_inv ?a" using assms(4) by (auto simp: node_inv_def wf_log_def clientAppended_last)
  then have wf: "wf_log ?a" "?n \<le> lastLogIndex ?a" by (auto simp: node_inv_def)
  have e: "getEntry ?a ?n = Some ?e"
    using assms(4) by (simp add: getEntry_def Let_def node_inv_def lastLogIndex_eq nth_append)
  show "Respond ch \<lparr>success = True, err = None\<rparr> \<in> set (outbox (applyLogs ?a))"
    using lone_leader_answers [OF inv] e plain by (simp add: clientAppended_proposals)
  have "logCommands ?a (lastApplied ?a + 1) ?n = logCommands ?a (lastApplied ?a + 1) (?n - 1) @ [?c]"
    using e entryCommand_proposed [OF assms(1,2)] assms(4) by (intro logCommands_snoc) (auto simp: node_inv_def)
  moreover have "kv ?s = kv r" "dedupTable ?s = dedupTable r"
    by (simp_all add: clientAppended_def node_defs Let_def)
  ultimately show "(kv (applyLogs ?a), dedupTable (applyLogs ?a)) =
      applyStore ?c (applyAll (logCommands ?a (lastApplied r + 1) (lastLogIndex r)) (kv r, dedupTable r))"
    using applyLoop_store [of ?a] wf by (simp add: applyAll_def applyLogs_def)
qed (use assms(3) in \<open>simp_all add: clientAppended_def node_defs Let_def\<close>)

text \<open>
  A write to a leader that is alone in its cluster: when the entry is written to the WAL,
  the command is executed before the client is answered, the client is told of success, and
  the key then holds the value (both up to invalid UTF-8), for every write that carries no
  client number.
\<close>

theorem lone_leader_put:
  assumes "ProposeWithClient ''PUT'' key val [] rid = Inr cmd" "int64 rid"
    and "state r = Leader" "node_inv r" "steady_node {raft_id r} r"
    and "snd (appendLog \<lparr>Index = lastLogIndex r + 1, Term = currentTerm r, Command = cmd\<rparr> r) = None"
  shows "let r' = handleClientCommand cmd ch r
    in Respond ch \<lparr>success = True, err = None\<rparr> \<in> set (outbox r') \<and>
       map_of (kv r') (sanitize key) = Some (sanitize val) \<and> lastApplied r' = lastLogIndex r + 1"
proof -
  let ?c = "sanitizeCommand \<lparr>Op = ''PUT'', Key = key, Val = val, ClientID = [], RequestID = rid\<rparr>"
  from lone_leader_write [OF assms] obtain a where
    a: "handleClientCommand cmd ch r = applyLogs a" "node_inv a" "commitIndex a = lastLogIndex r + 1"
      "Respond ch \<lparr>success = True, err = None\<rparr> \<in> set (outbox (applyLogs a))"
      "\<exists>st. (kv (applyLogs a), dedupTable (applyLogs a)) = applyStore ?c st" by metis
  have "sanitize ''PUT'' = ''PUT''" by code_simp
  with a(5) have "map_of (kv (applyLogs a)) (sanitize key) = Some (sanitize val)"
    by (auto simp: applyStore_def sanitizeCommand_def tagged_def update_conv' split: if_splits)
  with a show ?thesis
    by (simp add: Let_def applyLogs_def node_inv_def)
qed


text \<open>The nodes of the witnesses: alone in their cluster, with an empty log and some deduplication table.\<close>

definition demo_lone :: "dedup \<Rightarrow> raft" where
  "demo_lone d = (freshRaft demo_env [] ''n1'' [] ''d'' 0 (OpenWAL None))
     \<lparr>state := Leader, currentTerm := 1, dedupTable := d\<rparr>"

definition demo_cmd :: bytes where
  "demo_cmd = ''{\"type\":0,\"data\":{\"op\":\"PUT\",\"key\":\"k\",\"val\":\"v\"}}''"

lemma demo_lone_fields:
  "state (demo_lone d) = Leader" "raft_id (demo_lone d) = ''n1''" "log (demo_lone d) = []"
  "currentTerm (demo_lone d) = 1" "lastLogIndex (demo_lone d) = 0" "lastApplied (demo_lone d) = 0"
  "currentConfig (demo_lone d) = Some (ConfigFromPeers [] [] ''n1'')" "env (demo_lone d) = demo_env"
  "wal (demo_lone d) = OpenWAL None" "kv (demo_lone d) = []" "dedupTable (demo_lone d) = d"
  "proposals (demo_lone d) = []" "outbox (demo_lone d) = []"
  by (simp_all add: demo_lone_def freshRaft_def lastLogIndex_def)

lemma demo_lone_ready:
  "node_inv (demo_lone d)" "steady_node {raft_id (demo_lone d)} (demo_lone d)"
  "length cmd < 1000 \<Longrightarrow> snd (appendLog \<lparr>Index = 1, Term = 1, Command = cmd\<rparr> (demo_lone d)) = None"
proof -
  show "node_inv (demo_lone d)"
    by (simp add: node_inv_def wf_log_def lastLogIndex_def demo_lone_def freshRaft_def)
  have "steady {''n1''} (ConfigFromPeers [] [] ''n1'')"
    by (simp add: steady_def ConfigFromPeers_def copyMap_def members_def wf_map_def)
  then show "steady_node {raft_id (demo_lone d)} (demo_lone d)" by (simp add: steady_node_def demo_lone_fields)
  let ?e = "\<lparr>Index = 1, Term = 1, Command = cmd\<rparr>"
  assume "length cmd < 1000"
  then have "codec_ok demo_marshal demo_unmarshal (WALRecord_Entry ?e)"
    by (intro demo_codec_ok) (simp add: demo_small_def)
  from writeRecord_ok [OF this, of "OpenWAL None"] show "snd (appendLog ?e (demo_lone d)) = None"
    by (simp add: appendLog_def walEntry_def wroteWal_def AppendEntry_def nextWrite_def next_or_def
        demo_lone_fields demo_env_def OpenWAL_def)
qed

theorem lone_leader_put_witness:
  "Respond 7 \<lparr>success = True, err = None\<rparr> \<in> set (outbox (handleClientCommand demo_cmd 7 (demo_lone []))) \<and>
   map_of (kv (handleClientCommand demo_cmd 7 (demo_lone []))) ''k'' = Some ''v''"
proof -
  have p: "ProposeWithClient ''PUT'' ''k'' ''v'' [] 0 = Inr demo_cmd" by code_simp
  have s: "sanitize ''k'' = ''k''" "sanitize ''v'' = ''v''" by code_simp+
  have "length demo_cmd < 1000" by code_simp
  then have "snd (appendLog \<lparr>Index = lastLogIndex (demo_lone []) + 1, Term = currentTerm (demo_lone []),
      Command = demo_cmd\<rparr> (demo_lone [])) = None"
    using demo_lone_ready(3) by (simp add: demo_lone_fields)
  from lone_leader_put [OF p _ demo_lone_fields(1) demo_lone_ready(1,2) this, of 7] s
  show ?thesis by (simp add: Let_def int64_def)
qed

end
