(* ===== verification/History.thy ===== *)
theory History
  imports Proto
begin

text \<open>
  The log protocol in the abstract: what the nodes of a cluster have promised each other
  about their logs, without messages, timers and disks. A history records for every node its
  term and its log, for every term its leader and all that this leader has ever appended,
  and the promises made: the log with which a node ran for a term, the votes with the
  voter's log at the time of the vote, and how much of a leader's log a node has
  acknowledged. Theory \<open>Safety\<close> shows that the cluster model only ever makes these steps.

  Invariants of the history give log matching and leader completeness: an entry of the
  leader's own term that a majority has acknowledged is in the log of every later leader.
\<close>

section \<open>Common prefixes\<close>

lemma take_eq_length: "take n xs = take n ys \<Longrightarrow> n \<le> length ys \<Longrightarrow> n \<le> length xs"
  by (metis length_take min.absorb_iff2 min.commute)

lemma take_eq_le: "take n xs = take n ys \<Longrightarrow> c \<le> n \<Longrightarrow> take c xs = take c ys"
  by (metis min.absorb1 take_take)

lemma take_eq_nth: "take n xs = take n ys \<Longrightarrow> k < n \<Longrightarrow> xs ! k = ys ! k"
  by (metis nth_take)

section \<open>Histories\<close>

record history =
  hTerm :: "string \<Rightarrow> int"
  hLog :: "string \<Rightarrow> LogEntry list"
  hCamp :: "string \<Rightarrow> int \<Rightarrow> LogEntry list option"
  hVotes :: "(string \<times> int \<times> string \<times> LogEntry list) set"
  hLead :: "int \<Rightarrow> string option"
  hLlog :: "int \<Rightarrow> LogEntry list"
  hAck :: "string \<Rightarrow> int \<Rightarrow> nat"

definition lastTerm :: "LogEntry list \<Rightarrow> int" where
  "lastTerm xs = (if xs = [] then 0 else Term (last xs))"

text \<open>The comparison of \<^verbatim>\<open>processRequestVote\<close>, on logs.\<close>

definition up_to_date :: "LogEntry list \<Rightarrow> LogEntry list \<Rightarrow> bool" where
  "up_to_date cl vl \<longleftrightarrow> lastTerm vl < lastTerm cl \<or> lastTerm cl = lastTerm vl \<and> length vl \<le> length cl"

text \<open>The entries carry their positions, from 1.\<close>

definition numbered :: "LogEntry list \<Rightarrow> bool" where
  "numbered xs \<longleftrightarrow> (\<forall>k < length xs. Index (xs ! k) = 1 + int k)"

lemma numbered_snoc [simp]: "numbered (xs @ [e]) \<longleftrightarrow> numbered xs \<and> Index e = 1 + int (length xs)"
  by (auto simp: numbered_def nth_append less_Suc_eq)

lemma numbered_take: "numbered xs \<Longrightarrow> numbered (take n xs)"
  by (simp add: numbered_def)

definition majority :: "string set \<Rightarrow> string set \<Rightarrow> bool" where
  "majority M S \<longleftrightarrow> finite M \<and> card M < 2 * card (M \<inter> S)"

text \<open>A follower's log \<open>xs\<close> becomes \<open>ys\<close>: it grows, or it is cut at an entry that differs.\<close>

definition replaces :: "LogEntry list \<Rightarrow> LogEntry list \<Rightarrow> bool" where
  "replaces ys xs \<longleftrightarrow> take (length xs) ys = xs \<or> (\<exists>k. k < length xs \<and> k < length ys \<and> xs ! k \<noteq> ys ! k)"

definition setTerm :: "string \<Rightarrow> int \<Rightarrow> history \<Rightarrow> history" where
  "setTerm i t h = h\<lparr>hTerm := (hTerm h)(i := t)\<rparr>"

definition setLog :: "string \<Rightarrow> LogEntry list \<Rightarrow> history \<Rightarrow> history" where
  "setLog i xs h = h\<lparr>hLog := (hLog h)(i := xs), hAck := (hAck h)(i := (hAck h i)(hTerm h i := length xs))\<rparr>"

definition setLlog :: "int \<Rightarrow> LogEntry list \<Rightarrow> history \<Rightarrow> history" where
  "setLlog t xs h = h\<lparr>hLlog := (hLlog h)(t := xs)\<rparr>"

text \<open>The steps that node \<open>i\<close> can make.\<close>

inductive hstep :: "string set \<Rightarrow> string \<Rightarrow> history \<Rightarrow> history \<Rightarrow> bool" for M i h where
  raise: "hTerm h i \<le> t \<Longrightarrow> hstep M i h (setTerm i t h)"
| campaign: "hTerm h i < t \<Longrightarrow>
    hstep M i h ((setTerm i t h)\<lparr>hCamp := (hCamp h)(i := (hCamp h i)(t := Some (hLog h i)))\<rparr>)"
| vote: "hCamp h c (hTerm h i) = Some cl \<Longrightarrow> up_to_date cl (hLog h i) \<Longrightarrow>
    hstep M i h (h\<lparr>hVotes := insert (i, hTerm h i, c, hLog h i) (hVotes h)\<rparr>)"
| win: "hCamp h i (hTerm h i) = Some (hLog h i) \<Longrightarrow> hLead h (hTerm h i) = None \<Longrightarrow> 0 < hTerm h i \<Longrightarrow>
    majority M {k. \<exists>vl. (k, hTerm h i, i, vl) \<in> hVotes h} \<Longrightarrow> Term e = hTerm h i \<Longrightarrow> Index e = 1 + int (length (hLog h i)) \<Longrightarrow>
    hstep M i h (setLog i (hLog h i @ [e]) (setLlog (hTerm h i) (hLog h i @ [e])
      (h\<lparr>hLead := (hLead h)(hTerm h i := Some i)\<rparr>)))"
| extend: "hLead h (hTerm h i) = Some i \<Longrightarrow> hLog h i = hLlog h (hTerm h i) \<Longrightarrow> Term e = hTerm h i \<Longrightarrow> Index e = 1 + int (length (hLog h i)) \<Longrightarrow>
    hstep M i h (setLog i (hLog h i @ [e]) (setLlog (hTerm h i) (hLog h i @ [e]) h))"
| accept: "hLead h (hTerm h i) = Some l \<Longrightarrow> take (length xs) (hLlog h (hTerm h i)) = xs \<Longrightarrow>
    replaces xs (hLog h i) \<Longrightarrow> hstep M i h (setLog i xs h)"

section \<open>What a history promises\<close>

text \<open>
  Log matching: an entry of term \<open>t\<close> comes from the leader of \<open>t\<close>, and so does everything
  before it.
\<close>

definition matched :: "history \<Rightarrow> LogEntry list \<Rightarrow> bool" where
  "matched h xs \<longleftrightarrow> (\<forall>k < length xs. hLead h (Term (xs ! k)) \<noteq> None \<and>
     k < length (hLlog h (Term (xs ! k))) \<and> take (Suc k) xs = take (Suc k) (hLlog h (Term (xs ! k))))"

definition log_ok :: "history \<Rightarrow> int \<Rightarrow> LogEntry list \<Rightarrow> bool" where
  "log_ok h T xs \<longleftrightarrow> matched h xs \<and> numbered xs \<and> sorted (map Term xs) \<and> (\<forall>e \<in> set xs. 0 < Term e \<and> Term e \<le> T)"

text \<open>An acknowledged prefix can only be lost to a later leader that has other entries there.\<close>

definition overruled :: "history \<Rightarrow> nat \<Rightarrow> int \<Rightarrow> int \<Rightarrow> bool" where
  "overruled h n t T \<longleftrightarrow> (\<exists>T' k. t < T' \<and> T' \<le> T \<and> hLead h T' \<noteq> None \<and> k < n \<and>
     k < length (hLlog h T') \<and> hLlog h T' ! k \<noteq> hLlog h t ! k)"

definition keeps :: "history \<Rightarrow> string \<Rightarrow> LogEntry list \<Rightarrow> int \<Rightarrow> int \<Rightarrow> bool" where
  "keeps h k xs t T \<longleftrightarrow> (\<forall>n \<le> hAck h k t. take n xs = take n (hLlog h t) \<or> overruled h n t T)"

definition ack_ok :: "history \<Rightarrow> string \<Rightarrow> int \<Rightarrow> bool" where
  "ack_ok h k t \<longleftrightarrow> hAck h k t = 0 \<or>
     hLead h t \<noteq> None \<and> hAck h k t \<le> length (hLlog h t) \<and> t \<le> hTerm h k"

definition vote_kept :: "history \<Rightarrow> string \<times> int \<times> string \<times> LogEntry list \<Rightarrow> int \<Rightarrow> bool" where
  "vote_kept h v T \<longleftrightarrow> (case v of (k, t', c, vl) \<Rightarrow> \<forall>t < t'. keeps h k vl t T)"

definition vote_valid :: "history \<Rightarrow> string \<times> int \<times> string \<times> LogEntry list \<Rightarrow> bool" where
  "vote_valid h v \<longleftrightarrow> (case v of (k, t, c, vl) \<Rightarrow> t \<le> hTerm h k \<and> log_ok h t vl \<and>
     vote_kept h v t \<and> (\<exists>cl. hCamp h c t = Some cl \<and> up_to_date cl vl))"

definition camp_valid :: "history \<Rightarrow> string \<Rightarrow> int \<Rightarrow> LogEntry list \<Rightarrow> bool" where
  "camp_valid h c t cl \<longleftrightarrow> t \<le> hTerm h c \<and> log_ok h (t - 1) cl"

definition elected :: "string set \<Rightarrow> history \<Rightarrow> int \<Rightarrow> string \<Rightarrow> bool" where
  "elected M h T l \<longleftrightarrow> T \<le> hTerm h l \<and> 0 < T \<and> numbered (hLlog h T) \<and>
     majority M {k. \<exists>vl. (k, T, l, vl) \<in> hVotes h \<and> vote_kept h (k, T, l, vl) (T - 1)} \<and>
     (\<exists>cl ext. hCamp h l T = Some cl \<and> hLlog h T = cl @ ext \<and> ext \<noteq> [] \<and> (\<forall>e \<in> set ext. Term e = T))"

definition hist_inv :: "string set \<Rightarrow> history \<Rightarrow> bool" where
  "hist_inv M h \<longleftrightarrow>
     (\<forall>i. log_ok h (hTerm h i) (hLog h i)) \<and>
     (\<forall>i t. keeps h i (hLog h i) t (hTerm h i) \<and> ack_ok h i t) \<and>
     (\<forall>c t cl. hCamp h c t = Some cl \<longrightarrow> camp_valid h c t cl) \<and>
     (\<forall>v \<in> hVotes h. vote_valid h v) \<and>
     (\<forall>T l. hLead h T = Some l \<longrightarrow> elected M h T l)"

section \<open>Histories only grow\<close>

definition hle :: "history \<Rightarrow> history \<Rightarrow> bool" where
  "hle h h' \<longleftrightarrow> (\<forall>i. hTerm h i \<le> hTerm h' i) \<and>
     (\<forall>c t cl. hCamp h c t = Some cl \<longrightarrow> t \<le> hTerm h c \<longrightarrow> hCamp h' c t = Some cl) \<and>
     hVotes h \<subseteq> hVotes h' \<and>
     (\<forall>t l. hLead h t = Some l \<longrightarrow> hLead h' t = Some l \<and> (\<exists>ext. hLlog h' t = hLlog h t @ ext)) \<and>
     (\<forall>k t. hAck h k t \<le> hAck h' k t) \<and> (\<forall>k t. t < hTerm h k \<longrightarrow> hAck h' k t = hAck h k t)"

lemma hle_refl [simp]: "hle h h"
  by (simp add: hle_def)

lemma hle_trans:
  assumes "hle h h'" "hle h' h''" 
  shows "hle h h''"
  unfolding hle_def
proof (intro conjI allI impI)
  fix c t cl assume "hCamp h c t = Some cl" "t \<le> hTerm h c"
  with assms show "hCamp h'' c t = Some cl" by (meson hle_def order_trans)
next
  fix k t assume "t < hTerm h k"
  with assms show "hAck h'' k t = hAck h k t" by (metis hle_def less_le_trans)
qed (use assms in \<open>fastforce simp: hle_def intro: order_trans\<close>)+

lemma hle_lead: "hle h h' \<Longrightarrow> hLead h t = Some l \<Longrightarrow> hLead h' t = Some l"
  by (simp add: hle_def)

lemma hle_more:
  assumes "hle h h'" "hLead h t \<noteq> None"
  obtains ext where "hLlog h' t = hLlog h t @ ext"
  using assms unfolding hle_def by blast

lemma hle_llog:
  assumes "hle h h'" "hLead h t \<noteq> None" "n \<le> length (hLlog h t)"
  shows "take n (hLlog h' t) = take n (hLlog h t)" "n \<le> length (hLlog h' t)"
proof -
  from assms(1,2) obtain ext where "hLlog h' t = hLlog h t @ ext" by (rule hle_more)
  with assms(3) show "take n (hLlog h' t) = take n (hLlog h t)" "n \<le> length (hLlog h' t)" by auto
qed

lemma hle_llog_nth:
  assumes "hle h h'" "hLead h t \<noteq> None" "k < length (hLlog h t)"
  shows "hLlog h' t ! k = hLlog h t ! k"
proof -
  from assms(1,2) obtain ext where "hLlog h' t = hLlog h t @ ext" by (rule hle_more)
  with assms(3) show ?thesis by (simp add: nth_append)
qed

lemma matched_mono:
  assumes "hle h h'" "matched h xs"
  shows "matched h' xs"
  unfolding matched_def
proof (intro allI impI)
  fix k assume "k < length xs"
  with assms(2) have m: "hLead h (Term (xs ! k)) \<noteq> None" "k < length (hLlog h (Term (xs ! k)))"
    "take (Suc k) xs = take (Suc k) (hLlog h (Term (xs ! k)))" by (auto simp: matched_def)
  with hle_llog [OF assms(1) m(1), of "Suc k"] assms(1)
  show "hLead h' (Term (xs ! k)) \<noteq> None \<and> k < length (hLlog h' (Term (xs ! k))) \<and>
      take (Suc k) xs = take (Suc k) (hLlog h' (Term (xs ! k)))"
    by (auto simp: hle_def)
qed

lemma log_ok_mono: "hle h h' \<Longrightarrow> log_ok h T xs \<Longrightarrow> T \<le> T' \<Longrightarrow> log_ok h' T' xs"
  by (force simp: log_ok_def intro: matched_mono)

lemma overruled_mono:
  assumes "hle h h'" "overruled h n t T" "T \<le> T'" "hLead h t \<noteq> None" "n \<le> length (hLlog h t)"
  shows "overruled h' n t T'"
proof -
  from assms(2) obtain S k where s: "t < S" "S \<le> T" "hLead h S \<noteq> None" "k < n"
    "k < length (hLlog h S)" "hLlog h S ! k \<noteq> hLlog h t ! k" by (auto simp: overruled_def)
  then have "hLead h' S \<noteq> None" "k < length (hLlog h' S)" "hLlog h' S ! k = hLlog h S ! k"
    "hLlog h' t ! k = hLlog h t ! k"
    using assms hle_llog(2) [OF assms(1) s(3), of "Suc k"] hle_llog_nth [OF assms(1)] by (auto simp: hle_def)
  with s assms(3) show ?thesis unfolding overruled_def by (intro exI [of _ S] exI [of _ k]) auto
qed

text \<open>The acknowledgements for earlier terms are final, so what is kept stays kept.\<close>

lemma keeps_mono:
  assumes "hle h h'" "keeps h k xs t T" "T \<le> T'" "ack_ok h k t" "hAck h' k t = hAck h k t"
  shows "keeps h' k xs t T'"
  unfolding keeps_def
proof (intro allI impI)
  fix n assume n: "n \<le> hAck h' k t"
  show "take n xs = take n (hLlog h' t) \<or> overruled h' n t T'"
  proof (cases "n = 0")
    case False
    with n assms(4,5) have t: "hLead h t \<noteq> None" "n \<le> length (hLlog h t)" by (auto simp: ack_ok_def)
    then show ?thesis
      using assms(2,5) n hle_llog(1) [OF assms(1) t] overruled_mono [OF assms(1) _ assms(3) t]
      by (auto simp: keeps_def)
  qed simp
qed

lemma ack_ok_mono: "hle h h' \<Longrightarrow> ack_ok h k t \<Longrightarrow> hAck h' k t = hAck h k t \<Longrightarrow> ack_ok h' k t"
  using hle_llog(2) [of h h' t "hAck h k t"]
  by (auto simp: ack_ok_def hle_def intro: order_trans)

lemma vote_kept_mono:
  assumes "hle h h'" "vote_kept h (k, t', c, vl) T" "t' \<le> hTerm h k" "\<And>t. ack_ok h k t"
  shows "vote_kept h' (k, t', c, vl) T"
proof -
  have "hAck h' k t = hAck h k t" if "t < t'" for t
    using assms(1,3) that by (auto simp: hle_def)
  then show ?thesis
    using assms by (auto simp: vote_kept_def intro: keeps_mono)
qed

lemma majority_mono: "majority M S \<Longrightarrow> S \<subseteq> S' \<Longrightarrow> majority M S'"
  using card_mono [of "M \<inter> S'" "M \<inter> S"] by (fastforce simp: majority_def)

lemma hist_invD:
  assumes "hist_inv M h"
  shows "log_ok h (hTerm h i) (hLog h i)" "keeps h i (hLog h i) t (hTerm h i)" "ack_ok h i t"
    "hCamp h c t = Some cl \<Longrightarrow> camp_valid h c t cl" "v \<in> hVotes h \<Longrightarrow> vote_valid h v"
    "hLead h t = Some l \<Longrightarrow> elected M h t l"
  using assms by (auto simp: hist_inv_def)

lemma camp_term: "hist_inv M h \<Longrightarrow> hCamp h c t = Some cl \<Longrightarrow> t \<le> hTerm h c"
  using hist_invD(4) camp_valid_def by blast

lemma vote_valid_mono:
  assumes "hle h h'" "hist_inv M h" "v \<in> hVotes h"
  shows "vote_valid h' v"
proof -
  obtain k t c vl where v: "v = (k, t, c, vl)" by (cases v)
  from hist_invD(5) [OF assms(2,3)] obtain cl where k: "t \<le> hTerm h k" "log_ok h t vl" "vote_kept h (k, t, c, vl) t"
    "hCamp h c t = Some cl" "up_to_date cl vl" by (auto simp: v vote_valid_def)
  moreover have "t \<le> hTerm h' k" "hCamp h' c t = Some cl"
    using assms(1) camp_term [OF assms(2) k(4)] k(1,4) by (auto simp: hle_def intro: order_trans)
  ultimately show ?thesis
    using assms(1) hist_invD(3) [OF assms(2)] by (auto simp: v vote_valid_def intro: vote_kept_mono log_ok_mono)
qed

lemma elected_mono:
  assumes "hle h h'" "hist_inv M h" "hLead h T = Some l" "hLlog h' T = hLlog h T @ ext" "\<forall>e \<in> set ext. Term e = T"
    and "numbered (hLlog h' T)"
  shows "elected M h' T l"
proof -
  have el: "elected M h T l" using assms(2,3) by (rule hist_invD(6))
  have sub: "{k. \<exists>vl. (k, T, l, vl) \<in> hVotes h \<and> vote_kept h (k, T, l, vl) (T - 1)} \<subseteq>
      {k. \<exists>vl. (k, T, l, vl) \<in> hVotes h' \<and> vote_kept h' (k, T, l, vl) (T - 1)}"
  proof clarify
    fix k vl assume k: "(k, T, l, vl) \<in> hVotes h" "vote_kept h (k, T, l, vl) (T - 1)"
    with hist_invD(5) [OF assms(2) k(1)] have "vote_kept h' (k, T, l, vl) (T - 1)"
      by (intro vote_kept_mono [OF assms(1)] hist_invD(3) [OF assms(2)]) (auto simp: vote_valid_def)
    with k(1) assms(1) show "\<exists>vl. (k, T, l, vl) \<in> hVotes h' \<and> vote_kept h' (k, T, l, vl) (T - 1)"
      by (auto simp: hle_def)
  qed
  have t': "T \<le> hTerm h' l" "\<And>cl. hCamp h l T = Some cl \<Longrightarrow> hCamp h' l T = Some cl"
    using assms(1) el camp_term [OF assms(2)] by (auto simp: hle_def elected_def intro: order_trans)
  moreover obtain cl ys where "hCamp h l T = Some cl" "hLlog h T = cl @ ys" "ys \<noteq> []" "\<forall>e \<in> set ys. Term e = T"
    using el by (auto simp: elected_def)
  ultimately have "hCamp h' l T = Some cl" "hLlog h' T = cl @ ys @ ext" "ys @ ext \<noteq> []"
    "\<forall>e \<in> set (ys @ ext). Term e = T" using assms(4,5) by auto
  then show ?thesis
    using el sub t' majority_mono assms(6) unfolding elected_def by blast
qed

section \<open>Every step keeps the invariant\<close>

text \<open>The invariant after a step, given what the step changes.\<close>

lemma hist_inv_step:
  assumes "hist_inv M h" "hle h h'"
    and "\<And>i. hLog h' i \<noteq> hLog h i \<Longrightarrow> log_ok h' (hTerm h' i) (hLog h' i)"
    and "\<And>i t. hLog h' i \<noteq> hLog h i \<or> hAck h' i t \<noteq> hAck h i t \<Longrightarrow>
      keeps h' i (hLog h' i) t (hTerm h' i) \<and> ack_ok h' i t"
    and "\<And>c t cl. hCamp h' c t = Some cl \<Longrightarrow> hCamp h c t = Some cl \<or> camp_valid h' c t cl"
    and "\<And>v. v \<in> hVotes h' \<Longrightarrow> v \<in> hVotes h \<or> vote_valid h' v"
    and "\<And>T l. hLead h' T = Some l \<Longrightarrow> hLead h T = Some l \<and>
      (\<exists>ext. hLlog h' T = hLlog h T @ ext \<and> (\<forall>e \<in> set ext. Term e = T)) \<and>
      (hLlog h' T = hLlog h T \<or> numbered (hLlog h' T)) \<or> elected M h' T l"
  shows "hist_inv M h'"
proof -
  note inv = hist_invD [OF assms(1)]
  have t: "hTerm h i \<le> hTerm h' i" for i using assms(2) by (simp add: hle_def)
  have "log_ok h' (hTerm h' i) (hLog h' i)" for i
    using assms(3) [of i] log_ok_mono [OF assms(2) inv(1) t, of i] by (cases "hLog h' i = hLog h i") auto
  moreover have "keeps h' i (hLog h' i) t (hTerm h' i) \<and> ack_ok h' i t" for i t
    using assms(4) [of i t] keeps_mono [OF assms(2) inv(2) t inv(3)] ack_ok_mono [OF assms(2) inv(3)]
    by (cases "hLog h' i = hLog h i \<and> hAck h' i t = hAck h i t") auto
  moreover have "camp_valid h' c t cl" if "hCamp h' c t = Some cl" for c t cl
    using assms(5) [OF that] inv(4) [of c t cl] t [of c] log_ok_mono [OF assms(2), of "t - 1" cl "t - 1"]
    by (auto simp: camp_valid_def intro: order_trans)
  moreover have "vote_valid h' v" if "v \<in> hVotes h'" for v
    using assms(6) [OF that] vote_valid_mono [OF assms(2,1)] by blast
  moreover have "elected M h' T l" if "hLead h' T = Some l" for T l
  proof -
    have "numbered (hLlog h T)" if "hLead h T = Some l" using inv(6) [OF that] by (simp add: elected_def)
    with assms(7) [OF that] elected_mono [OF assms(2,1)] show ?thesis by metis
  qed
  ultimately show ?thesis unfolding hist_inv_def by blast
qed

lemma log_ok_append:
  assumes "log_ok h T xs" "hLead h T \<noteq> None" "hLlog h T = xs @ ys" "\<forall>e \<in> set ys. Term e = T" "0 < T" "numbered (xs @ ys)"
  shows "log_ok h T (xs @ ys)"
proof -
  have x: "matched h xs" "sorted (map Term xs)" "\<forall>e \<in> set xs. 0 < Term e \<and> Term e \<le> T"
    using assms(1) by (auto simp: log_ok_def)
  have "map Term ys = replicate (length ys) T" using assms(4) by (induction ys) auto
  then have "sorted (map Term (xs @ ys))" using x by (auto simp: sorted_append)
  moreover have "matched h (xs @ ys)"
    unfolding matched_def
  proof (intro allI impI)
    fix k assume k: "k < length (xs @ ys)"
    show "hLead h (Term ((xs @ ys) ! k)) \<noteq> None \<and> k < length (hLlog h (Term ((xs @ ys) ! k))) \<and>
        take (Suc k) (xs @ ys) = take (Suc k) (hLlog h (Term ((xs @ ys) ! k)))"
    proof (cases "k < length xs")
      case True
      with x(1) show ?thesis by (simp add: matched_def nth_append)
    next
      case False
      with k assms(4) have "Term ((xs @ ys) ! k) = T" by (simp add: nth_append)
      with k assms(2,3) show ?thesis by simp
    qed
  qed
  ultimately show ?thesis using x(3) assms(4-6) by (auto simp: log_ok_def)
qed

lemma log_ok_take: "log_ok h T xs \<Longrightarrow> log_ok h T (take n xs)"
  by (auto simp: log_ok_def matched_def min_def numbered_take sorted_wrt_take take_map [symmetric] dest: in_set_takeD)

lemma llog_ok:
  assumes "hist_inv M h" "hLead h T = Some l"
  shows "log_ok h T (hLlog h T)"
proof -
  from hist_invD(6) [OF assms] obtain cl ext where e: "hCamp h l T = Some cl" "hLlog h T = cl @ ext"
    "\<forall>e \<in> set ext. Term e = T" "0 < T" "numbered (hLlog h T)" by (auto simp: elected_def)
  then have "log_ok h T cl"
    using hist_invD(4) [OF assms(1) e(1)] log_ok_mono [OF hle_refl, of h "T - 1" cl T] by (simp add: camp_valid_def)
  with e assms(2) show ?thesis using log_ok_append by simp
qed

lemma keeps_acked:
  assumes "hist_inv M h" "n \<le> hAck h i (hTerm h i)"
  shows "take n (hLog h i) = take n (hLlog h (hTerm h i))"
  using hist_invD(2) [OF assms(1), of i "hTerm h i"] assms(2) by (auto simp: keeps_def overruled_def)

text \<open>A log that keeps what it has acknowledged is at least that long.\<close>

lemma keeps_length:
  assumes "hist_inv M h" "n \<le> hAck h i t" "take n xs = take n (hLlog h t)"
  shows "n \<le> length xs"
proof (cases "n = 0")
  case False
  then have "n \<le> length (hLlog h t)" using hist_invD(3) [OF assms(1), of i t] assms(2) by (auto simp: ack_ok_def)
  then show ?thesis using arg_cong [OF assms(3), of length] by simp
qed simp

lemma setLog_simps [simp]:
  "hTerm (setLog i xs h) = hTerm h" "hLog (setLog i xs h) = (hLog h)(i := xs)" "hCamp (setLog i xs h) = hCamp h"
  "hVotes (setLog i xs h) = hVotes h" "hLead (setLog i xs h) = hLead h" "hLlog (setLog i xs h) = hLlog h"
  "hAck (setLog i xs h) k t = (if k = i \<and> t = hTerm h i then length xs else hAck h k t)"
  by (auto simp: setLog_def)

lemma setLlog_simps [simp]:
  "hTerm (setLlog t xs h) = hTerm h" "hLog (setLlog t xs h) = hLog h" "hCamp (setLlog t xs h) = hCamp h"
  "hVotes (setLlog t xs h) = hVotes h" "hLead (setLlog t xs h) = hLead h" "hLlog (setLlog t xs h) = (hLlog h)(t := xs)"
  "hAck (setLlog t xs h) = hAck h"
  by (simp_all add: setLlog_def)

lemma setTerm_simps [simp]:
  "hTerm (setTerm i t h) = (hTerm h)(i := t)" "hLog (setTerm i t h) = hLog h" "hCamp (setTerm i t h) = hCamp h"
  "hVotes (setTerm i t h) = hVotes h" "hLead (setTerm i t h) = hLead h" "hLlog (setTerm i t h) = hLlog h"
  "hAck (setTerm i t h) = hAck h"
  by (simp_all add: setTerm_def)

text \<open>
  A node that takes over the log of the leader of its term, grown or with the conflicting
  part replaced, keeps what it has acknowledged in this and in earlier terms, or loses it to
  this leader.
\<close>

lemma replaced_keeps:
  assumes inv: "hist_inv M h" and "hLead h (hTerm h i) = Some l"
    and "take (length xs) (hLlog h (hTerm h i)) = xs" "replaces xs (hLog h i)" "n \<le> hAck h i t" "t \<le> hTerm h i"
  shows "take n xs = take n (hLlog h t) \<or> overruled h n t (hTerm h i) \<and> t < hTerm h i"
proof -
  let ?T = "hTerm h i"
  have x: "xs ! k = hLlog h ?T ! k" "k < length (hLlog h ?T)" if "k < length xs" for k
  proof -
    have "xs ! k = take (length xs) (hLlog h ?T) ! k" using assms(3) by simp
    then show "xs ! k = hLlog h ?T ! k" using that by simp
    show "k < length (hLlog h ?T)" using that arg_cong [OF assms(3), of length] by simp
  qed
  from hist_invD(2) [OF inv, of i t] assms(5)
  consider (lost) "overruled h n t ?T" | (kept) "take n (hLog h i) = take n (hLlog h t)"
    by (auto simp: keeps_def)
  then show ?thesis
  proof cases
    case lost
    then show ?thesis by (auto simp: overruled_def)
  next
    case kept
    then have len: "n \<le> length (hLog h i)" by (rule keeps_length [OF inv assms(5)])
    consider (grown) "take (length (hLog h i)) xs = hLog h i"
      | (cut) k where "k < length (hLog h i)" "k < length xs" "hLog h i ! k \<noteq> xs ! k" "k < n"
      | (late) k where "k < length xs" "n \<le> k" "\<forall>j < n. hLog h i ! j = xs ! j"
      using assms(4) unfolding replaces_def by (metis le_less_trans less_or_eq_imp_le linorder_not_le len order_less_le_trans)
    then show ?thesis
    proof cases
      case grown
      have "take n xs = take n (take (length (hLog h i)) xs)" using len by (simp add: min_def)
      with grown kept show ?thesis by simp
    next
      case cut
      have "hLlog h t ! k = hLog h i ! k" using arg_cong [OF kept, of "\<lambda>ys. ys ! k"] cut(4) by simp
      then have c: "hLlog h ?T ! k \<noteq> hLlog h t ! k" "k < length (hLlog h ?T)" using cut x by auto
      then have "t < ?T" using assms(6) by (cases "t = ?T") auto
      with c cut(4) assms(2) show ?thesis by (auto simp: overruled_def)
    next
      case late
      have "take n xs = take n (hLog h i)" using late len by (intro nth_equalityI) auto
      with kept show ?thesis by simp
    qed
  qed
qed

lemma hle_raise: "hTerm h i \<le> t \<Longrightarrow> hle h (setTerm i t h)"
  by (simp add: hle_def)

lemma hle_campaign:
  "hTerm h i < t \<Longrightarrow> hle h ((setTerm i t h)\<lparr>hCamp := (hCamp h)(i := (hCamp h i)(t := Some (hLog h i)))\<rparr>)"
  by (auto simp: hle_def)

lemma hle_vote: "hle h (h\<lparr>hVotes := insert v (hVotes h)\<rparr>)"
  by (auto simp: hle_def)

lemma ack_unled: "hist_inv M h \<Longrightarrow> hLead h t = None \<Longrightarrow> hAck h k t = 0"
  using hist_invD(3) [of M h k t] by (simp add: ack_ok_def)

lemma ack_future: "hist_inv M h \<Longrightarrow> hTerm h k < t \<Longrightarrow> hAck h k t = 0"
  using hist_invD(3) [of M h k t] by (auto simp: ack_ok_def)

lemma hle_win:
  assumes "hist_inv M h" "hLead h (hTerm h i) = None"
  shows "hle h (setLog i xs (setLlog (hTerm h i) ys (h\<lparr>hLead := (hLead h)(hTerm h i := Some i)\<rparr>)))"
  using assms ack_unled [OF assms] by (auto simp: hle_def)

lemma hle_extend:
  assumes "hist_inv M h" "hLead h (hTerm h i) = Some i" "hLog h i = hLlog h (hTerm h i)"
  shows "hle h (setLog i (hLog h i @ [e]) (setLlog (hTerm h i) (hLog h i @ [e]) h))"
  using assms hist_invD(3) [OF assms(1), of i "hTerm h i"] by (auto simp: hle_def ack_ok_def)

lemma hle_accept:
  assumes "hist_inv M h" "hLead h (hTerm h i) = Some l" "take (length xs) (hLlog h (hTerm h i)) = xs"
    and "replaces xs (hLog h i)"
  shows "hle h (setLog i xs h)"
proof -
  have "hAck h i (hTerm h i) \<le> length xs"
    using replaced_keeps [OF assms order_refl order_refl] by (auto intro: keeps_length [OF assms(1) order_refl])
  then show ?thesis by (auto simp: hle_def)
qed

text \<open>The log of node \<open>i\<close> after it has appended to it as the leader of its term.\<close>

lemma appended_keeps:
  assumes inv: "hist_inv M h" and "hle h h'" "hTerm h' i = hTerm h i" "hLead h' (hTerm h i) \<noteq> None"
    and "hLog h' i = hLog h i @ [e]" "hLlog h' (hTerm h i) = hLog h i @ [e]"
    and "\<And>t. hAck h' i t = (if t = hTerm h i then length (hLog h i @ [e]) else hAck h i t)"
  shows "keeps h' i (hLog h' i) t (hTerm h' i)" "ack_ok h' i t"
proof -
  have "keeps h' i (hLog h' i) t (hTerm h' i) \<and> ack_ok h' i t"
  proof (cases "t = hTerm h i")
    case True
    then show ?thesis using assms by (auto simp: keeps_def ack_ok_def)
  next
    case False
    then have a: "hAck h' i t = hAck h i t" using assms(7) by simp
    have "keeps h' i (hLog h i) t (hTerm h' i)"
      using keeps_mono [OF assms(2) hist_invD(2) [OF inv] _ hist_invD(3) [OF inv] a] assms(3) by simp
    moreover have "n \<le> length (hLog h i)" if "n \<le> hAck h' i t" "take n (hLog h i) = take n (hLlog h' t)" for n
    proof (cases "n = 0")
      case False
      with that(1) a hist_invD(3) [OF inv, of i t] have t: "hLead h t \<noteq> None" "n \<le> length (hLlog h t)"
        by (auto simp: ack_ok_def)
      show ?thesis
        using that a hle_llog(1) [OF assms(2) t] by (intro keeps_length [OF inv, of n i t]) auto
    qed simp
    ultimately have "keeps h' i (hLog h' i) t (hTerm h' i)" using assms(5) by (auto simp: keeps_def)
    moreover have "ack_ok h' i t" using ack_ok_mono [OF assms(2) hist_invD(3) [OF inv] a] .
    ultimately show ?thesis by blast
  qed
  then show "keeps h' i (hLog h' i) t (hTerm h' i)" "ack_ok h' i t" by auto
qed

lemma campaign_inv:
  assumes inv: "hist_inv M h" and "hTerm h i < t"
  shows "hist_inv M ((setTerm i t h)\<lparr>hCamp := (hCamp h)(i := (hCamp h i)(t := Some (hLog h i)))\<rparr>)"
    (is "hist_inv M ?h")
proof (rule hist_inv_step [OF inv hle_campaign [OF assms(2)]])
  fix c t' cl assume "hCamp ?h c t' = Some cl"
  moreover have "log_ok ?h (t - 1) (hLog h i)"
    using log_ok_mono [OF hle_campaign [OF assms(2)] hist_invD(1) [OF inv]] assms(2) by simp
  ultimately show "hCamp h c t' = Some cl \<or> camp_valid ?h c t' cl"
    by (auto simp: camp_valid_def split: if_splits)
qed auto

lemma vote_inv:
  assumes inv: "hist_inv M h" and "hCamp h c (hTerm h i) = Some cl" "up_to_date cl (hLog h i)"
  shows "hist_inv M (h\<lparr>hVotes := insert (i, hTerm h i, c, hLog h i) (hVotes h)\<rparr>)" (is "hist_inv M ?h")
proof (rule hist_inv_step [OF inv hle_vote])
  fix v assume "v \<in> hVotes ?h"
  moreover have "log_ok ?h (hTerm h i) (hLog h i)"
    using log_ok_mono [OF hle_vote hist_invD(1) [OF inv] order_refl] .
  moreover have "keeps ?h i (hLog h i) t (hTerm h i)" for t
    using keeps_mono [OF hle_vote hist_invD(2) [OF inv] order_refl hist_invD(3) [OF inv]] by simp
  ultimately show "v \<in> hVotes h \<or> vote_valid ?h v"
    using assms(2,3) by (auto simp: vote_valid_def vote_kept_def)
qed auto

lemma win_inv:
  assumes inv: "hist_inv M h" and w: "hCamp h i (hTerm h i) = Some (hLog h i)" "hLead h (hTerm h i) = None"
    "0 < hTerm h i" "majority M {k. \<exists>vl. (k, hTerm h i, i, vl) \<in> hVotes h}" "Term e = hTerm h i" "Index e = 1 + int (length (hLog h i))"
  shows "hist_inv M (setLog i (hLog h i @ [e]) (setLlog (hTerm h i) (hLog h i @ [e])
      (h\<lparr>hLead := (hLead h)(hTerm h i := Some i)\<rparr>)))" (is "hist_inv M ?h")
proof -
  let ?T = "hTerm h i"
  have le: "hle h ?h" using inv w(2) by (rule hle_win)
  have log: "log_ok ?h ?T (hLog h i @ [e])"
    using w log_ok_mono [OF le hist_invD(1) [OF inv] order_refl, of i] by (intro log_ok_append) (auto simp: log_ok_def)
  have "vote_kept h (k, ?T, i, vl) (?T - 1)" if "(k, ?T, i, vl) \<in> hVotes h" for k vl
  proof -
    have "overruled h n t ?T \<Longrightarrow> overruled h n t (?T - 1)" for n t
      using w(2) unfolding overruled_def by (metis order_le_less zle_diff1_eq)
    then show ?thesis using hist_invD(5) [OF inv that] by (auto simp: vote_valid_def vote_kept_def keeps_def)
  qed
  then have "vote_kept ?h (k, ?T, i, vl) (?T - 1)" if "(k, ?T, i, vl) \<in> hVotes h" for k vl
    using that hist_invD(5) [OF inv that]
    by (intro vote_kept_mono [OF le] hist_invD(3) [OF inv]) (auto simp: vote_valid_def)
  then have el: "elected M ?h ?T i"
    using w log majority_mono [OF w(4), of "{k. \<exists>vl. (k, ?T, i, vl) \<in> hVotes h \<and> vote_kept ?h (k, ?T, i, vl) (?T - 1)}"]
    by (auto simp: elected_def log_ok_def)
  show ?thesis
  proof (rule hist_inv_step [OF inv le])
    fix j t assume "hLog ?h j \<noteq> hLog h j \<or> hAck ?h j t \<noteq> hAck h j t"
    then have "j = i" by (auto split: if_splits)
    then show "keeps ?h j (hLog ?h j) t (hTerm ?h j) \<and> ack_ok ?h j t"
      using appended_keeps [OF inv le, of i e] by simp
  qed (use log el in \<open>auto split: if_splits\<close>)
qed

lemma extend_inv:
  assumes inv: "hist_inv M h" and w: "hLead h (hTerm h i) = Some i" "hLog h i = hLlog h (hTerm h i)" "Term e = hTerm h i"
    "Index e = 1 + int (length (hLog h i))"
  shows "hist_inv M (setLog i (hLog h i @ [e]) (setLlog (hTerm h i) (hLog h i @ [e]) h))" (is "hist_inv M ?h")
proof -
  let ?T = "hTerm h i"
  have le: "hle h ?h" using inv w(1,2) by (rule hle_extend)
  have "0 < ?T" using hist_invD(6) [OF inv w(1)] by (simp add: elected_def)
  then have log: "log_ok ?h ?T (hLog h i @ [e])"
    using w log_ok_mono [OF le hist_invD(1) [OF inv] order_refl, of i] by (intro log_ok_append) (auto simp: log_ok_def)
  show ?thesis
  proof (rule hist_inv_step [OF inv le])
    fix j t assume "hLog ?h j \<noteq> hLog h j \<or> hAck ?h j t \<noteq> hAck h j t"
    then have "j = i" by (auto split: if_splits)
    then show "keeps ?h j (hLog ?h j) t (hTerm ?h j) \<and> ack_ok ?h j t"
      using appended_keeps [OF inv le, of i e] w(1) by simp
  next
    fix T l assume "hLead ?h T = Some l"
    then show "hLead h T = Some l \<and> (\<exists>ext. hLlog ?h T = hLlog h T @ ext \<and> (\<forall>e \<in> set ext. Term e = T)) \<and>
        (hLlog ?h T = hLlog h T \<or> numbered (hLlog ?h T)) \<or> elected M ?h T l"
      using llog_ok [OF inv, of T l] w log by (auto simp: log_ok_def)
  qed (use log w in \<open>auto split: if_splits\<close>)
qed

lemma accept_inv:
  assumes inv: "hist_inv M h" and w: "hLead h (hTerm h i) = Some l" "take (length xs) (hLlog h (hTerm h i)) = xs"
    "replaces xs (hLog h i)"
  shows "hist_inv M (setLog i xs h)" (is "hist_inv M ?h")
proof -
  let ?T = "hTerm h i"
  have le: "hle h ?h" using inv w by (rule hle_accept)
  have "log_ok h ?T xs" using log_ok_take [OF llog_ok [OF inv w(1)], of "length xs"] w(2) by simp
  then have log: "log_ok ?h ?T xs" using log_ok_mono [OF le] by blast
  have len: "length xs \<le> length (hLlog h ?T)" using arg_cong [OF w(2), of length] by simp
  have ov: "overruled ?h n t T = overruled h n t T" for n t T by (simp add: overruled_def)
  have "keeps ?h i xs t ?T \<and> ack_ok ?h i t" for t
  proof (cases "t = ?T")
    case True
    have "take n xs = take n (hLlog h ?T)" if "n \<le> length xs" for n
      using that by (subst w(2) [symmetric]) (simp add: min_def)
    then show ?thesis using True len w(1) by (auto simp: keeps_def ack_ok_def)
  next
    case False
    have "take n xs = take n (hLlog h t) \<or> overruled h n t ?T" if "n \<le> hAck h i t" for n
      using replaced_keeps [OF inv w that] ack_future [OF inv, of i t] that by (cases "t \<le> ?T") auto
    then show ?thesis using False hist_invD(3) [OF inv, of i t] by (auto simp: keeps_def ack_ok_def ov)
  qed
  with log show ?thesis by (intro hist_inv_step [OF inv le]) (auto split: if_splits)
qed

lemma hstep_inv:
  assumes "hstep M i h h'" "hist_inv M h"
  shows "hist_inv M h' \<and> hle h h'"
  using assms(1)
proof cases
  case (raise t)
  then show ?thesis using hle_raise hist_inv_step [OF assms(2) hle_raise [OF raise(2)]] by auto
next
  case (extend e)
  show ?thesis unfolding extend(1) using extend_inv [OF assms(2) extend(2-5)] hle_extend [OF assms(2) extend(2,3)] by blast
qed (use assms(2) in \<open>auto intro: campaign_inv hle_campaign vote_inv hle_vote win_inv hle_win
      accept_inv hle_accept\<close>)

text \<open>A step of node \<open>i\<close> changes nothing that other nodes have or lead.\<close>

definition local_to :: "string \<Rightarrow> history \<Rightarrow> history \<Rightarrow> bool" where
  "local_to i h h' \<longleftrightarrow> (\<forall>k. k \<noteq> i \<longrightarrow> hTerm h' k = hTerm h k \<and> hLog h' k = hLog h k \<and> hAck h' k = hAck h k \<and>
     hCamp h' k = hCamp h k) \<and>
     (\<forall>T k. k \<noteq> i \<longrightarrow> hLead h' T = Some k \<longrightarrow> hLead h T = Some k \<and> hLlog h' T = hLlog h T)"

lemma local_to_refl [simp]: "local_to i h h"
  by (simp add: local_to_def)

lemma local_to_trans: "local_to i h h' \<Longrightarrow> local_to i h' h'' \<Longrightarrow> local_to i h h''"
  by (auto simp: local_to_def)

lemma hstep_local: "hstep M i h h' \<Longrightarrow> local_to i h h'"
  by (induction rule: hstep.induct) (auto simp: local_to_def setLog_def)

lemma hsteps_inv:
  "(hstep M i)\<^sup>*\<^sup>* h h' \<Longrightarrow> hist_inv M h \<Longrightarrow> hist_inv M h' \<and> hle h h' \<and> local_to i h h'"
proof (induction rule: rtranclp_induct)
  case (step h1 h2)
  then show ?case using hstep_inv hstep_local local_to_trans hle_trans by blast
qed simp

section \<open>Leader completeness\<close>

text \<open>
  The first \<open>n\<close> entries of the leader of term \<open>t\<close> are chosen when the last of them is of term
  \<open>t\<close> and a majority has acknowledged them in term \<open>t\<close>.
\<close>

definition chosen :: "string set \<Rightarrow> history \<Rightarrow> nat \<Rightarrow> int \<Rightarrow> bool" where
  "chosen M h n t \<longleftrightarrow> hLead h t \<noteq> None \<and> 0 < n \<and> n \<le> length (hLlog h t) \<and> Term (hLlog h t ! (n - 1)) = t \<and>
     majority M {k. n \<le> hAck h k t}"

lemma chosen_mono:
  assumes "hle h h'" "chosen M h n t"
  shows "chosen M h' n t" "take n (hLlog h' t) = take n (hLlog h t)"
proof -
  from assms(2) have c: "hLead h t \<noteq> None" "0 < n" "n \<le> length (hLlog h t)" by (auto simp: chosen_def)
  have "hAck h k t \<le> hAck h' k t" for k using assms(1) by (simp add: hle_def)
  then have "{k. n \<le> hAck h k t} \<subseteq> {k. n \<le> hAck h' k t}" by (auto intro: order_trans)
  then have "majority M {k. n \<le> hAck h' k t}" using assms(2) majority_mono unfolding chosen_def by blast
  moreover have "hLead h' t \<noteq> None" using assms(1) c(1) by (auto simp: hle_def)
  moreover have "hLlog h' t ! (n - 1) = hLlog h t ! (n - 1)" using c by (intro hle_llog_nth [OF assms(1)]) auto
  ultimately show "chosen M h' n t"
    using assms(2) hle_llog(2) [OF assms(1) c(1,3)] unfolding chosen_def by metis
  show "take n (hLlog h' t) = take n (hLlog h t)" by (rule hle_llog(1) [OF assms(1) c(1,3)])
qed

lemma majorities_meet:
  assumes "majority M A" "majority M B"
  obtains k where "k \<in> M" "k \<in> A" "k \<in> B"
proof -
  have "(M \<inter> A) \<inter> (M \<inter> B) \<noteq> {}"
    using assms by (intro large_subsets_meet [of M]) (auto simp: majority_def)
  then show ?thesis using that by blast
qed

lemma sorted_terms_nth: "sorted (map Term xs) \<Longrightarrow> i \<le> j \<Longrightarrow> j < length xs \<Longrightarrow> Term (xs ! i) \<le> Term (xs ! j)"
  using sorted_nth_mono [of "map Term xs" i j] by simp

lemma lastTerm_nth: "xs \<noteq> [] \<Longrightarrow> lastTerm xs = Term (xs ! (length xs - 1))"
  by (simp add: lastTerm_def last_conv_nth)

text \<open>A log is a part of the log of the leader of its last term.\<close>

lemma matched_last:
  assumes "matched h xs" "xs \<noteq> []"
  shows "hLead h (lastTerm xs) \<noteq> None" "length xs \<le> length (hLlog h (lastTerm xs))"
    "xs = take (length xs) (hLlog h (lastTerm xs))"
  using assms(1) [unfolded matched_def, rule_format, of "length xs - 1"] assms(2)
  by (auto simp: lastTerm_nth)

text \<open>
  The log of a candidate that is up to date for a voter who has the chosen entries has them
  too, if the leaders between \<open>t\<close> and the candidate's term do.
\<close>

lemma up_to_date_chosen:
  assumes v: "log_ok h T vl" "take n vl = take n (hLlog h t)" and cl: "log_ok h (T - 1) cl" "up_to_date cl vl"
    and n: "0 < n" "n \<le> length (hLlog h t)" "Term (hLlog h t ! (n - 1)) = t" "sorted (map Term (hLlog h t))"
    and IH: "\<And>s. t < s \<Longrightarrow> s < T \<Longrightarrow> hLead h s \<noteq> None \<Longrightarrow> take n (hLlog h s) = take n (hLlog h t)"
  shows "take n cl = take n (hLlog h t)"
proof -
  have len: "n \<le> length vl" using v(2) n(2) by (rule take_eq_length)
  have nth: "Term (vl ! (n - 1)) = t" using take_eq_nth [OF v(2), of "n - 1"] n(1,3) by simp
  have "vl ! (n - 1) \<in> set vl" using n(1) len by (intro nth_mem) simp
  then have tv: "vl \<noteq> []" "0 < t" using n(1) len nth v(1) by (auto simp: log_ok_def)
  have tl: "t \<le> lastTerm vl"
    using sorted_terms_nth [of vl "n - 1" "length vl - 1"] v(1) nth len n(1) tv(1) by (simp add: log_ok_def lastTerm_nth)
  have ne: "cl \<noteq> []" using cl(2) tv tl by (auto simp: up_to_date_def lastTerm_def)
  have mc: "matched h cl" "matched h vl" "lastTerm cl < T" using cl(1) v(1) ne by (auto simp: log_ok_def lastTerm_def)
  show ?thesis
  proof (cases "lastTerm cl = lastTerm vl")
    case True
    then have "n \<le> length cl" using cl(2) len by (simp add: up_to_date_def)
    moreover have "take n cl = take (min n (length cl)) (hLlog h (lastTerm cl))"
      "take n vl = take (min n (length vl)) (hLlog h (lastTerm vl))"
      using matched_last(3) [OF mc(1) ne] matched_last(3) [OF mc(2) tv(1)] by (metis take_take)+
    ultimately show ?thesis using True v(2) len by (simp add: min_def)
  next
    case False
    let ?s = "lastTerm cl"
    have s: "t < ?s" using False cl(2) tl by (auto simp: up_to_date_def)
    with IH mc matched_last(1) [OF mc(1) ne] have eq: "take n (hLlog h ?s) = take n (hLlog h t)" by blast
    have "n \<le> length cl"
    proof (rule ccontr)
      assume "\<not> n \<le> length cl"
      then have k: "length cl - 1 < n" "length cl - 1 < length cl" using ne by auto
      have "cl ! (length cl - 1) = hLlog h ?s ! (length cl - 1)"
        using arg_cong [OF matched_last(3) [OF mc(1) ne], of "\<lambda>ys. ys ! (length cl - 1)"] k(2) by simp
      also have "\<dots> = hLlog h t ! (length cl - 1)"
        using take_eq_nth [OF eq k(1)] .
      finally have "?s \<le> t"
        using sorted_terms_nth [OF n(4), of "length cl - 1" "n - 1"] k n lastTerm_nth [OF ne] by auto
      with s show False by simp
    qed
    moreover have "take n cl = take (min n (length cl)) (hLlog h ?s)"
      using matched_last(3) [OF mc(1) ne] by (metis take_take)
    ultimately show ?thesis using eq by (simp add: min_def)
  qed
qed

lemma chosen_leader:
  assumes inv: "hist_inv M h" and ch: "chosen M h n t"
  shows "t \<le> T \<Longrightarrow> hLead h T = Some l \<Longrightarrow> take n (hLlog h T) = take n (hLlog h t)"
proof (induction "nat (T - t)" arbitrary: T l rule: less_induct)
  case less
  from ch obtain lt where c: "hLead h t = Some lt" "0 < n" "n \<le> length (hLlog h t)" "Term (hLlog h t ! (n - 1)) = t"
    "majority M {k. n \<le> hAck h k t}" by (auto simp: chosen_def)
  have IH: "take n (hLlog h s) = take n (hLlog h t)" if "t < s" "s < T" "hLead h s \<noteq> None" for s
    using that less(1) [of s] by auto
  show ?case
  proof (cases "t = T")
    case False
    with less.prems have tT: "t < T" by simp
    from hist_invD(6) [OF inv less.prems(2)] obtain cl ext where cl: "hCamp h l T = Some cl" "hLlog h T = cl @ ext"
      "majority M {k. \<exists>vl. (k, T, l, vl) \<in> hVotes h \<and> vote_kept h (k, T, l, vl) (T - 1)}" by (auto simp: elected_def)
    from majorities_meet [OF c(5) cl(3)] obtain k vl where k: "n \<le> hAck h k t" "(k, T, l, vl) \<in> hVotes h"
      "vote_kept h (k, T, l, vl) (T - 1)" by blast
    from hist_invD(5) [OF inv k(2)] cl(1) have v: "log_ok h T vl" "up_to_date cl vl" by (auto simp: vote_valid_def)
    have "\<not> overruled h n t (T - 1)"
    proof
      assume "overruled h n t (T - 1)"
      then obtain s j where s: "t < s" "s < T" "hLead h s \<noteq> None" "j < n" "hLlog h s ! j \<noteq> hLlog h t ! j"
        by (auto simp: overruled_def)
      with take_eq_nth [OF IH [OF s(1-3)] s(4)] show False by simp
    qed
    then have kept: "take n vl = take n (hLlog h t)"
      using k(1,3) tT by (auto simp: vote_kept_def keeps_def)
    have "take n cl = take n (hLlog h t)"
      using up_to_date_chosen [OF v(1) kept _ v(2) c(2-4) _ IH] hist_invD(4) [OF inv cl(1)] llog_ok [OF inv c(1)]
      by (auto simp: camp_valid_def log_ok_def)
    moreover from this c(3) have "n \<le> length cl" by (rule take_eq_length)
    ultimately show ?thesis using cl(2) by simp
  qed simp
qed

section \<open>Committed prefixes\<close>

text \<open>The first \<open>c\<close> entries of a log of a node in term \<open>T\<close> are committed.\<close>

definition committed :: "string set \<Rightarrow> history \<Rightarrow> int \<Rightarrow> LogEntry list \<Rightarrow> nat \<Rightarrow> bool" where
  "committed M h T xs c \<longleftrightarrow> c \<le> length xs \<and>
     (c = 0 \<or> (\<exists>n t. t \<le> T \<and> chosen M h n t \<and> c \<le> n \<and> take c xs = take c (hLlog h t)))"

lemma committed_mono:
  assumes "hle h h'" "committed M h T xs c" "T \<le> T'"
  shows "committed M h' T' xs c"
proof (cases "c = 0")
  case False
  with assms(2) obtain n t where c: "t \<le> T" "chosen M h n t" "c \<le> n" "take c xs = take c (hLlog h t)" "c \<le> length xs"
    by (auto simp: committed_def)
  have "chosen M h' n t" "take c xs = take c (hLlog h' t)"
    using chosen_mono [OF assms(1) c(2)] take_eq_le [OF chosen_mono(2) [OF assms(1) c(2)] c(3)] c(4) by auto
  with c assms(3) show ?thesis unfolding committed_def by (meson order_trans)
qed (use assms(2) in \<open>simp add: committed_def\<close>)

text \<open>Two committed prefixes agree.\<close>

lemma committed_agree_le:
  assumes "hist_inv M h" "chosen M h n t" "chosen M h n' t'" "t \<le> t'" "c \<le> n"
  shows "take c (hLlog h t) = take c (hLlog h t')"
proof -
  obtain l where "hLead h t' = Some l" using assms(3) by (auto simp: chosen_def)
  from take_eq_le [OF chosen_leader [OF assms(1,2,4) this] assms(5)] show ?thesis by simp
qed

lemma committed_agree:
  assumes "hist_inv M h" "committed M h T xs a" "committed M h T' ys b" "c \<le> a" "c \<le> b"
  shows "take c xs = take c ys"
proof (cases "c = 0")
  case False
  with assms obtain n t n' t' where 1: "chosen M h n t" "a \<le> n" "take a xs = take a (hLlog h t)"
    "chosen M h n' t'" "b \<le> n'" "take b ys = take b (hLlog h t')" by (auto simp: committed_def)
  have n: "c \<le> n" "c \<le> n'" using 1(2,5) assms(4,5) by auto
  have "take c (hLlog h t) = take c (hLlog h t')"
  proof (cases "t \<le> t'")
    case True
    with committed_agree_le [OF assms(1) 1(1,4)] n show ?thesis by blast
  next
    case False
    with committed_agree_le [OF assms(1) 1(4,1)] n show ?thesis by simp
  qed
  with take_eq_le [OF 1(3) assms(4)] take_eq_le [OF 1(6) assms(5)] show ?thesis by simp
qed simp

text \<open>The leader of a later term, and every node that follows it, has the committed entries.\<close>

lemma committed_leader:
  assumes "hist_inv M h" "committed M h T xs c" "T \<le> T'" "hLead h T' = Some l"
  shows "take c (hLlog h T') = take c xs \<and> c \<le> length (hLlog h T')"
proof (cases "c = 0")
  case False
  with assms(2) obtain n t where c: "t \<le> T" "chosen M h n t" "c \<le> n" "take c xs = take c (hLlog h t)" "c \<le> length xs"
    by (auto simp: committed_def)
  have "t \<le> T'" using c(1) assms(3) by simp
  from take_eq_le [OF chosen_leader [OF assms(1) c(2) this assms(4)] c(3)] c(4)
  have "take c (hLlog h T') = take c xs" by simp
  moreover from this c(5) have "c \<le> length (hLlog h T')" by (rule take_eq_length)
  ultimately show ?thesis by blast
qed simp

lemma committed_replaced:
  assumes "hist_inv M h" "committed M h T (hLog h i) c" "T \<le> hTerm h i"
    and w: "hLead h (hTerm h i) = Some l" "take (length xs) (hLlog h (hTerm h i)) = xs" "replaces xs (hLog h i)"
  shows "take c xs = take c (hLog h i)" "c \<le> length xs" "committed M h T xs c"
proof -
  let ?L = "hLlog h (hTerm h i)"
  from committed_leader [OF assms(1-3) w(1)] have L: "take c ?L = take c (hLog h i)" "c \<le> length ?L" by auto
  have len: "c \<le> length (hLog h i)" using assms(2) by (simp add: committed_def)
  have nth: "xs ! k = hLog h i ! k" if "k < c" "k < length xs" for k
    using that arg_cong [OF w(2), of "\<lambda>ys. ys ! k"] arg_cong [OF L(1), of "\<lambda>ys. ys ! k"] by simp
  show c: "c \<le> length xs"
  proof (rule ccontr)
    assume short: "\<not> c \<le> length xs"
    from w(3) consider "take (length (hLog h i)) xs = hLog h i"
      | k where "k < length (hLog h i)" "k < length xs" "hLog h i ! k \<noteq> xs ! k" by (auto simp: replaces_def)
    then show False
    proof cases
      case 1
      then show False using short len arg_cong [OF 1, of length] by simp
    next
      case 2
      with nth [of k] short show False by simp
    qed
  qed
  show "take c xs = take c (hLog h i)" using c len nth by (intro nth_equalityI) auto
  with assms(2) c show "committed M h T xs c" by (auto simp: committed_def)
qed

text \<open>What an append of the leader of term \<open>t\<close> commits.\<close>

lemma committed_chosen: "chosen M h n t \<Longrightarrow> c \<le> n \<Longrightarrow> t \<le> T \<Longrightarrow> take c xs = take c (hLlog h t) \<Longrightarrow>
    c \<le> length xs \<Longrightarrow> committed M h T xs c"
  by (auto simp: committed_def)

lemma committed_prefix:
  assumes "committed M h T ys c" "take (length xs) ys = xs" "b \<le> c" "b \<le> length xs"
  shows "committed M h T xs b"
proof (cases "b = 0")
  case False
  with assms(1,3) obtain n t where c: "t \<le> T" "chosen M h n t" "c \<le> n" "take c ys = take c (hLlog h t)"
    by (auto simp: committed_def)
  have "take b xs = take b ys" using assms(2,4) by (metis min.absorb1 take_take)
  also have "\<dots> = take b (hLlog h t)" using c(4) assms(3) by (metis min.absorb1 take_take)
  finally show ?thesis using c assms(3,4) unfolding committed_def by (meson order_trans)
qed (simp add: committed_def)

text \<open>Logs with an entry of the same term at the same place agree up to it.\<close>

lemma matched_agree:
  assumes "matched h xs" "matched h ys" "k < length xs" "k < length ys" "Term (xs ! k) = Term (ys ! k)"
  shows "take (Suc k) xs = take (Suc k) ys"
  using assms by (simp add: matched_def)

end
