(* ===== verification/Tracking.thy ===== *)
theory Tracking
  imports MapTypes Machine Replication History
begin

text \<open>
  A node of the cluster model and the history of the log protocol: when a node in state \<open>r\<close>
  follows the history \<open>h\<close>, and that every handler of a node that has never compacted its log
  makes steps of the history and goes on following it. The membership is steady, as in
  theory \<open>Cluster\<close>.
\<close>

section \<open>Nodes that have never compacted their log\<close>

definition whole :: "raft \<Rightarrow> bool" where
  "whole r \<longleftrightarrow> lastIncludedIndex r = 0 \<and> lastIncludedTerm r = 0 \<and> snapshotThreshold r \<le> 0 \<and>
     LoadSnapshot (disk r) (snapshotPath r) = Inr None"

definition asks :: "raft \<Rightarrow> (string \<times> int \<times> int \<times> int) set" where
  "asks r = {(p, t, li, lt). GoSendRequestVote p t li lt \<in> set (outbox r)}"

definition executed :: "LogEntry list \<Rightarrow> store" where
  "executed es = applyAll (List.map_filter entryCommand es) ([], [])"

definition applied :: "raft \<Rightarrow> bool" where
  "applied r \<longleftrightarrow> 0 \<le> lastApplied r \<and> lastApplied r \<le> commitIndex r \<and>
     (kv r, dedupTable r) = executed (take (nat (lastApplied r)) (log r))"

text \<open>Nothing of the log, the store and the snapshot is touched, and no vote is asked for.\<close>

definition still :: "raft \<Rightarrow> raft \<Rightarrow> bool" where
  "still r r' \<longleftrightarrow> log r' = log r \<and> lastIncludedIndex r' = lastIncludedIndex r \<and>
     lastIncludedTerm r' = lastIncludedTerm r \<and> snapshotThreshold r' = snapshotThreshold r \<and>
     disk r' = disk r \<and> snapshotPath r' = snapshotPath r \<and> commitIndex r' = commitIndex r \<and>
     lastApplied r' = lastApplied r \<and> kv r' = kv r \<and> dedupTable r' = dedupTable r \<and> asks r' \<subseteq> asks r"

lemma still_refl [simp]: "still r r"
  by (simp add: still_def)

lemma still_trans: "still r s \<Longrightarrow> still s t \<Longrightarrow> still r t"
  by (auto simp: still_def)

lemma whole_last:
  assumes "whole r" "numbered (log r)"
  shows "lastLogIndex r = int (length (log r))" "lastLogTerm r = lastTerm (log r)" "wf_log r"
proof -
  show wf: "wf_log r" using assms by (simp add: whole_def numbered_def wf_log_def contiguous_def)
  show "lastLogIndex r = int (length (log r))" using lastLogIndex_eq [OF wf] assms(1) by (simp add: whole_def)
  show "lastLogTerm r = lastTerm (log r)" using assms(1) by (simp add: whole_def lastLogTerm_def lastTerm_def)
qed

lemma whole_getEntry:
  assumes "whole r"
  shows "getEntry r (int (Suc n)) = (if n < length (log r) then Some (log r ! n) else None)"
    "getEntryTerm r 0 = 0"
  using assms by (simp_all add: whole_def getEntry_def getEntryTerm_def Let_def)

lemma whole_getEntryTerm:
  assumes "whole r" "n \<le> length (log r)"
  shows "getEntryTerm r (int n) = lastTerm (take n (log r))"
proof (cases n)
  case 0
  then show ?thesis using whole_getEntry(2) [OF assms(1)] by (simp add: lastTerm_def)
next
  case (Suc m)
  with assms(2) have "take n (log r) = take m (log r) @ [log r ! m]" by (simp add: take_Suc_conv_app_nth)
  then show ?thesis using Suc assms whole_getEntry(1) [OF assms(1), of m] by (simp add: getEntryTerm_def lastTerm_def)
qed

lemma whole_entriesFromTo:
  assumes "whole r" "a \<le> b" "b \<le> length (log r)"
  shows "entriesFromTo r (int a + 1) (int b) = drop a (take b (log r))"
  using assms(2,3)
proof (induction "b - a" arbitrary: a)
  case 0
  then show ?case by (simp add: entriesFromTo_def List.map_filter_simps)
next
  case (Suc d)
  then have "a < b" "a < length (log r)" by auto
  moreover have "getEntry r (int a + 1) = Some (log r ! a)"
    using whole_getEntry(1) [OF assms(1), of a] calculation(2) by (simp add: add.commute)
  moreover have "entriesFromTo r (int (Suc a) + 1) (int b) = drop (Suc a) (take b (log r))"
    using Suc by (intro Suc(1)) auto
  ultimately show ?case
    using Suc.prems by (simp add: entriesFromTo_def upto_rec1 List.map_filter_simps Cons_nth_drop_Suc [symmetric] add.commute)
qed

lemma executed_append: "executed (xs @ ys) = applyAll (List.map_filter entryCommand ys) (executed xs)"
  by (simp add: executed_def applyAll_def List.map_filter_def)

text \<open>Applying up to the commit index, without configuration changes and without compaction.\<close>

lemma asks_simps [simp]:
  "asks (r\<lparr>outbox := es\<rparr>) = {(p, t, li, lt). GoSendRequestVote p t li lt \<in> set es}"
  "asks (emit es r) = asks r \<union> {(p, t, li, lt). GoSendRequestVote p t li lt \<in> set es}"
  by (auto simp: asks_def emit_def)

lemma applyNext_plain_rest:
  assumes "plain_log (log r)"
  shows "matchIndex (applyNext r) = matchIndex r" "asks (applyNext r) = asks r"
proof -
  have e: "envType v \<noteq> EntryConfigChange \<Longrightarrow> matchIndex (applyEnvelope v s) = matchIndex s \<and> asks (applyEnvelope v s) = asks s"
    for v s by (simp add: applyEnvelope_def applyCommand_def asks_def split: option.split prod.split)
  have b: "matchIndex (beginApply r) = matchIndex r" "asks (beginApply r) = asks r" by (simp_all add: beginApply_def emit_def asks_def)
  have "matchIndex (applyNext r) = matchIndex r \<and> asks (applyNext r) = asks r"
  proof (cases "getEntry (beginApply r) (lastApplied (beginApply r))")
    case None
    then show ?thesis using b by (simp add: applyNext_def Let_def)
  next
    case (Some x)
    then have "plain_cmd (Command x)" using plain_getEntry [of "beginApply r"] assms by simp
    with Some b e show ?thesis by (auto simp: applyNext_def Let_def plain_cmd_def split: sum.splits)
  qed
  then show "matchIndex (applyNext r) = matchIndex r" "asks (applyNext r) = asks r" by auto
qed

lemma applyLoop_plain_rest:
  assumes "plain_log (log r)"
  shows "matchIndex (applyLoop r) = matchIndex r \<and> asks (applyLoop r) = asks r"
proof -
  have "log (applyLoop r) = log r \<and> matchIndex (applyLoop r) = matchIndex r \<and> asks (applyLoop r) = asks r"
    by (rule applyLoop_induct [of "\<lambda>s. log s = log r \<and> matchIndex s = matchIndex r \<and> asks s = asks r"])
      (use assms in \<open>auto simp: applyNext_plain applyNext_plain_rest\<close>)
  then show ?thesis by blast
qed

lemma asks_completeProposals [simp]: "asks (completeProposals r) = asks r"
  by (auto simp: completeProposals_def completeProposal_def emit_def asks_def split: if_splits)

lemma whole_compact: "whole r \<Longrightarrow> compact r = r"
  by (simp add: whole_def compact_def)

lemma snapshot_completeProposals [simp]:
  "snapshotThreshold (completeProposals r) = snapshotThreshold r" "snapshotPath (completeProposals r) = snapshotPath r"
  by (simp_all add: completeProposals_def emit_def)

lemma applyLogs_whole:
  assumes "whole r" "plain_log (log r)" "numbered (log r)" "applied r" "commitIndex r \<le> int (length (log r))"
  shows "whole (applyLogs r)" "applied (applyLogs r)" "log (applyLogs r) = log r" "state (applyLogs r) = state r"
    "matchIndex (applyLogs r) = matchIndex r" "asks (applyLogs r) = asks r" "commitIndex (applyLogs r) = commitIndex r"
proof -
  have loop: "log (applyLoop r) = log r" "state (applyLoop r) = state r" using applyLoop_plain [OF assms(2)] by auto
  have w: "whole (applyLoop r)" using assms(1) by (simp add: whole_def)
  then have al: "applyLogs r = completeProposals (applyLoop r)" by (simp add: applyLogs_def whole_compact)
  from w show "whole (applyLogs r)" by (simp add: al whole_def)
  show "log (applyLogs r) = log r" "state (applyLogs r) = state r" "matchIndex (applyLogs r) = matchIndex r"
    "asks (applyLogs r) = asks r" "commitIndex (applyLogs r) = commitIndex r"
    using loop applyLoop_plain_rest [OF assms(2)] by (simp_all add: al)
  have a: "0 \<le> lastApplied r" "lastApplied r \<le> commitIndex r"
    "(kv r, dedupTable r) = executed (take (nat (lastApplied r)) (log r))" using assms(4) by (auto simp: applied_def)
  let ?a = "nat (lastApplied r)" and ?c = "nat (commitIndex r)"
  have "entriesFromTo r (lastApplied r + 1) (commitIndex r) = drop ?a (take ?c (log r))"
    using whole_entriesFromTo [OF assms(1), of ?a ?c] a assms(5) by simp
  moreover have "commitIndex r \<le> lastLogIndex r" using whole_last(1) [OF assms(1,3)] assms(5) by simp
  ultimately have "(kv (applyLoop r), dedupTable (applyLoop r)) =
      applyAll (List.map_filter entryCommand (drop ?a (take ?c (log r)))) (executed (take ?a (log r)))"
    using applyLoop_store [OF whole_last(3) [OF assms(1,3)]] a(3) by (simp add: logCommands_def)
  also have "\<dots> = executed (take ?a (take ?c (log r)) @ drop ?a (take ?c (log r)))"
    using a by (simp add: executed_append min_def)
  finally have "(kv (applyLoop r), dedupTable (applyLoop r)) = executed (take ?c (log r))"
    unfolding append_take_drop_id .
  then show "applied (applyLogs r)" using a loop by (simp add: al applied_def max_def)
qed

section \<open>Following a history\<close>

definition asked :: "history \<Rightarrow> string \<Rightarrow> int \<Rightarrow> int \<Rightarrow> int \<Rightarrow> bool" where
  "asked h c t li lt \<longleftrightarrow> (\<exists>cl. hCamp h c t = Some cl \<and> li = int (length cl) \<and> lt = lastTerm cl)"

definition leads :: "string set \<Rightarrow> history \<Rightarrow> string \<Rightarrow> raft \<Rightarrow> bool" where
  "leads M h i r \<longleftrightarrow> hLead h (hTerm h i) = Some i \<and> hLog h i = hLlog h (hTerm h i) \<and>
     hAck h i (hTerm h i) = length (hLog h i) \<and>
     (\<forall>p n. map_of (matchIndex r) p = Some n \<longrightarrow> p \<in> M - {i} \<longrightarrow> n \<le> int (hAck h p (hTerm h i)))"

definition campaigns :: "history \<Rightarrow> string \<Rightarrow> raft \<Rightarrow> bool" where
  "campaigns h i r \<longleftrightarrow> hCamp h i (hTerm h i) = Some (hLog h i) \<and> hLead h (hTerm h i) \<noteq> Some i \<and> 0 < hTerm h i \<and>
     (\<forall>k. get_bool (votesReceived r) k \<longrightarrow> (\<exists>vl. (k, hTerm h i, i, vl) \<in> hVotes h))"

definition tracks :: "string set \<Rightarrow> history \<Rightarrow> string \<Rightarrow> raft \<Rightarrow> bool" where
  "tracks M h i r \<longleftrightarrow> currentTerm r = hTerm h i \<and> 0 \<le> hTerm h i \<and> log r = hLog h i \<and> whole r \<and> applied r \<and>
     committed M h (hTerm h i) (hLog h i) (nat (commitIndex r)) \<and> wf_map (matchIndex r) \<and>
     (state r = Leader \<longrightarrow> leads M h i r) \<and> (state r = Candidate \<longrightarrow> campaigns h i r) \<and>
     (\<forall>(p, t, li, lt) \<in> asks r. asked h i t li lt)"

text \<open>
  A request to append carries the entries from \<open>b\<close> to \<open>n\<close> of the leader's log \<open>L\<close>, the last of
  which is of the leader's own term.
\<close>

definition carries :: "string set \<Rightarrow> AppendEntriesRequest \<Rightarrow> nat \<Rightarrow> nat \<Rightarrow> LogEntry list \<Rightarrow> history \<Rightarrow> bool" where
  "carries M q b n L h \<longleftrightarrow> b \<le> n \<and> n \<le> length L \<and> lastTerm (take n L) = aeTerm q \<and>
     PrevLogIndex q = int b \<and> PrevLogTerm q = lastTerm (take b L) \<and> Entries q = drop b (take n L) \<and>
     committed M h (aeTerm q) L (nat (LeaderCommit q))"

text \<open>
  What a step of node \<open>i\<close> to state \<open>r'\<close> with the messages \<open>ps\<close> must provide: steps of the
  history that it follows, in which only \<open>i\<close> itself can have become a leader.
\<close>

definition packet_ok :: "string set \<Rightarrow> history \<Rightarrow> packet \<Rightarrow> bool" where
  "packet_ok M h pk \<longleftrightarrow> (case pk of (i, m) \<Rightarrow>
     (case m of
        requestVoteMsg q \<Rightarrow> asked h (CandidateId q) (rvTerm q) (LastLogIndex q) (LastLogTerm q)
      | voteRespMsg p a \<Rightarrow> VoteGranted a \<longrightarrow> (\<exists>vl. (p, rvrTerm a, i, vl) \<in> hVotes h)
      | appendEntriesMsg q \<Rightarrow> hLead h (aeTerm q) \<noteq> None \<and>
          (0 < PrevLogIndex q \<and> PrevLogTerm q = 0 \<or> (\<exists>b n. carries M q b n (hLlog h (aeTerm q)) h))
      | appendRespMsg p a \<Rightarrow> Success a \<longrightarrow> MatchIndex a \<le> int (hAck h p (aerTerm a))
      | installSnapshotMsg q \<Rightarrow> False
      | snapshotRespMsg p a \<Rightarrow> False
      | _ \<Rightarrow> True))"

definition simulates :: "string set \<Rightarrow> history \<Rightarrow> string \<Rightarrow> raft \<Rightarrow> packet set \<Rightarrow> bool" where
  "simulates M h i r' ps \<longleftrightarrow> (\<exists>h'. (hstep M i)\<^sup>*\<^sup>* h h' \<and> tracks M h' i r' \<and> (\<forall>pk \<in> ps. packet_ok M h' pk) \<and>
     (\<forall>T l. hLead h' T = Some l \<longrightarrow> hLead h T = Some l \<or> l = i \<and> T = currentTerm r' \<and> state r' = Leader))"

lemma simulates_still:
  "tracks M h i r' \<Longrightarrow> \<forall>pk \<in> ps. packet_ok M h pk \<Longrightarrow> simulates M h i r' ps"
  unfolding simulates_def by blast

lemma tracks_still:
  assumes "tracks M h i r" "still r r'" "currentTerm r' = currentTerm r" "matchIndex r' = matchIndex r"
    and "state r' = state r \<and> votesReceived r' = votesReceived r \<or> state r' \<notin> {Leader, Candidate}"
  shows "tracks M h i r'"
  using assms by (auto simp: tracks_def still_def whole_def applied_def leads_def campaigns_def)

text \<open>What stays true of a node and of a message when other nodes move.\<close>

lemma asked_mono: "hist_inv M h \<Longrightarrow> hle h h' \<Longrightarrow> asked h c t li lt \<Longrightarrow> asked h' c t li lt"
  using camp_term by (fastforce simp: asked_def hle_def)

lemma asks_mono:
  assumes "hist_inv M h" "hle h h'" "\<forall>(p, t, li, lt) \<in> asks r. asked h i t li lt" "asks r' \<subseteq> asks r"
  shows "\<forall>(p, t, li, lt) \<in> asks r'. asked h' i t li lt"
  using asked_mono [OF assms(1,2)] assms(3,4) by blast

lemma tracks_other:
  assumes "hist_inv M h" "hle h h'" "local_to i h h'" "k \<noteq> i" "tracks M h k r"
  shows "tracks M h' k r"
proof -
  have k: "hTerm h' k = hTerm h k" "hLog h' k = hLog h k" "hAck h' k = hAck h k" "hCamp h' k = hCamp h k"
    using assms(3,4) by (auto simp: local_to_def)
  have "leads M h' k r" if "leads M h k r"
  proof -
    have "hLead h' (hTerm h k) = Some k" using that assms(2) by (simp add: leads_def hle_def)
    moreover from this have "hLlog h' (hTerm h k) = hLlog h (hTerm h k)" using assms(3,4) by (simp add: local_to_def)
    moreover have "n \<le> int (hAck h' p t)" if "n \<le> int (hAck h p t)" for n p t
      using that assms(2) unfolding hle_def by (metis of_nat_mono order_trans)
    ultimately show ?thesis using that k by (simp add: leads_def)
  qed
  moreover have "campaigns h' k r" if "campaigns h k r"
    using that k assms(2-4) unfolding campaigns_def hle_def local_to_def by (metis subsetD)
  moreover have "committed M h' (hTerm h' k) (hLog h' k) c" if "committed M h (hTerm h k) (hLog h k) c" for c
    using committed_mono [OF assms(2) that] k by simp
  ultimately show ?thesis
    using assms(5) k asked_mono [OF assms(1,2)] by (auto simp: tracks_def)
qed

lemma committed_longer: "committed M h T xs c \<Longrightarrow> committed M h T (xs @ ys) c"
  by (auto simp: committed_def)

lemma packet_ok_mono:
  assumes "hist_inv M h" "hle h h'" "packet_ok M h pk"
  shows "packet_ok M h' pk"
proof -
  obtain i m where pk: "pk = (i, m)" by (cases pk)
  show ?thesis
  proof (cases m)
    case (appendEntriesMsg q)
    from assms(3) have l: "hLead h (aeTerm q) \<noteq> None" by (simp add: packet_ok_def pk appendEntriesMsg)
    then obtain ext where L: "hLlog h' (aeTerm q) = hLlog h (aeTerm q) @ ext" using assms(2) hle_more by blast
    then have "carries M q b n (hLlog h' (aeTerm q)) h'" if "carries M q b n (hLlog h (aeTerm q)) h" for b n
      using that committed_longer [OF committed_mono [OF assms(2) _ order_refl]] by (simp add: carries_def)
    moreover have "hLead h' (aeTerm q) \<noteq> None" using l assms(2) by (auto simp: hle_def)
    ultimately show ?thesis
      using assms(3) unfolding packet_ok_def pk appendEntriesMsg prod.case rpcReq.case by blast
  next
    case (appendRespMsg p a)
    have "int (hAck h p t) \<le> int (hAck h' p t)" for t using assms(2) by (simp add: hle_def)
    then show ?thesis using assms(3) by (auto simp: packet_ok_def pk appendRespMsg intro: order_trans)
  next
    case (voteRespMsg p a)
    then show ?thesis using assms(2,3) by (auto simp: packet_ok_def pk hle_def)
  next
    case (requestVoteMsg q)
    then show ?thesis using assms(3) asked_mono [OF assms(1,2)] by (simp add: packet_ok_def pk)
  qed (use assms(3) in \<open>simp_all add: packet_ok_def pk\<close>)
qed

section \<open>New terms and elections\<close>

lemma still_follower: "still r (transitionToFollower t r)"
  by (auto simp: still_def asks_def transitionToFollower_def failProposals_def resetElectionTimer_def emit_def Let_def)

lemma tracks_raise:
  assumes "tracks M h i r" "still r r'" "currentTerm r \<le> currentTerm r'" "matchIndex r' = matchIndex r"
    and "state r' \<notin> {Leader, Candidate}"
  shows "hstep M i h (setTerm i (currentTerm r') h)" "tracks M (setTerm i (currentTerm r') h) i r'"
proof -
  let ?h = "setTerm i (currentTerm r') h"
  have t: "hTerm h i \<le> currentTerm r'" using assms(1,3) by (simp add: tracks_def)
  then show "hstep M i h ?h" by (rule hstep.raise)
  have "committed M h (hTerm h i) (hLog h i) (nat (commitIndex r))" using assms(1) by (simp add: tracks_def)
  from committed_mono [OF hle_raise [OF t] this t] have "committed M ?h (hTerm ?h i) (hLog ?h i) (nat (commitIndex r))"
    by simp
  then show "tracks M ?h i r'"
    using assms t by (auto simp: tracks_def still_def whole_def applied_def asked_def)
qed

lemma simulates_raise:
  assumes "tracks M h i r" "still r r'" "currentTerm r \<le> currentTerm r'" "matchIndex r' = matchIndex r"
    and "state r' \<notin> {Leader, Candidate}" "\<forall>pk \<in> ps. packet_ok M (setTerm i (currentTerm r') h) pk"
  shows "simulates M h i r' ps"
  unfolding simulates_def using tracks_raise [OF assms(1-5)] assms(6)
  by (intro exI [of _ "setTerm i (currentTerm r') h"]) auto

text \<open>A new candidate votes for itself.\<close>

lemma still_candidate: "still r (asCandidate r)"
  by (auto simp: still_def asks_def asCandidate_def node_defs)

lemma tracks_candidate:
  assumes inv: "hist_inv M h" and "tracks M h i r" "raft_id r = i"
  shows "\<exists>h'. (hstep M i)\<^sup>*\<^sup>* h h' \<and> tracks M h' i (asCandidate r) \<and> hLead h' = hLead h \<and>
    hCamp h' i (hTerm h' i) = Some (hLog h' i)"
proof -
  let ?t = "currentTerm r + 1"
  define h1 where "h1 = (setTerm i ?t h)\<lparr>hCamp := (hCamp h)(i := (hCamp h i)(?t := Some (hLog h i)))\<rparr>"
  define h2 where "h2 = h1\<lparr>hVotes := insert (i, ?t, i, hLog h i) (hVotes h1)\<rparr>"
  have r: "hTerm h i = currentTerm r" "0 \<le> currentTerm r" using assms(2) by (auto simp: tracks_def)
  then have s1: "hstep M i h h1" unfolding h1_def by (intro hstep.campaign) simp
  have "hstep M i h1 (h1\<lparr>hVotes := insert (i, hTerm h1 i, i, hLog h1 i) (hVotes h1)\<rparr>)"
    by (rule hstep.vote) (auto simp: h1_def up_to_date_def)
  then have s2: "hstep M i h1 h2" by (simp add: h2_def h1_def)
  have steps: "(hstep M i)\<^sup>*\<^sup>* h h2" using s1 s2 by (meson rtranclp.rtrancl_refl rtranclp.rtrancl_into_rtrancl)
  then have le: "hle h h2" using hsteps_inv inv by blast
  have "hLead h ?t \<noteq> Some i" using hist_invD(6) [OF inv, of ?t i] r by (auto simp: elected_def)
  then have "campaigns h2 i (asCandidate r)"
    using r assms(3) by (auto simp: campaigns_def h2_def h1_def get_bool_update)
  moreover have h2: "hTerm h2 i = ?t" "hLog h2 i = hLog h i" by (simp_all add: h2_def h1_def)
  moreover have "committed M h2 ?t (hLog h i) (nat (commitIndex r))"
    using committed_mono [OF le, of M "hTerm h i" "hLog h i" _ ?t] assms(2) r by (simp add: tracks_def)
  moreover have "\<forall>(p, t, li, lt) \<in> asks (asCandidate r). asked h2 i t li lt"
    using assms(2) still_candidate [of r] by (intro asks_mono [OF inv le]) (auto simp: tracks_def still_def)
  moreover have "matchIndex (asCandidate r) = matchIndex r" by (simp add: asCandidate_def node_defs)
  ultimately have "tracks M h2 i (asCandidate r)"
    using assms(2) still_candidate [of r] r(2) unfolding tracks_def still_def whole_def applied_def by simp
  with steps h2 show ?thesis by (intro exI [of _ h2]) (simp add: h2_def h1_def)
qed

lemma member_quorum_majority: "member_quorum M s v \<Longrightarrow> majority M (voters_of v)"
  using member_quorum_card by (simp add: majority_def)

lemma setAll_map_of: "map_of (setAll v ids m) p = (if p \<in> set ids then Some v else map_of m p)"
  unfolding setAll_def by (induction ids arbitrary: m) (auto simp: update_conv')

lemma effectivePeers_members:
  assumes "steady_node M r"
  shows "set (map fst (effectivePeers r)) = M - {raft_id r}"
proof -
  from assms obtain c where c: "currentConfig r = Some c" "steady M c" by (auto simp: steady_node_def)
  have "k \<in> set (map fst (effectivePeers r)) \<longleftrightarrow> map_of (addAll (raft_id r) [] (NewPeers c)) k \<noteq> None" for k
    using c by (simp add: effectivePeers_def steady_def map_of_eq_None_iff)
  moreover have "map_of (addAll (raft_id r) [] (NewPeers c)) k \<noteq> None \<longleftrightarrow> k \<in> M - {raft_id r}" for k
    using c(2) addAll_map_of [of "NewPeers c" "raft_id r" "[]" k] by (auto simp: steady_def has_key_def has_key_members [symmetric])
  ultimately show ?thesis by blast
qed

lemma transitionToLeader_parts:
  assumes "state r = Candidate" "steady_node M r"
  defines "e \<equiv> \<lparr>Index = lastLogIndex r + 1, Term = currentTerm r, Command = json_print (jsonEnvelope EntryNoop None None)\<rparr>"
  shows "log (transitionToLeader r) = log r @ [e]" "still (r\<lparr>log := log r @ [e]\<rparr>) (transitionToLeader r)"
    "map_of (matchIndex (transitionToLeader r)) p = (if p \<in> M - {raft_id r} then Some 0 else map_of (matchIndex r) p)"
    "wf_map (matchIndex r) \<Longrightarrow> wf_map (matchIndex (transitionToLeader r))"
proof -
  let ?ids = "map fst (effectivePeers r)"
  have "matchIndex (transitionToLeader r) = setAll 0 ?ids (matchIndex r)"
    using assms(1) by (simp add: transitionToLeader_def EncodeNoopEntry_def node_defs Let_def effectivePeers_def split: option.split)
  moreover have "asks (transitionToLeader r) = asks (r\<lparr>log := log r @ [e]\<rparr>)"
    using assms(1) by (simp add: asks_def transitionToLeader_def EncodeNoopEntry_def node_defs Let_def image_iff split: option.split)
  moreover from this have "still (r\<lparr>log := log r @ [e]\<rparr>) (transitionToLeader r)"
    using assms(1) by (simp add: still_def e_def transitionToLeader_def EncodeNoopEntry_def node_defs Let_def
        lastLogIndex_def split: option.split)
  ultimately show "still (r\<lparr>log := log r @ [e]\<rparr>) (transitionToLeader r)" "log (transitionToLeader r) = log r @ [e]"
    "map_of (matchIndex (transitionToLeader r)) p = (if p \<in> M - {raft_id r} then Some 0 else map_of (matchIndex r) p)"
    "wf_map (matchIndex r) \<Longrightarrow> wf_map (matchIndex (transitionToLeader r))"
    using effectivePeers_members [OF assms(2)] by (simp_all add: setAll_map_of setAll_wf still_def)
qed

text \<open>A candidate with the votes of a majority appends an entry of its term and leads.\<close>

lemma tracks_win:
  assumes inv: "hist_inv M h" and "tracks M h i r" "raft_id r = i" "steady_node M r" "state r = Candidate"
    and "member_quorum M i (votesReceived r)" "hLead h (hTerm h i) = None"
  shows "simulates M h i (transitionToLeader r) {}"
proof -
  define e where "e = \<lparr>Index = lastLogIndex r + 1, Term = currentTerm r, Command = json_print (jsonEnvelope EntryNoop None None)\<rparr>"
  define h' where "h' = setLog i (hLog h i @ [e]) (setLlog (hTerm h i) (hLog h i @ [e])
      (h\<lparr>hLead := (hLead h)(hTerm h i := Some i)\<rparr>))"
  let ?r = "transitionToLeader r"
  have r: "currentTerm r = hTerm h i" "log r = hLog h i" "whole r" "applied r" "campaigns h i r" "wf_map (matchIndex r)"
    "committed M h (hTerm h i) (hLog h i) (nat (commitIndex r))" "\<forall>(p, t, li, lt) \<in> asks r. asked h i t li lt"
    using assms(2,5) by (auto simp: tracks_def)
  have num: "numbered (log r)" using hist_invD(1) [OF inv, of i] r(2) by (simp add: log_ok_def)
  have idx: "Index e = 1 + int (length (hLog h i))" "Term e = hTerm h i"
    using whole_last(1) [OF r(3) num] r(1,2) by (auto simp: e_def)
  have "voters_of (votesReceived r) \<subseteq> {k. \<exists>vl. (k, hTerm h i, i, vl) \<in> hVotes h}"
    using r(5) by (auto simp: campaigns_def voters_of_def)
  then have "majority M {k. \<exists>vl. (k, hTerm h i, i, vl) \<in> hVotes h}"
    using member_quorum_majority [OF assms(6)] by (blast intro: majority_mono)
  then have step: "hstep M i h h'"
    unfolding h'_def using idx assms(7) r(5) by (intro hstep.win) (auto simp: campaigns_def)
  note parts = transitionToLeader_parts [OF assms(5,4), folded e_def]
  have le: "hle h h'" using hstep_inv [OF step inv] by blast
  have "leads M h' i ?r"
    using parts(3) assms(3) by (auto simp: leads_def h'_def split: if_splits)
  moreover have "committed M h' (hTerm h' i) (hLog h' i) (nat (commitIndex r))"
    using committed_longer [OF committed_mono [OF le r(7) order_refl]] by (simp add: h'_def)
  moreover have "state ?r = Leader" "currentTerm ?r = hTerm h' i" "0 \<le> hTerm h i"
    using assms(2,5) by (auto simp: transitionToLeader_state tracks_def h'_def)
  moreover have "applied ?r" "whole ?r"
  proof -
    have "nat (lastApplied r) \<le> length (log r)" using r(2,4,7) by (auto simp: applied_def committed_def)
    then show "applied ?r" using r(4) parts(2) by (simp add: applied_def still_def)
    show "whole ?r" using r(3) parts(2) by (simp add: whole_def still_def)
  qed
  moreover have "\<forall>(p, t, li, lt) \<in> asks ?r. asked h' i t li lt"
    using parts(2) by (intro asks_mono [OF inv le r(8)]) (simp add: still_def asks_def)
  moreover have "log ?r = hLog h' i" "commitIndex ?r = commitIndex r" "wf_map (matchIndex ?r)" "hTerm h' i = hTerm h i"
    using parts r by (simp_all add: h'_def still_def)
  ultimately have "tracks M h' i ?r" by (simp add: tracks_def)
  moreover have "hLead h' T = Some l \<Longrightarrow> hLead h T = Some l \<or> l = i \<and> T = currentTerm ?r \<and> state ?r = Leader" for T l
    using r(1) assms(5) by (auto simp: h'_def transitionToLeader_state split: if_splits)
  ultimately show ?thesis using step unfolding simulates_def by blast
qed

lemma simulates_after:
  "(hstep M i)\<^sup>*\<^sup>* h h' \<Longrightarrow> hLead h' = hLead h \<Longrightarrow> simulates M h' i r' ps \<Longrightarrow> simulates M h i r' ps"
  unfolding simulates_def by (metis rtranclp_trans)

text \<open>Election safety, as far as the history needs it: the term of a new leader has no other.\<close>

definition unrivalled :: "history \<Rightarrow> string \<Rightarrow> raft \<Rightarrow> bool" where
  "unrivalled h i r' \<longleftrightarrow> (state r' = Leader \<longrightarrow> (\<forall>l. hLead h (currentTerm r') = Some l \<longrightarrow> l = i))"

lemma tracks_numbered:
  assumes "hist_inv M h" "tracks M h i r"
  shows "lastLogIndex r = int (length (log r))" "lastLogTerm r = lastTerm (log r)" "wf_log r" "numbered (log r)"
proof -
  show n: "numbered (log r)" using hist_invD(1) [OF assms(1), of i] assms(2) by (simp add: log_ok_def tracks_def)
  show "lastLogIndex r = int (length (log r))" "lastLogTerm r = lastTerm (log r)" "wf_log r"
    using whole_last [OF _ n] assms(2) by (simp_all add: tracks_def)
qed

lemma simulates_candidate:
  assumes inv: "hist_inv M h" and "tracks M h i r" "raft_id r = i" "i \<in> M" "steady_node M r"
    and "unrivalled h i (transitionToCandidate r)"
  shows "simulates M h i (transitionToCandidate r) {}"
proof -
  let ?s = "asCandidate r"
  from tracks_candidate [OF assms(1-3)] obtain h' where h': "(hstep M i)\<^sup>*\<^sup>* h h'" "tracks M h' i ?s"
    "hLead h' = hLead h" "hCamp h' i (hTerm h' i) = Some (hLog h' i)" by blast
  have inv': "hist_inv M h'" using hsteps_inv [OF h'(1) inv] by blast
  have st: "steady_node M ?s" using assms(5) by (simp add: steady_node_def)
  have t: "hTerm h' i = currentTerm r + 1" "log ?s = hLog h' i" using h'(2) by (auto simp: tracks_def)
  have "simulates M h' i (startElection ?s) {}"
  proof (cases "effectivePeers ?s = []")
    case True
    then have "state (startElection ?s) = Leader" by (simp add: startElection_state)
    then have "\<forall>l. hLead h (currentTerm r + 1) = Some l \<longrightarrow> l = i"
      using assms(6) by (simp add: unrivalled_def transitionToCandidate_eq)
    moreover have "hLead h' (hTerm h' i) \<noteq> Some i" using h'(2) by (simp add: tracks_def campaigns_def)
    ultimately have "hLead h' (hTerm h' i) = None" using h'(3) t by (cases "hLead h' (hTerm h' i)") auto
    moreover have "member_quorum M i (votesReceived ?s)"
      using effectivePeers_alone(2) [OF st _ True] assms(3,4) by simp
    ultimately show ?thesis
      using tracks_win [OF inv' h'(2) _ st] assms(3) True by (simp add: startElection_def)
  next
    case False
    let ?q = "startElection ?s"
    have e: "?q = emit (map (\<lambda>p. GoSendRequestVote (fst p) (currentTerm ?s) (lastLogIndex ?s) (lastLogTerm ?s)) (effectivePeers ?s)) ?s"
      using False by (simp add: startElection_def)
    have "asked h' i (currentTerm ?s) (lastLogIndex ?s) (lastLogTerm ?s)"
      using tracks_numbered [OF inv' h'(2)] h'(4) t by (simp add: asked_def)
    then have "\<forall>(p, t, li, lt) \<in> asks ?q. asked h' i t li lt"
      using h'(2) unfolding e tracks_def by auto
    then have "tracks M h' i ?q"
      using h'(2) unfolding e by (simp add: tracks_def emit_def whole_def applied_def leads_def campaigns_def)
    then show ?thesis by (intro simulates_still) auto
  qed
  then show ?thesis
    unfolding transitionToCandidate_eq by (rule simulates_after [OF h'(1,3)])
qed

lemma simulates_timer:
  assumes inv: "hist_inv M h" and "tracks M h i r" "raft_id r = i" "i \<in> M" "steady_node M r"
    and "unrivalled h i (electionTimerFired r)"
  shows "simulates M h i (electionTimerFired r) {}"
proof -
  let ?s = "(r\<lparr>electionTimer := Some True\<rparr>)\<lparr>preVoteVotesReceived := AList.update (raft_id r) True []\<rparr>"
  have s: "tracks M h i ?s" by (rule tracks_still [OF assms(2)]) (simp_all add: still_def asks_def)
  show ?thesis
  proof (cases "(state r = Follower \<or> state r = Candidate) \<and> \<not> isJoining r \<and> effectivePeers ?s = []")
    case True
    then have e: "electionTimerFired r = transitionToCandidate ?s"
      by (simp add: electionTimerFired_def startPreVote_def resetElectionTimer_def Let_def)
    show ?thesis unfolding e using assms(3-6) e s by (intro simulates_candidate inv) (auto simp: steady_update)
  next
    case False
    then have "tracks M h i (electionTimerFired r)"
      by (intro tracks_still [OF assms(2)])
        (auto simp: electionTimerFired_def startPreVote_def resetElectionTimer_def Let_def still_def asks_def emit_def)
    then show ?thesis by (intro simulates_still) auto
  qed
qed

lemma simulates_prevote_response:
  assumes inv: "hist_inv M h" and "tracks M h i r" "raft_id r = i" "i \<in> M" "steady_node M r"
    and "unrivalled h i (processPreVoteResponse p resp r)"
  shows "simulates M h i (processPreVoteResponse p resp r) {}"
proof -
  let ?s = "r\<lparr>preVoteVotesReceived := AList.update p True (preVoteVotesReceived r)\<rparr>"
  have s: "tracks M h i ?s" by (rule tracks_still [OF assms(2)]) (simp_all add: still_def asks_def)
  have "simulates M h i (transitionToCandidate ?s) {}" if "unrivalled h i (transitionToCandidate ?s)"
    using assms(3-5) s that by (intro simulates_candidate inv) (auto simp: steady_update)
  moreover have "processPreVoteResponse p resp r \<in> {transitionToCandidate ?s, ?s, r}"
    by (simp add: processPreVoteResponse_def Let_def)
  ultimately show ?thesis
    using assms(6) simulates_still [OF s, of "{}"] simulates_still [OF assms(2), of "{}"] by force
qed

lemma simulates_follower:
  assumes "tracks M h i r" "currentTerm r < t"
  shows "simulates M h i (transitionToFollower t r) {}"
  using assms by (intro simulates_raise [OF assms(1) still_follower]) auto

lemma simulates_vote_response:
  assumes inv: "hist_inv M h" and "tracks M h i r" "raft_id r = i" "steady_node M r"
    and "packet_ok M h (i, voteRespMsg p resp)" "unrivalled h i (processRequestVoteResponse p resp r)"
  shows "simulates M h i (processRequestVoteResponse p resp r) {}"
proof -
  let ?s = "r\<lparr>votesReceived := AList.update p True (votesReceived r)\<rparr>"
  consider (newer) "rvrTerm resp > currentTerm r"
    | (vote) "state r = Candidate" "rvrTerm resp = currentTerm r" "VoteGranted resp"
    | (ignored) "\<not> rvrTerm resp > currentTerm r"
        "\<not> (state r = Candidate \<and> rvrTerm resp = currentTerm r \<and> VoteGranted resp)"
    by blast
  then show ?thesis
  proof cases
    case newer
    then show ?thesis using simulates_follower [OF assms(2)] by (simp add: processRequestVoteResponse_def)
  next
    case vote
    have "\<exists>vl. (p, currentTerm r, i, vl) \<in> hVotes h" using assms(5) vote by (simp add: packet_ok_def)
    then have s: "tracks M h i ?s"
      using assms(2) vote(1) by (auto simp: tracks_def campaigns_def whole_def applied_def asks_def get_bool_update)
    have e: "processRequestVoteResponse p resp r = (if voteMajority (votesReceived ?s) ?s then transitionToLeader ?s else ?s)"
      using vote by (simp add: processRequestVoteResponse_def)
    show ?thesis
    proof (cases "voteMajority (votesReceived ?s) ?s")
      case True
      then have lead: "processRequestVoteResponse p resp r = transitionToLeader ?s" by (simp only: e if_True)
      have "hLead h (currentTerm r) \<noteq> Some i" using assms(2) vote(1) by (simp add: tracks_def campaigns_def)
      moreover have "\<forall>l. hLead h (currentTerm r) = Some l \<longrightarrow> l = i"
        using assms(6) vote(1) by (simp add: lead unrivalled_def transitionToLeader_state)
      ultimately have "hLead h (currentTerm r) = None" by (cases "hLead h (currentTerm r)") auto
      then have "hLead h (hTerm h i) = None" using assms(2) by (simp add: tracks_def)
      moreover have "steady_node M ?s" using assms(4) by (simp add: steady_update)
      moreover from this have "member_quorum M i (votesReceived ?s)" using voteMajority_quorum [OF _ True] assms(3) by simp
      ultimately show ?thesis unfolding lead using assms(3) vote(1) by (intro tracks_win [OF inv s]) simp_all
    next
      case False
      then show ?thesis using simulates_still [OF s, of "{}"] unfolding e by simp
    qed
  next
    case ignored
    then show ?thesis
      using simulates_still [OF assms(2), of "{}"] by (simp only: processRequestVoteResponse_def if_False) simp
  qed
qed

text \<open>A granted vote goes to a candidate whose log is up to date for the voter.\<close>

lemma simulates_vote:
  assumes inv: "hist_inv M h" and "tracks M h i r" "packet_ok M h (i, requestVoteMsg q)"
  shows "simulates M h i (fst (processRequestVote q r))
    {(CandidateId q, voteRespMsg i (snd (processRequestVote q r)))}"
proof -
  define r1 where "r1 = (if rvTerm q > currentTerm r then transitionToFollower (rvTerm q) r else r)"
  define s where "s = fst (walState (resetElectionTimer (r1\<lparr>votedFor := CandidateId q\<rparr>)))"
  have deny: "packet_ok M h' (CandidateId q, voteRespMsg i a)" if "\<not> VoteGranted a" for h' a
    using that by (simp add: packet_ok_def)
  have "\<exists>h'. (hstep M i)\<^sup>*\<^sup>* h h' \<and> tracks M h' i r1 \<and> hLead h' = hLead h"
  proof (cases "rvTerm q > currentTerm r")
    case True
    then show ?thesis
      using tracks_raise [OF assms(2) still_follower, of "rvTerm q"]
      by (intro exI [of _ "setTerm i (rvTerm q) h"]) (auto simp: r1_def)
  qed (use assms(2) in \<open>auto simp: r1_def\<close>)
  then obtain h1 where h1: "(hstep M i)\<^sup>*\<^sup>* h h1" "tracks M h1 i r1" "hLead h1 = hLead h" by blast
  consider (same) "fst (processRequestVote q r) = r" "\<not> VoteGranted (snd (processRequestVote q r))"
    | (refused) "fst (processRequestVote q r) = r1" "\<not> VoteGranted (snd (processRequestVote q r))"
    | (granted) "processRequestVote q r = (s, \<lparr>rvrTerm = currentTerm s, VoteGranted = True\<rparr>)"
        "currentTerm r1 = rvTerm q" "logUpToDate q r1"
  proof (cases "rvTerm q < currentTerm r \<or> currentConfig r \<noteq> None \<and> \<not> ContainsNode (currentConfig r) (CandidateId q)")
    case True
    then have "processRequestVote q r = (r, \<lparr>rvrTerm = currentTerm r, VoteGranted = False\<rparr>)"
      unfolding processRequestVote_def by (metis (no_types, lifting))
    with that(1) show ?thesis by simp
  next
    case False
    then have p: "processRequestVote q r = (if (votedFor r1 = [] \<or> votedFor r1 = CandidateId q) \<and> logUpToDate q r1
        then (s, \<lparr>rvrTerm = currentTerm s, VoteGranted = True\<rparr>) else (r1, \<lparr>rvrTerm = currentTerm r1, VoteGranted = False\<rparr>))"
      unfolding processRequestVote_def Let_def r1_def [symmetric] s_def [symmetric] by (simp only: if_False de_Morgan_disj)
    have "currentTerm r1 = rvTerm q" using False by (auto simp: r1_def)
    with that(2,3) p show ?thesis by (simp split: if_splits)
  qed
  then show ?thesis
  proof cases
    case same
    then show ?thesis using simulates_still [OF assms(2)] deny by simp
  next
    case refused
    then show ?thesis using simulates_after [OF h1(1,3) simulates_still [OF h1(2)]] deny by simp
  next
    case granted
    have inv1: "hist_inv M h1" "hle h h1" using hsteps_inv [OF h1(1) inv] by auto
    have "asked h1 (CandidateId q) (rvTerm q) (LastLogIndex q) (LastLogTerm q)"
      using assms(3) asked_mono [OF inv inv1(2)] by (simp add: packet_ok_def)
    then obtain cl where cl: "hCamp h1 (CandidateId q) (rvTerm q) = Some cl" "LastLogIndex q = int (length cl)"
      "LastLogTerm q = lastTerm cl" by (auto simp: asked_def)
    have t: "hTerm h1 i = rvTerm q" "log r1 = hLog h1 i" using h1(2) granted(2) by (auto simp: tracks_def)
    have "up_to_date cl (hLog h1 i)"
      using granted(3) tracks_numbered [OF inv1(1) h1(2)] cl t by (auto simp: logUpToDate_def up_to_date_def)
    moreover define h2 where "h2 = h1\<lparr>hVotes := insert (i, hTerm h1 i, CandidateId q, hLog h1 i) (hVotes h1)\<rparr>"
    ultimately have step: "hstep M i h1 h2" unfolding h2_def using cl(1) t(1) by (intro hstep.vote) simp_all
    have s: "still r1 s" "currentTerm s = currentTerm r1" "matchIndex s = matchIndex r1" "state s = state r1"
      "votesReceived s = votesReceived r1"
      by (simp_all add: s_def still_def asks_def node_defs)
    have "tracks M h1 i s" using tracks_still [OF h1(2) s(1-3)] s(4,5) by simp
    moreover have "committed M h2 (hTerm h1 i) (hLog h1 i) c" if "committed M h1 (hTerm h1 i) (hLog h1 i) c" for c
      using committed_mono [OF hle_vote that order_refl] by (simp add: h2_def)
    ultimately have "tracks M h2 i s"
      by (auto simp: tracks_def leads_def campaigns_def h2_def asked_def)
    moreover have "packet_ok M h2 (CandidateId q, voteRespMsg i \<lparr>rvrTerm = currentTerm s, VoteGranted = True\<rparr>)"
      using s(2) t granted(2) by (auto simp: packet_ok_def h2_def)
    ultimately have "simulates M h1 i s {(CandidateId q, voteRespMsg i \<lparr>rvrTerm = currentTerm s, VoteGranted = True\<rparr>)}"
      using step unfolding simulates_def by (intro exI [of _ h2]) (auto simp: h2_def)
    then show ?thesis using simulates_after [OF h1(1,3)] granted(1) by simp
  qed
qed

section \<open>Appending entries\<close>

text \<open>
  Merging a part of the leader's log into logs that match wherever the terms do: the log
  stays as it is because it has all the entries, or it becomes the leader's.
\<close>

lemma mergeEntries_matched:
  assumes "\<And>k. k < length ls \<Longrightarrow> k < length es \<Longrightarrow> Term (ls ! k) = Term (es ! k) \<Longrightarrow> take (Suc k) ls = take (Suc k) es"
  shows "mergeEntries ls es = ls \<and> take (length es) ls = es \<or> mergeEntries ls es = es \<and> replaces es ls"
  using assms
proof (induction ls es rule: mergeEntries.induct)
  case (1 es)
  then show ?case by (simp add: replaces_def)
next
  case (2 l ls)
  then show ?case by simp
next
  case (3 l ls e es)
  show ?case
  proof (cases "Term l = Term e")
    case False
    then show ?thesis by (auto simp: replaces_def intro!: exI [of _ 0])
  next
    case True
    have eq: "l = e" using 3(2) [of 0] True by simp
    have "mergeEntries ls es = ls \<and> take (length es) ls = es \<or> mergeEntries ls es = es \<and> replaces es ls"
    proof (rule 3(1) [OF True])
      show "k < length ls \<Longrightarrow> k < length es \<Longrightarrow> Term (ls ! k) = Term (es ! k) \<Longrightarrow> take (Suc k) ls = take (Suc k) es" for k
        using 3(2) [of "Suc k"] by simp
    qed
    then show ?thesis
      using True eq by (auto simp: replaces_def)
  qed
qed

lemma lastTerm_take: "0 < b \<Longrightarrow> b \<le> length xs \<Longrightarrow> lastTerm (take b xs) = Term (xs ! (b - 1))"
  by (cases "take b xs = []") (auto simp: lastTerm_nth min_def)

text \<open>
  A log that has the leader's entries up to one of the leader's own term has nothing else
  after them, because no entry is of a later term.
\<close>

lemma leader_prefix:
  assumes P: "log_ok h T P" and L: "L = hLlog h T" and n: "take n P = take n L" "n \<le> length L" "lastTerm (take n L) = T" "0 < T"
  shows "take (length P) L = P"
proof -
  have n0: "0 < n" using n(3,4) by (cases n) (auto simp: lastTerm_def)
  have len: "n \<le> length P" "P \<noteq> []" using take_eq_length [OF n(1,2)] n0 by auto
  have "Term (P ! (n - 1)) = T" using take_eq_nth [OF n(1), of "n - 1"] lastTerm_take [OF n0 n(2)] n(3) n0 by simp
  then have "T \<le> lastTerm P"
    using sorted_terms_nth [of P "n - 1" "length P - 1"] P len n0 by (simp add: log_ok_def lastTerm_nth)
  moreover have "lastTerm P \<le> T" using P n(4) by (auto simp: log_ok_def lastTerm_def)
  ultimately show ?thesis using matched_last(3) [of h P] P len(2) by (simp add: log_ok_def L)
qed

lemma replaces_drop:
  assumes "take b ys = take b xs" "b \<le> length xs" "b \<le> length ys" "replaces (drop b ys) (drop b xs)"
  shows "replaces ys xs"
  using assms(4) unfolding replaces_def
proof (elim disjE exE conjE)
  assume "take (length (drop b xs)) (drop b ys) = drop b xs"
  with assms(1) have "take (b + length (drop b xs)) ys = xs" by (metis append_take_drop_id take_add)
  then show "take (length xs) ys = xs \<or> (\<exists>k. k < length xs \<and> k < length ys \<and> xs ! k \<noteq> ys ! k)"
    using assms(2) by simp
next
  fix k assume "k < length (drop b xs)" "k < length (drop b ys)" "drop b xs ! k \<noteq> drop b ys ! k"
  then show "take (length xs) ys = xs \<or> (\<exists>k. k < length xs \<and> k < length ys \<and> xs ! k \<noteq> ys ! k)"
    using assms(2,3) by (intro disjI2 exI [of _ "b + k"]) auto
qed

lemma merged_prefix:
  assumes inv: "hist_inv M h" and l: "hLead h (hTerm h i) = Some l"
  defines "L \<equiv> hLlog h (hTerm h i)" and "P \<equiv> hLog h i"
  assumes n: "b \<le> n" "n \<le> length L" "lastTerm (take n L) = hTerm h i"
    and b: "b \<le> length P" "lastTerm (take b P) = lastTerm (take b L)"
  defines "xs \<equiv> take b P @ mergeEntries (drop b P) (drop b (take n L))"
  shows "take (length xs) L = xs" "replaces xs P"
proof -
  have P: "log_ok h (hTerm h i) P" unfolding P_def by (rule hist_invD(1) [OF inv])
  have L: "log_ok h (hTerm h i) L" unfolding L_def by (rule llog_ok [OF inv l])
  have T: "0 < hTerm h i" using hist_invD(6) [OF inv l] by (simp add: elected_def)
  have agree: "take (Suc k) P = take (Suc k) L" if "k < length P" "k < length L" "Term (P ! k) = Term (L ! k)" for k
    using that P L by (intro matched_agree) (auto simp: log_ok_def)
  have pre: "take b P = take b L"
  proof (cases b)
    case (Suc k)
    then show ?thesis using agree [of k] b n lastTerm_take [of b P] lastTerm_take [of b L] by simp
  qed simp
  let ?ls = "drop b P" and ?es = "drop b (take n L)"
  have "mergeEntries ?ls ?es = ?ls \<and> take (length ?es) ?ls = ?es \<or> mergeEntries ?ls ?es = ?es \<and> replaces ?es ?ls"
  proof (rule mergeEntries_matched)
    fix k assume k: "k < length ?ls" "k < length ?es" "Term (?ls ! k) = Term (?es ! k)"
    then have "take (Suc (b + k)) P = take (Suc (b + k)) L" using n by (intro agree) auto
    moreover have "take (Suc k) ?es = drop b (take (Suc (b + k)) L)"
      using k(2) n by (auto simp: take_drop min_def add.commute split: if_splits)
    ultimately show "take (Suc k) ?ls = take (Suc k) ?es" by (simp add: take_drop add.commute)
  qed
  then have "take (length xs) L = xs \<and> replaces xs P"
  proof (elim disjE conjE)
    assume m: "mergeEntries ?ls ?es = ?ls" "take (length ?es) ?ls = ?es"
    then have xs: "xs = P" by (simp add: xs_def)
    have "take n P = take b P @ take (n - b) ?ls" using n(1) by (metis le_add_diff_inverse take_add)
    also have "\<dots> = take n L" using m(2) n pre by (metis append_take_drop_id length_drop length_take min.absorb2 min.absorb1 take_take)
    finally have "take n P = take n L" .
    from leader_prefix [OF P _ this n(2,3) T] show ?thesis by (simp add: xs replaces_def L_def)
  next
    assume m: "mergeEntries ?ls ?es = ?es" "replaces ?es ?ls"
    have xs: "xs = take n L" using m(1) pre n(1) by (metis append_take_drop_id min.absorb1 take_take xs_def)
    have "take b (take n L) = take b P" using pre n(1) by (simp add: min_def)
    moreover have "b \<le> length (take n L)" using n(1,2) by simp
    ultimately have "replaces (take n L) P" using b(1) m(2) replaces_drop by blast
    then show ?thesis using xs n(2) by (simp add: min_def)
  qed
  then show "take (length xs) L = xs" "replaces xs P" by auto
qed

lemma appendOne_still:
  "still (r\<lparr>log := log (appendOne r e)\<rparr>) (appendOne r e) \<and> matchIndex (appendOne r e) = matchIndex r"
  by (simp add: still_def asks_def appendOne_def node_defs Let_def split: option.split)

lemma asks_log [simp]: "asks (r\<lparr>log := x\<rparr>) = asks r" "asks (r\<lparr>commitIndex := n\<rparr>) = asks r"
  by (simp_all add: asks_def)

lemma foldl_appendOne_still:
  "still (r\<lparr>log := log (foldl appendOne r es)\<rparr>) (foldl appendOne r es) \<and>
   matchIndex (foldl appendOne r es) = matchIndex r"
proof (induction es arbitrary: r)
  case (Cons e es)
  then show ?case using appendOne_still [of r e] by (fastforce simp: still_def)
qed (simp add: still_def)

lemma still_followLeader: "still r (followLeader t l r)" "matchIndex (followLeader t l r) = matchIndex r"
  using still_follower [of r] still_follower [of "transitionToFollower t r"]
  by (auto simp: still_def followLeader_def stepDownFor_def resetElectionTimer_def Let_def asks_def)

lemma tracks_follow:
  assumes "tracks M h i r" "currentTerm r \<le> t"
  obtains h' where "(hstep M i)\<^sup>*\<^sup>* h h'" "tracks M h' i (followLeader t l r)" "hLead h' = hLead h" "hLlog h' = hLlog h"
    "hTerm h' i = t"
proof (cases "state (followLeader t l r) = state r \<and> currentTerm r = t")
  case True
  then have "tracks M h i (followLeader t l r)"
    using still_followLeader(1) [of r t l] still_followLeader(2) [of t l r] by (intro tracks_still [OF assms(1)]) simp_all
  moreover have "hTerm h i = t" using True assms(1) by (auto simp: tracks_def)
  ultimately show ?thesis using that [of h] by blast
next
  case False
  then have "state (followLeader t l r) = Follower" using assms(2) by (auto simp: followLeader_state split: if_splits)
  then show ?thesis
    using tracks_raise [OF assms(1) still_followLeader(1), of t l] still_followLeader(2) assms(2) that [of "setTerm i t h"]
    by auto
qed

lemma replaces_self: "take (length xs) ys = xs \<Longrightarrow> replaces xs ys \<Longrightarrow> xs = ys"
proof -
  assume a: "take (length xs) ys = xs" "replaces xs ys"
  have "xs ! k = ys ! k" if "k < length xs" for k using that arg_cong [OF a(1), of "\<lambda>zs. zs ! k"] by simp
  with a show ?thesis by (metis replaces_def nat_le_linear take_all)
qed

text \<open>The commit step of a follower, once its log is \<open>xs\<close>.\<close>

lemma tracks_replaced:
  assumes inv: "hist_inv M h" and f: "tracks M h i f" "state f \<noteq> Candidate"
    and w: "hLead h (hTerm h i) = Some l" "take (length xs) (hLlog h (hTerm h i)) = xs" "replaces xs (hLog h i)"
    and x: "log x = xs" "whole x" "applied x" "currentTerm x = currentTerm f" "state x = state f"
      "matchIndex x = matchIndex f" "asks x \<subseteq> asks f" "committed M h (hTerm h i) xs (nat (commitIndex x))"
  shows "tracks M (setLog i xs h) i x"
proof -
  have le: "hle h (setLog i xs h)" using inv w by (rule hle_accept)
  have "leads M h i f \<Longrightarrow> leads M (setLog i xs h) i x"
    using replaces_self [OF _ w(3)] w(2) x(6) by (auto simp: leads_def split: if_splits)
  moreover have "\<forall>(p, t, li, lt) \<in> asks x. asked (setLog i xs h) i t li lt"
    using f(1) x(7) by (intro asks_mono [OF inv le]) (auto simp: tracks_def)
  ultimately show ?thesis
    using f x committed_mono [OF le x(8) order_refl] by (simp add: tracks_def)
qed

lemma tracks_accept:
  assumes inv: "hist_inv M h" and f: "tracks M h i f" "state f \<noteq> Candidate"
    and w: "hLead h (hTerm h i) = Some l" "take (length xs) (hLlog h (hTerm h i)) = xs" "replaces xs (hLog h i)"
    and s: "still (f\<lparr>log := xs\<rparr>) s" "currentTerm s = currentTerm f" "state s = state f" "matchIndex s = matchIndex f"
    and c: "committed M h (hTerm h i) (hLlog h (hTerm h i)) (nat lc)" "plain_log xs"
  shows "tracks M (setLog i xs h) i (advanceCommit lc s)" "log (advanceCommit lc s) = xs"
proof -
  have r: "log f = hLog h i" "whole f" "applied f" "committed M h (hTerm h i) (hLog h i) (nat (commitIndex f))"
    using f(1) by (auto simp: tracks_def)
  note old = committed_replaced [OF inv r(4) order_refl w]
  have num: "numbered xs" using log_ok_take [OF llog_ok [OF inv w(1)], of "length xs"] w(2) by (simp add: log_ok_def)
  have ls: "log s = xs" "whole s" "numbered (log s)" "plain_log (log s)"
    using s(1) r(2) num c(2) by (auto simp: still_def whole_def)
  have cs: "commitIndex s = commitIndex f" "lastApplied s = lastApplied f" "asks s \<subseteq> asks f" using s(1) by (auto simp: still_def)
  have "nat (lastApplied f) \<le> nat (commitIndex f)" using r(3) by (auto simp: applied_def)
  from take_eq_le [OF old(1) this] have as: "applied s" using s(1) r(1,3) by (simp add: applied_def still_def)
  note tr = tracks_replaced [OF inv f w]
  have "tracks M (setLog i xs h) i (advanceCommit lc s) \<and> log (advanceCommit lc s) = xs"
  proof (cases "lc > commitIndex s")
    case False
    then show ?thesis using tr [of s] ls as cs s(2-4) old(3) by (simp add: advanceCommit_def)
  next
    case True
    let ?c = "if lc > lastLogIndex s then lastLogIndex s else lc"
    let ?x = "s\<lparr>commitIndex := ?c\<rparr>"
    have li: "lastLogIndex s = int (length xs)" using whole_last(1) [OF ls(2,3)] ls(1) by simp
    have "commitIndex s \<le> ?c" using True li old(2) cs(1) by auto
    then have "applied ?x" using as by (auto simp: applied_def)
    then have "applied (applyLogs ?x)" "whole (applyLogs ?x)" "log (applyLogs ?x) = xs" "state (applyLogs ?x) = state f"
      "matchIndex (applyLogs ?x) = matchIndex f" "asks (applyLogs ?x) = asks s" "commitIndex (applyLogs ?x) = ?c"
      using applyLogs_whole [of ?x] ls li s(3,4) by (auto simp: whole_def)
    moreover have "committed M h (hTerm h i) xs (nat ?c)"
      using li by (intro committed_prefix [OF c(1) w(2)]) auto
    ultimately show ?thesis
      using tr [of "applyLogs ?x"] True cs(3) s(2) by (simp add: advanceCommit_def)
  qed
  then show "tracks M (setLog i xs h) i (advanceCommit lc s)" "log (advanceCommit lc s) = xs" by auto
qed

lemma prevMatches_follow: "prevMatches q (followLeader t l r) = prevMatches q r"
  by (simp add: prevMatches_def getEntryTerm_def)

lemma contiguous_numbered: "numbered xs \<Longrightarrow> contiguous (int b) (drop b xs)"
  by (auto simp: numbered_def contiguous_def)

lemma lastTerm_pos:
  assumes "log_ok h T xs" "0 < b" "b \<le> length xs"
  shows "0 < lastTerm (take b xs)"
proof -
  have "xs ! (b - 1) \<in> set xs" using assms(2,3) by (intro nth_mem) simp
  with assms show ?thesis by (simp add: lastTerm_take log_ok_def)
qed

lemma match_within:
  assumes inv: "hist_inv M h" and f: "tracks M h i f" and m: "prevMatches q f"
  shows "\<not> (0 < PrevLogIndex q \<and> PrevLogTerm q = 0)" "PrevLogIndex q \<le> int (length (log f))"
    "0 \<le> PrevLogIndex q \<Longrightarrow> PrevLogTerm q = lastTerm (take (nat (PrevLogIndex q)) (log f))"
proof -
  have w: "whole f" "log f = hLog h i" using f by (auto simp: tracks_def)
  have prev: "PrevLogIndex q \<le> int (length (log f))" "0 \<le> PrevLogIndex q \<Longrightarrow> getEntryTerm f (PrevLogIndex q) = PrevLogTerm q"
    using m w(1) tracks_numbered(1) [OF inv f] by (auto simp: prevMatches_def whole_def)
  then show "PrevLogIndex q \<le> int (length (log f))"
    and t: "0 \<le> PrevLogIndex q \<Longrightarrow> PrevLogTerm q = lastTerm (take (nat (PrevLogIndex q)) (log f))"
    using whole_getEntryTerm [OF w(1), of "nat (PrevLogIndex q)"] by (auto simp: nat_le_iff)
  show "\<not> (0 < PrevLogIndex q \<and> PrevLogTerm q = 0)"
    using t prev(1) lastTerm_pos [OF hist_invD(1) [OF inv, of i], of "nat (PrevLogIndex q)"] w(2) by (auto simp: nat_le_iff)
qed

text \<open>A request that passes the consistency check gives the follower a part of the leader's log.\<close>

lemma appended_matches:
  assumes inv: "hist_inv M h" and f: "tracks M h i f" "hTerm h i = aeTerm q" "hLead h (hTerm h i) = Some l"
    and pk: "packet_ok M h (i, appendEntriesMsg q)" and m: "prevMatches q f"
  defines "L \<equiv> hLlog h (hTerm h i)" and "xs \<equiv> log (foldl appendOne f (Entries q))"
  shows "take (length xs) L = xs \<and> replaces xs (hLog h i) \<and> committed M h (hTerm h i) L (nat (LeaderCommit q))"
proof -
  have w: "whole f" "log f = hLog h i" using f(1) by (auto simp: tracks_def)
  note num = tracks_numbered [OF inv f(1)]
  note prev = match_within [OF inv f(1) m]
  from prev(1) pk f(2) obtain b n where "carries M q b n L h" by (auto simp: packet_ok_def L_def)
  then have k: "b \<le> n" "n \<le> length L" "lastTerm (take n L) = hTerm h i" "PrevLogIndex q = int b"
    "PrevLogTerm q = lastTerm (take b L)" "Entries q = drop b (take n L)"
    "committed M h (hTerm h i) L (nat (LeaderCommit q))" using f(2) by (auto simp: carries_def)
  have b: "b \<le> length (hLog h i)" "lastTerm (take b (hLog h i)) = lastTerm (take b L)"
    using prev(2,3) k(4,5) w(2) by auto
  have "numbered (take n L)" using llog_ok [OF inv f(3)] by (simp add: L_def log_ok_def numbered_take)
  then have "contiguous (int b) (Entries q)" using k(6) contiguous_numbered by simp
  then have "xs = take b (hLog h i) @ mergeEntries (drop b (hLog h i)) (drop b (take n L))"
    using foldl_appendOne_log [OF num(3), of b "Entries q"] w b(1) k(6) by (simp add: xs_def whole_def)
  with merged_prefix [OF inv f(3), folded L_def, OF k(1-3) b] k(7) show ?thesis by simp
qed

lemma simulates_append:
  assumes inv: "hist_inv M h" and tr: "tracks M h i r" "plain_log (log r)" "plain_log (Entries q)"
    and pk: "packet_ok M h (i, appendEntriesMsg q)"
  shows "simulates M h i (fst (processAppendEntries q r))
    {(aeLeaderId q, appendRespMsg i (snd (processAppendEntries q r)))}"
proof -
  let ?T = "aeTerm q" and ?f = "followLeader (aeTerm q) (aeLeaderId q) r"
  have refuse: "packet_ok M h' (aeLeaderId q, appendRespMsg i a)" if "\<not> Success a" for h' a
    using that by (simp add: packet_ok_def)
  show ?thesis
  proof (cases "?T < currentTerm r")
    case True
    then show ?thesis using simulates_still [OF tr(1)] refuse by (simp add: processAppendEntries_def)
  next
    case False
    then have cur: "currentTerm r \<le> ?T" by simp
    from tracks_follow [OF tr(1) cur] obtain h1 where h1: "(hstep M i)\<^sup>*\<^sup>* h h1" "tracks M h1 i ?f" "hLead h1 = hLead h"
      "hLlog h1 = hLlog h" "hTerm h1 i = ?T" by metis
    have inv1: "hist_inv M h1" "hle h h1" using hsteps_inv [OF h1(1) inv] by auto
    have pk1: "packet_ok M h1 (i, appendEntriesMsg q)" by (rule packet_ok_mono [OF inv inv1(2) pk])
    then obtain l where l: "hLead h1 (hTerm h1 i) = Some l" using h1(5) by (auto simp: packet_ok_def)
    have "simulates M h1 i (fst (processAppendEntries q r)) {(aeLeaderId q, appendRespMsg i (snd (processAppendEntries q r)))}"
    proof (cases "prevMatches q ?f")
      case False
      then have "fst (processAppendEntries q r) = ?f" "\<not> Success (snd (processAppendEntries q r))"
        using cur by (auto simp: processAppendEntries_def Let_def prevMatches_def)
      then show ?thesis using simulates_still [OF h1(2)] refuse by simp
    next
      case True
      from appended_matches [OF inv1(1) h1(2,5) l pk1 True]
      obtain xs where ls: "log (foldl appendOne ?f (Entries q)) = xs"
        and xs: "take (length xs) (hLlog h1 (hTerm h1 i)) = xs" "replaces xs (hLog h1 i)"
          "committed M h1 (hTerm h1 i) (hLlog h1 (hTerm h1 i)) (nat (LeaderCommit q))" by blast
      have "plain_log xs" using foldl_appendOne_plain [of ?f "Entries q"] tr(2,3) ls by simp
      moreover have "state ?f \<noteq> Candidate" by (simp add: followLeader_state)
      moreover have "still (?f\<lparr>log := xs\<rparr>) (foldl appendOne ?f (Entries q))"
        "matchIndex (foldl appendOne ?f (Entries q)) = matchIndex ?f"
        using foldl_appendOne_still [of ?f "Entries q"] ls by auto
      ultimately have t: "tracks M (setLog i xs h1) i (advanceCommit (LeaderCommit q) (appended q r))"
        "log (advanceCommit (LeaderCommit q) (appended q r)) = xs"
        using tracks_accept [OF inv1(1) h1(2) _ l xs(1,2) _ _ _ _ xs(3)] by (simp_all add: appended_def)
      have step: "hstep M i h1 (setLog i xs h1)" using l xs(1,2) by (rule hstep.accept)
      have inv2: "hist_inv M (setLog i xs h1)" using hstep_inv [OF step inv1(1)] by blast
      have "prevMatches q r" using True by (simp add: prevMatches_follow)
      then have p: "processAppendEntries q r = (advanceCommit (LeaderCommit q) (appended q r),
          \<lparr>aerTerm = hTerm h1 i, Success = True, MatchIndex = int (length xs)\<rparr>)"
        using processAppendEntries_match [OF cur] tracks_numbered(1) [OF inv2 t(1)] t
        by (simp add: Let_def tracks_def)
      have "packet_ok M (setLog i xs h1) (aeLeaderId q, appendRespMsg i (snd (processAppendEntries q r)))"
        by (simp add: p packet_ok_def)
      then show ?thesis using step t(1) unfolding simulates_def p by (intro exI [of _ "setLog i xs h1"]) auto
    qed
    then show ?thesis by (rule simulates_after [OF h1(1,3)])
  qed
qed

section \<open>Committing\<close>

lemma addVoter_voters:
  "get_bool (foldl (addVoter n) v ms) k \<Longrightarrow> get_bool v k \<or> (\<exists>m. (k, m) \<in> set ms \<and> n \<le> m)"
  by (induction ms arbitrary: v) (force simp: addVoter_def get_bool_update split: if_splits)+

lemma commit_chosen:
  assumes inv: "hist_inv M h" and tr: "tracks M h i r" "state r = Leader" "raft_id r = i" "steady_node M r"
    and n: "0 < n" "n \<le> int (length (log r))" "getEntryTerm r n = currentTerm r" "checkCommitMajority r n"
  shows "chosen M h (nat n) (hTerm h i)"
proof -
  let ?T = "hTerm h i"
  have r: "currentTerm r = ?T" "log r = hLog h i" "whole r" "wf_map (matchIndex r)" and l: "leads M h i r"
    using tr(1,2) by (auto simp: tracks_def)
  have L: "hLead h ?T = Some i" "hLog h i = hLlog h ?T" "hAck h i ?T = length (hLog h i)" using l by (auto simp: leads_def)
  let ?v = "foldl (addVoter n) (AList.update i True []) (matchIndex r)"
  have "member_quorum M i ?v"
    using n(4) tr(3,4) by (auto simp: steady_node_def checkCommitMajority_def member_quorum_def simp del: HasMajority.simps)
  then have "majority M (voters_of ?v)" by (rule member_quorum_majority)
  moreover have "M \<inter> voters_of ?v \<subseteq> {k. nat n \<le> hAck h k ?T}"
  proof
    fix k assume k: "k \<in> M \<inter> voters_of ?v"
    show "k \<in> {k. nat n \<le> hAck h k ?T}"
    proof (cases "k = i")
      case True
      then show ?thesis using n(2) r(2) L(3) by simp
    next
      case False
      then obtain m where m: "(k, m) \<in> set (matchIndex r)" "n \<le> m"
        using k addVoter_voters [of n "AList.update i True []" "matchIndex r" k] by (auto simp: voters_of_def)
      then have "m \<le> int (hAck h k ?T)" using l r(4) k False wf_map_map_of by (fastforce simp: leads_def)
      then show ?thesis using m(2) by simp
    qed
  qed
  ultimately have "majority M {k. nat n \<le> hAck h k ?T}"
    using majority_mono [of M "M \<inter> voters_of ?v"] by (simp add: majority_def)
  moreover have "Term (hLlog h ?T ! (nat n - 1)) = ?T"
    using whole_getEntryTerm [OF r(3), of "nat n"] lastTerm_take [of "nat n" "log r"] n r L(2) by (simp add: nat_le_iff)
  ultimately show ?thesis using n(1,2) L r(2) unfolding chosen_def by auto
qed

lemma tracks_commit:
  assumes inv: "hist_inv M h" and tr: "tracks M h i r" "plain_log (log r)"
    and n: "commitIndex r < n" "n \<le> int (length (log r))" and ch: "chosen M h (nat n) (hTerm h i)" "hLog h i = hLlog h (hTerm h i)"
  shows "tracks M h i (applyLogs (r\<lparr>commitIndex := n\<rparr>))"
proof -
  let ?x = "r\<lparr>commitIndex := n\<rparr>"
  have "whole ?x" "applied ?x" using tr(1) n(1) by (auto simp: tracks_def applied_def whole_def)
  then have a: "whole (applyLogs ?x)" "applied (applyLogs ?x)" "log (applyLogs ?x) = log r" "state (applyLogs ?x) = state r"
    "matchIndex (applyLogs ?x) = matchIndex r" "asks (applyLogs ?x) = asks r" "commitIndex (applyLogs ?x) = n"
    using applyLogs_whole [of ?x] tr n(2) tracks_numbered(4) [OF inv tr(1)] by auto
  have "committed M h (hTerm h i) (hLog h i) (nat n)"
    using ch n(2) tr(1) by (intro committed_chosen [OF ch(1)]) (auto simp: tracks_def)
  then show ?thesis using a tr(1) by (simp add: tracks_def leads_def campaigns_def)
qed

lemma tracks_commitLoop:
  assumes inv: "hist_inv M h"
  shows "tracks M h i r \<Longrightarrow> state r = Leader \<Longrightarrow> raft_id r = i \<Longrightarrow> steady_node M r \<Longrightarrow> 0 \<le> commitIndex r \<Longrightarrow>
    sorted_wrt (<) (commitIndex r # ns) \<Longrightarrow> (\<forall>n \<in> set ns. n \<le> int (length (log r))) \<Longrightarrow>
    tracks M h i (foldl commitStep r ns)"
proof (induction ns arbitrary: r)
  case (Cons n ns)
  have pl: "plain_log (log r)" using Cons.prems(4) by (rule steady_plain)
  show ?case
  proof (cases "getEntryTerm r n = currentTerm r \<and> checkCommitMajority r n")
    case False
    then have "commitStep r n = r" unfolding commitStep_def by (simp only: if_False)
    with Cons show ?thesis by simp
  next
    case True
    let ?x = "applyLogs (r\<lparr>commitIndex := n\<rparr>)"
    have e: "commitStep r n = ?x" using True by (simp add: commitStep_def)
    have "chosen M h (nat n) (hTerm h i)" using True Cons.prems by (intro commit_chosen [OF inv]) auto
    moreover have "hLog h i = hLlog h (hTerm h i)" using Cons.prems(1,2) by (simp add: tracks_def leads_def)
    ultimately have t: "tracks M h i ?x" using Cons.prems pl by (intro tracks_commit [OF inv]) auto
    have "state ?x = Leader" "steady_node M ?x" "raft_id ?x = i" "commitIndex ?x = n"
      using Cons.prems(2-4) pl steady_cong [of ?x r M] by (simp_all add: applyLogs_plain)
    moreover have "log ?x = log r" using t Cons.prems(1) by (simp add: tracks_def)
    ultimately have "tracks M h i (foldl commitStep ?x ns)"
      using t Cons.prems by (intro Cons.IH) (simp_all del: applyLogs_frame)
    then show ?thesis by (simp add: e)
  qed
qed simp

lemma tracks_append_response:
  assumes inv: "hist_inv M h" and tr: "tracks M h i r" "raft_id r = i" "steady_node M r"
    and pk: "packet_ok M h (i, appendRespMsg p a)" and old: "aerTerm a \<le> currentTerm r"
  shows "tracks M h i (processAppendEntriesResponse p a r)"
proof -
  consider (ok) "state r = Leader" "aerTerm a = currentTerm r" "Success a"
    | (failed) "state r = Leader" "aerTerm a = currentTerm r" "\<not> Success a"
    | (ignored) "\<not> (state r = Leader \<and> aerTerm a = currentTerm r)"
    by blast
  then show ?thesis
  proof cases
    case ignored
    then have "processAppendEntriesResponse p a r = r"
      using old by (simp only: processAppendEntriesResponse_def linorder_not_less [symmetric] if_False)
    then show ?thesis using tr(1) by simp
  next
    case failed
    then show ?thesis
      by (intro tracks_still [OF tr(1)]) (simp_all add: processAppendEntriesResponse_def Let_def still_def asks_def emit_def)
  next
    case ok
    let ?r1 = "r\<lparr>matchIndex := AList.update p (MatchIndex a) (matchIndex r), nextIndex := AList.update p (MatchIndex a + 1) (nextIndex r)\<rparr>"
    define r2 where "r2 = trimProposalTime (observeLag p (get_int (matchIndex r) p) (MatchIndex a) ?r1)"
    have "MatchIndex a \<le> int (hAck h p (currentTerm r))" using pk ok by (simp add: packet_ok_def)
    then have t1: "tracks M h i ?r1"
      using tr(1) ok(1) by (auto simp: tracks_def leads_def whole_def applied_def asks_def update_conv')
    have r2: "still ?r1 r2" "currentTerm r2 = currentTerm ?r1" "matchIndex r2 = matchIndex ?r1" "state r2 = state r"
      "votesReceived r2 = votesReceived r" "raft_id r2 = i" "steady_node M r2" "log r2 = log r"
      using tr(2,3) by (auto simp: r2_def trimProposalTime_def observeLag_def emit_def still_def asks_def steady_node_def split: option.splits)
    have t2: "tracks M h i r2" using r2 by (intro tracks_still [OF t1 r2(1-3)]) simp
    have ll: "lastLogIndex r2 = int (length (log r2))" by (rule tracks_numbered(1) [OF inv t2])
    have "0 \<le> commitIndex r2" using t2 by (auto simp: tracks_def applied_def)
    then have "tracks M h i (foldl commitStep r2 [commitIndex r2 + 1..lastLogIndex r2])"
      using t2 r2 ok(1) ll by (intro tracks_commitLoop [OF inv]) (auto simp: sorted_wrt_upto)
    moreover have "processAppendEntriesResponse p a r = foldl commitStep r2 [commitIndex r2 + 1..lastLogIndex r2]"
      using ok by (simp add: processAppendEntriesResponse_def Let_def r2_def)
    ultimately show ?thesis by simp
  qed
qed

lemma simulates_append_response:
  assumes "hist_inv M h" "tracks M h i r" "raft_id r = i" "steady_node M r" "packet_ok M h (i, appendRespMsg p a)"
  shows "simulates M h i (processAppendEntriesResponse p a r) {}"
proof (cases "aerTerm a > currentTerm r")
  case True
  then show ?thesis using simulates_follower [OF assms(2)] by (simp add: processAppendEntriesResponse_def)
next
  case False
  then have "tracks M h i (processAppendEntriesResponse p a r)" using tracks_append_response [OF assms] by simp
  then show ?thesis by (intro simulates_still) auto
qed

section \<open>Client commands\<close>

lemma tracks_extend:
  assumes inv: "hist_inv M h" and tr: "tracks M h i r" "state r = Leader"
    and e: "Term e = currentTerm r" "Index e = lastLogIndex r + 1"
    and s: "still (r\<lparr>log := log r @ [e]\<rparr>) s" "currentTerm s = currentTerm r" "state s = Leader" "matchIndex s = matchIndex r"
  defines "h' \<equiv> setLog i (hLog h i @ [e]) (setLlog (hTerm h i) (hLog h i @ [e]) h)"
  shows "hstep M i h h'" "tracks M h' i s"
proof -
  let ?T = "hTerm h i"
  have r: "currentTerm r = ?T" "0 \<le> ?T" "log r = hLog h i" "whole r" "applied r" "wf_map (matchIndex r)" "leads M h i r"
    "committed M h ?T (hLog h i) (nat (commitIndex r))" "\<forall>(p, t, li, lt) \<in> asks r. asked h i t li lt"
    using tr by (auto simp: tracks_def)
  show step: "hstep M i h h'"
    unfolding h'_def using r(1,3,7) e tracks_numbered(1) [OF inv tr(1)] by (intro hstep.extend) (auto simp: leads_def)
  have le: "hle h h'" using hstep_inv [OF step inv] by blast
  have "leads M h' i s" using r(7) s(4) by (auto simp: leads_def h'_def)
  moreover have "committed M h' ?T (hLog h' i) (nat (commitIndex r))"
    using committed_longer [OF committed_mono [OF le r(8) order_refl]] by (simp add: h'_def)
  moreover have "applied s" "whole s"
  proof -
    have "nat (lastApplied r) \<le> length (log r)" using r(3,5,8) by (auto simp: applied_def committed_def)
    then show "applied s" using r(5) s(1) by (simp add: applied_def still_def)
    show "whole s" using r(4) s(1) by (simp add: whole_def still_def)
  qed
  moreover have "\<forall>(p, t, li, lt) \<in> asks s. asked h' i t li lt"
    using s(1) by (intro asks_mono [OF inv le r(9)]) (simp add: still_def)
  moreover have "log s = hLog h' i" "commitIndex s = commitIndex r" "hTerm h' i = ?T"
    using s(1) r(3) by (simp_all add: h'_def still_def)
  ultimately show "tracks M h' i s" using s r(1,2,6) by (simp add: tracks_def)
qed

lemma simulates_client:
  assumes inv: "hist_inv M h" and tr: "tracks M h i r" "raft_id r = i" "steady_node M r" "plain_cmd cmd"
  shows "simulates M h i (handleClientCommand cmd ch r) {}"
proof (cases "state r = Leader")
  case False
  then have "tracks M h i (handleClientCommand cmd ch r)"
    by (intro tracks_still [OF tr(1)]) (simp_all add: handleClientCommand_def still_def asks_def respond_def emit_def)
  then show ?thesis by (intro simulates_still) auto
next
  case True
  define e where "e = \<lparr>Index = lastLogIndex r + 1, Term = currentTerm r, Command = cmd\<rparr>"
  define h' where "h' = setLog i (hLog h i @ [e]) (setLlog (hTerm h i) (hLog h i @ [e]) h)"
  let ?s = "clientAppended cmd ch r"
  have ext: "hstep M i h h'" "tracks M h' i x"
    if "still (r\<lparr>log := log r @ [e]\<rparr>) x" "currentTerm x = currentTerm r" "state x = Leader" "matchIndex x = matchIndex r" for x
    using tracks_extend [OF inv tr(1) True _ _ that] by (auto simp: e_def h'_def)
  have sim: "simulates M h i x {}" if "hstep M i h h'" "tracks M h' i x" for x
    using that unfolding simulates_def by (intro exI [of _ h']) (auto simp: h'_def)
  have s: "still (r\<lparr>log := log r @ [e]\<rparr>) ?s" "currentTerm ?s = currentTerm r" "state ?s = Leader" "matchIndex ?s = matchIndex r"
    using True by (auto simp: clientAppended_def node_defs Let_def still_def asks_def e_def)
  note t = ext [OF s]
  have inv': "hist_inv M h'" using hstep_inv [OF t(1) inv] by blast
  have st: "steady_node M ?s" "raft_id ?s = i" using tr(2-4) by (auto simp: steady_node_def)
  have "tracks M h' i (applyLogs (?s\<lparr>commitIndex := lastLogIndex r + 1\<rparr>))" if "checkCommitMajority ?s (lastLogIndex r + 1)"
  proof -
    have n: "lastLogIndex r + 1 = int (length (log ?s))" using tracks_numbered(1) [OF inv' t(2)] clientAppended_last [of cmd ch r] by simp
    have w: "whole ?s" using t(2) unfolding tracks_def by blast
    have "lastTerm (take (length (log ?s)) (log ?s)) = currentTerm ?s" by (simp add: lastTerm_def)
    with whole_getEntryTerm [OF w order_refl] have "getEntryTerm ?s (lastLogIndex r + 1) = currentTerm ?s"
      unfolding n by (rule trans)
    moreover have n': "0 < lastLogIndex r + 1" "lastLogIndex r + 1 \<le> int (length (log ?s))" using n by simp_all
    ultimately have "chosen M h' (nat (lastLogIndex r + 1)) (hTerm h' i)"
      using that by (intro commit_chosen [OF inv' t(2) s(3) st(2,1)])
    moreover have "commitIndex ?s < lastLogIndex r + 1"
      using tr(1) n by (auto simp: tracks_def committed_def)
    moreover have "plain_log (log ?s)" "hLog h' i = hLlog h' (hTerm h' i)" using steady_plain [OF st(1)] by (auto simp: h'_def)
    ultimately show ?thesis using n'(2) by (intro tracks_commit [OF inv' t(2)])
  qed
  moreover have "tracks M h' i (respond ch False (Some x) (fst (appendLog e r)))" for x
    using True by (intro ext(2)) (auto simp: node_defs still_def asks_def)
  ultimately show ?thesis
    using True t sim by (simp add: handleClientCommand_cases Let_def e_def [symmetric] split: option.split)
qed

section \<open>Messages of a leader\<close>

lemma at_more [simp]:
  "lastLogIndex (at r pt conns) = lastLogIndex r" "getEntry (at r pt conns) = getEntry r" "nextIndex (at r pt conns) = nextIndex r"
  "commitIndex (at r pt conns) = commitIndex r" "lastIncludedIndex (at r pt conns) = lastIncludedIndex r"
  "getEntryTerm (at r pt conns) = getEntryTerm r" "entryOrEmpty (at r pt conns) = entryOrEmpty r"
  "lastLogTerm (at r pt conns) = lastLogTerm r"
proof -
  show e: "getEntry (at r pt conns) = getEntry r" by (rule getEntry_cong) (simp_all add: at_def)
  show "getEntryTerm (at r pt conns) = getEntryTerm r" "entryOrEmpty (at r pt conns) = entryOrEmpty r"
    by (simp_all add: getEntryTerm_def entryOrEmpty_def fun_eq_iff e)
qed (simp_all add: at_def lastLogIndex_def lastLogTerm_def)

lemma entries_slice:
  assumes "whole r" "b \<le> length (log r)"
  shows "map (entryOrEmpty r) [int b + 1..int (length (log r))] = drop b (log r)"
  using assms(2)
proof (induction "length (log r) - b" arbitrary: b)
  case (Suc d)
  then have "getEntry r (int b + 1) = Some (log r ! b)"
    using whole_getEntry(1) [OF assms(1), of b] by (simp add: add.commute)
  moreover have "map (entryOrEmpty r) [int (Suc b) + 1..int (length (log r))] = drop (Suc b) (log r)"
    using Suc by (intro Suc(1)) auto
  ultimately show ?case
    using Suc by (simp add: upto_rec1 entryOrEmpty_def Cons_nth_drop_Suc [symmetric] add.commute)
qed simp

text \<open>The leader's log ends with an entry of its own term.\<close>

lemma leader_last:
  assumes "hist_inv M h" "hLead h T = Some l"
  shows "lastTerm (hLlog h T) = T"
  using hist_invD(6) [OF assms] by (auto simp: elected_def lastTerm_def)

lemma leader_carries:
  assumes inv: "hist_inv M h" and tr: "tracks M h i r" "state r = Leader" and b: "b \<le> length (log r)"
    and q: "q = \<lparr>aeTerm = currentTerm r, aeLeaderId = x, PrevLogIndex = int b, PrevLogTerm = getEntryTerm r (int b),
      Entries = drop b (log r), LeaderCommit = commitIndex r\<rparr>"
  shows "packet_ok M h (p, appendEntriesMsg q)"
proof -
  have r: "currentTerm r = hTerm h i" "log r = hLog h i" "whole r" "hLead h (hTerm h i) = Some i" "hLog h i = hLlog h (hTerm h i)"
    "committed M h (hTerm h i) (hLog h i) (nat (commitIndex r))"
    using tr by (auto simp: tracks_def leads_def)
  have "carries M q b (length (log r)) (hLlog h (hTerm h i)) h"
    using r b leader_last [OF inv r(4)] whole_getEntryTerm [OF r(3) b] by (simp add: carries_def q)
  then show ?thesis using r(1,4) by (auto simp: packet_ok_def q)
qed

lemma sends_tracked:
  assumes inv: "hist_inv M h" and tr: "tracks M h i r" "raft_id r = i" and sent: "sends r pk"
  shows "packet_ok M h pk"
  using sent
proof cases
  case (pre_vote p t li lt pt conns q)
  then show ?thesis by (simp add: packet_ok_def)
next
  case (request_vote p t li lt pt conns q)
  have "asked h i t li lt" using request_vote(2) tr(1) by (fastforce simp: tracks_def asks_def)
  moreover have "q = \<lparr>rvTerm = t, CandidateId = i, LastLogIndex = li, LastLogTerm = lt\<rparr>"
    using callPeer_request [OF request_vote(3) [unfolded sendRequestVote_def]] tr(2) by simp
  ultimately show ?thesis using request_vote(1) by (simp add: packet_ok_def)
next
  case (read_probe pt conns p q)
  have l: "lastLogIndex r = int (length (log r))" "lastLogTerm r = lastTerm (log r)" using tracks_numbered [OF inv tr(1)] by auto
  have "q = \<lparr>aeTerm = currentTerm r, aeLeaderId = raft_id r, PrevLogIndex = lastLogIndex r, PrevLogTerm = lastLogTerm r,
      Entries = [], LeaderCommit = commitIndex r\<rparr>"
    using callPeer_request [OF read_probe(3) [unfolded sendAppendEntries_def]] by simp
  moreover have "getEntryTerm r (int (length (log r))) = lastTerm (log r)"
    using whole_getEntryTerm [of r "length (log r)"] tr(1) by (simp add: tracks_def)
  ultimately show ?thesis
    unfolding read_probe(1) using l by (intro leader_carries [OF inv tr(1) read_probe(2), of "length (log r)"]) auto
next
  case (snapshot d x pt conns p q)
  then show ?thesis using tr(1) by (auto simp: snapshotToSend_def tracks_def whole_def split: if_splits)
next
  case (append p pt conns q)
  let ?n = "get_int (nextIndex r) p"
  have w: "whole r" using tr(1) by (simp add: tracks_def)
  have l: "lastLogIndex r = int (length (log r))" using tracks_numbered [OF inv tr(1)] by auto
  from append(2) have ld: "state r = Leader" and n: "0 < ?n" and
    q0: "sendAppendEntries (at r pt conns) p (currentTerm r) (?n - 1) (getEntryTerm r (?n - 1))
      (if lastLogIndex r \<ge> ?n then map (entryOrEmpty r) [?n..lastLogIndex r] else []) (commitIndex r) = Inr q"
    using w by (auto simp: replicateToPeer_def Let_def whole_def split: if_splits sum.splits)
  have q: "q = \<lparr>aeTerm = currentTerm r, aeLeaderId = raft_id r, PrevLogIndex = ?n - 1, PrevLogTerm = getEntryTerm r (?n - 1),
      Entries = (if lastLogIndex r \<ge> ?n then map (entryOrEmpty r) [?n..lastLogIndex r] else []), LeaderCommit = commitIndex r\<rparr>"
    using callPeer_request [OF q0 [unfolded sendAppendEntries_def]] by simp
  show ?thesis
  proof (cases "?n - 1 \<le> int (length (log r))")
    case True
    then obtain b where b: "?n = int b + 1" "b \<le> length (log r)" using n that [of "nat (?n - 1)"] by auto
    have "Entries q = drop b (log r)" using entries_slice [OF w b(2)] b l by (auto simp: q)
    then show ?thesis
      unfolding append(1) using q b by (intro leader_carries [OF inv tr(1) ld b(2), of q "raft_id r"]) auto
  next
    case False
    then have "getEntryTerm r (?n - 1) = 0" using w by (auto simp: getEntryTerm_def getEntry_def whole_def Let_def)
    moreover have "hLead h (currentTerm r) \<noteq> None" using tr(1) ld by (auto simp: tracks_def leads_def)
    ultimately show ?thesis unfolding append(1) using False by (simp add: packet_ok_def q)
  qed
qed

end
