(* ===== verification/Persist.thy ===== *)
theory Persist
  imports Tracking
begin

text \<open>
  The term and the vote on disk. Every handler of a node is followed to what it leaves in the
  WAL: after an event in which the node votes, the term and the vote on disk are those of the
  node; no other event changes them, also not one in which the node adopts a newer term. No
  write fails, and the log is never compacted.
\<close>

section \<open>The term and the vote on disk\<close>

type_synonym marshaller = "WALRecord \<Rightarrow> bytes result"
type_synonym unmarshaller = "bytes \<Rightarrow> WALRecord result"

definition saved :: "marshaller \<Rightarrow> unmarshaller \<Rightarrow> raft \<Rightarrow> int \<times> string \<Rightarrow> bool" where
  "saved ms us r p \<longleftrightarrow> marshal (env r) = ms \<and> unmarshal (env r) = us \<and> quiet r \<and>
     (\<exists>recs es. wal_holds r recs \<and> replayRecords recs = (fst p, snd p, es) \<and> plain_log es)"

definition fitting :: "marshaller \<Rightarrow> unmarshaller \<Rightarrow> LogEntry \<Rightarrow> bool" where
  "fitting ms us e \<longleftrightarrow> codec_ok ms us (WALRecord_Entry e) \<and> codec_ok ms us (WALRecord_TruncateIndex (Index e))"

definition fitting_state :: "marshaller \<Rightarrow> unmarshaller \<Rightarrow> raft \<Rightarrow> bool" where
  "fitting_state ms us r \<longleftrightarrow> codec_ok ms us (WALRecord_State \<lparr>smTerm = currentTerm r, smVotedFor = votedFor r\<rparr>)"

lemma saved_cong: "wal r' = wal r \<Longrightarrow> env r' = env r \<Longrightarrow> saved ms us r' = saved ms us r"
  using wal_holds_cong [of r' r] by (simp add: saved_def fun_eq_iff)

lemma saved_write:
  assumes "saved ms us r p" "codec_ok ms us rec"
    and "\<And>es. plain_log es \<Longrightarrow> \<exists>es'. replayRecord (fst p, snd p, es) rec = (fst p', snd p', es') \<and> plain_log es'"
  shows "saved ms us (fst (wroteWal (writeRecord ms (nextWrite r) (wal r) rec) r)) p'"
proof -
  from assms(1) obtain recs es where r: "marshal (env r) = ms" "unmarshal (env r) = us" "quiet r"
    and recs: "wal_holds r recs" "replayRecords recs = (fst p, snd p, es)" "plain_log es"
    by (auto simp: saved_def)
  have "can_store r rec" using assms(2) r by simp
  note w = wal_holds_write [OF recs(1) r(3) this, unfolded r same_codec_def]
  obtain es' where "replayRecord (fst p, snd p, es) rec = (fst p', snd p', es')" "plain_log es'"
    using assms(3) [OF recs(3)] by blast
  then have "replayRecords (recs @ [rec]) = (fst p', snd p', es')" "plain_log es'"
    by (simp_all add: replayRecords_snoc recs(2))
  with w show ?thesis unfolding saved_def by blast
qed

lemma placeEntry_set: "set (placeEntry e es) \<subseteq> insert e (set es)"
  by (induction es) auto

lemma saved_walState:
  assumes "saved ms us r p" "fitting_state ms us r"
  shows "saved ms us (fst (walState r)) (currentTerm r, votedFor r)"
proof -
  have "marshal (env r) = ms" using assms(1) by (simp add: saved_def)
  then show ?thesis
    using saved_write [OF assms(1), of "WALRecord_State \<lparr>smTerm = currentTerm r, smVotedFor = votedFor r\<rparr>"
        "(currentTerm r, votedFor r)"] assms(2)
    by (simp add: walState_def AppendState_def fitting_state_def)
qed

lemma saved_appendLog:
  assumes "saved ms us r p" "fitting ms us e" "plain_cmd (Command e)"
  shows "saved ms us (fst (appendLog e r)) p"
proof -
  let ?s = "r\<lparr>log := log r @ [e]\<rparr>"
  have s: "saved ms us ?s p" using assms(1) saved_cong [of ?s r ms us] by simp
  have "marshal (env r) = ms" using assms(1) by (simp add: saved_def)
  moreover have "plain_log (placeEntry e es)" if "plain_log es" for es
    using that assms(3) placeEntry_set [of e es] by (auto simp: plain_log_def)
  ultimately show ?thesis
    using saved_write [OF s, of "WALRecord_Entry e" p] assms(2)
    by (simp add: appendLog_def walEntry_def AppendEntry_def fitting_def)
qed

lemma saved_walTruncate:
  assumes "saved ms us r p" "codec_ok ms us (WALRecord_TruncateIndex i)"
  shows "saved ms us (fst (walTruncate i r)) p"
proof -
  have "marshal (env r) = ms" using assms(1) by (simp add: saved_def)
  moreover have "plain_log (filter P es)" if "plain_log es" for P es
    using that by (auto simp: plain_log_def)
  ultimately show ?thesis
    using saved_write [OF assms(1), of "WALRecord_TruncateIndex i" p] assms(2)
    by (simp add: walTruncate_def AppendTruncate_def)
qed

lemma saved_appendOne:
  assumes "saved ms us r p" "fitting ms us e" "plain_cmd (Command e)"
  shows "saved ms us (appendOne r e) p"
proof -
  let ?s = "r\<lparr>log := take (nat (Index e - lastIncludedIndex r - 1)) (log r)\<rparr>"
  have "saved ms us ?s p" using assms(1) saved_cong [of ?s r ms us] by simp
  then have "saved ms us (fst (walTruncate (Index e) ?s)) p"
    using assms(2) by (intro saved_walTruncate) (simp_all add: fitting_def)
  then show ?thesis
    using assms saved_appendLog by (simp add: appendOne_def Let_def split: option.split)
qed

lemma saved_foldl:
  "saved ms us r p \<Longrightarrow> \<forall>e \<in> set es. fitting ms us e \<Longrightarrow> plain_log es \<Longrightarrow> saved ms us (foldl appendOne r es) p"
  by (induction es arbitrary: r) (simp_all add: saved_appendOne)

text \<open>Applying entries writes nothing.\<close>

lemma applyNext_files:
  assumes "plain_log (log r)"
  shows "wal (applyNext r) = wal r \<and> env (applyNext r) = env r"
proof -
  have e: "envType v \<noteq> EntryConfigChange \<Longrightarrow> wal (applyEnvelope v s) = wal s \<and> env (applyEnvelope v s) = env s"
    for v s by (simp add: applyEnvelope_def applyCommand_def split: option.split prod.split)
  have b: "wal (beginApply r) = wal r" "env (beginApply r) = env r" by (simp_all add: beginApply_def emit_def)
  show ?thesis
  proof (cases "getEntry (beginApply r) (lastApplied (beginApply r))")
    case None
    then show ?thesis using b by (simp add: applyNext_def Let_def)
  next
    case (Some x)
    then have "plain_cmd (Command x)" using plain_getEntry [of "beginApply r"] assms by simp
    with Some b e show ?thesis by (auto simp: applyNext_def Let_def plain_cmd_def split: sum.splits)
  qed
qed

lemma applyLogs_files:
  assumes "whole r" "plain_log (log r)"
  shows "wal (applyLogs r) = wal r" "env (applyLogs r) = env r" "asks (applyLogs r) = asks r"
    "whole (applyLogs r)" "log (applyLogs r) = log r"
proof -
  have loop: "log (applyLoop r) = log r \<and> wal (applyLoop r) = wal r \<and> env (applyLoop r) = env r"
    by (rule applyLoop_induct [of "\<lambda>s. log s = log r \<and> wal s = wal r \<and> env s = env r"])
      (use assms(2) in \<open>auto simp: applyNext_plain applyNext_files\<close>)
  have w: "whole (applyLoop r)" using assms(1) by (simp add: whole_def)
  then have al: "applyLogs r = completeProposals (applyLoop r)" by (simp add: applyLogs_def whole_compact)
  show "wal (applyLogs r) = wal r" "env (applyLogs r) = env r" "asks (applyLogs r) = asks r" "log (applyLogs r) = log r"
    using loop applyLoop_plain_rest [OF assms(2)] by (simp_all add: al)
  show "whole (applyLogs r)" using w by (simp add: al whole_def)
qed

lemma whole_commit [simp]: "whole (r\<lparr>commitIndex := n\<rparr>) = whole r" "asks (r\<lparr>commitIndex := n\<rparr>) = asks r"
  by (simp_all add: whole_def asks_def)

lemma commitLoop_files:
  assumes "whole r" "plain_log (log r)"
  shows "wal (foldl commitStep r ns) = wal r \<and> env (foldl commitStep r ns) = env r \<and> asks (foldl commitStep r ns) = asks r"
  using assms
proof (induction ns arbitrary: r)
  case (Cons n ns)
  have "wal (commitStep r n) = wal r" "env (commitStep r n) = env r" "asks (commitStep r n) = asks r"
    "whole (commitStep r n)" "plain_log (log (commitStep r n))"
    using applyLogs_files [of "r\<lparr>commitIndex := n\<rparr>"] Cons.prems by (simp_all add: commitStep_def)
  with Cons.IH [of "commitStep r n"] show ?case by simp
qed simp

section \<open>Every event and the disk\<close>

text \<open>\<open>r'\<close> has asked for votes only where \<open>r\<close> had, or in terms above that of \<open>r\<close>.\<close>

definition asks_on :: "raft \<Rightarrow> raft \<Rightarrow> bool" where
  "asks_on r r' \<longleftrightarrow> asks r' \<subseteq> asks r \<union> {(p, t, li, lt). currentTerm r < t}"

lemma asks_on_refl [simp]: "asks_on r r"
  by (simp add: asks_on_def)

lemma saved_leader:
  assumes "saved ms us r p" "\<forall>e \<in> set (log (transitionToLeader r)). fitting ms us e"
  shows "saved ms us (transitionToLeader r) p" "asks (transitionToLeader r) = asks r"
proof -
  have "saved ms us (transitionToLeader r) p \<and> asks (transitionToLeader r) = asks r"
  proof (cases "state r = Candidate")
    case True
    obtain r4 e where r4: "wal r4 = wal r" "env r4 = env r" "asks r4 = asks r" "log r4 = log r"
      "transitionToLeader r = emit [GoHeartbeatTicker] (broadcastHeartbeats (fst (appendLog e r4)))" "plain_cmd (Command e)"
    proof -
      define r3 where "r3 = initPeers (fst (connectToPeersLocked
        (case electionTimer r of Some t \<Rightarrow> (emit [SetGauge ''raft_role'' 2] (r\<lparr>state := Leader\<rparr>))\<lparr>electionTimer := Some False\<rparr>
         | None \<Rightarrow> emit [SetGauge ''raft_role'' 2] (r\<lparr>state := Leader\<rparr>))))"
      have "wal r3 = wal r" "env r3 = env r" "asks r3 = asks r" "log r3 = log r"
        by (auto simp: r3_def node_defs asks_def Let_def split: option.split)
      moreover have "transitionToLeader r = emit [GoHeartbeatTicker] (broadcastHeartbeats (fst (appendLog
          \<lparr>Index = lastLogIndex r3 + 1, Term = currentTerm r3, Command = json_print (jsonEnvelope EntryNoop None None)\<rparr> r3)))"
        using True by (simp add: transitionToLeader_def EncodeNoopEntry_def r3_def Let_def) (simp add: emit_def)
      ultimately show ?thesis using that plain_noop by simp
    qed
    have "saved ms us r4 p" using assms(1) r4(1,2) saved_cong by metis
    moreover have "fitting ms us e" using assms(2) r4(5) by (simp add: node_defs)
    ultimately have "saved ms us (fst (appendLog e r4)) p" using r4(6) saved_appendLog by blast
    then have "saved ms us (transitionToLeader r) p"
      by (subst saved_cong [of _ "fst (appendLog e r4)"]) (simp_all add: r4(5) emit_def broadcastHeartbeats_def)
    moreover have "asks (transitionToLeader r) = asks r"
      unfolding r4(5) r4(3) [symmetric] by (auto simp: node_defs asks_def)
    ultimately show ?thesis ..
  qed (use assms(1) in \<open>simp add: transitionToLeader_def\<close>)
  then show "saved ms us (transitionToLeader r) p" "asks (transitionToLeader r) = asks r" by auto
qed

lemma saved_candidate:
  fixes r
  defines "r' \<equiv> transitionToCandidate r"
  assumes "saved ms us r p" "fitting_state ms us r'" "\<forall>e \<in> set (log r'). fitting ms us e"
  shows "saved ms us r' (currentTerm r', votedFor r')" "asks_on r r'"
proof -
  define s where "s = emit [SetGauge ''raft_role'' 1, SetGauge ''raft_current_term'' (currentTerm r + 1),
     IncCounter ''raft_leader_elections_total'']
     (r\<lparr>state := Candidate, currentTerm := currentTerm r + 1, votedFor := raft_id r,
       electionTimer := Some True, votesReceived := AList.update (raft_id r) True []\<rparr>)"
  have a: "asCandidate r = fst (walState s)" by (simp add: asCandidate_def s_def)
  have c: "currentTerm r' = currentTerm r + 1" "votedFor r' = raft_id r" by (simp_all add: r'_def transitionToCandidate_eq)
  have s: "currentTerm s = currentTerm r + 1" "votedFor s = raft_id r" "wal s = wal r" "env s = env r"
    by (simp_all add: s_def emit_def)
  have "saved ms us s p" using assms(2) saved_cong [of s r] s by simp
  then have "saved ms us (asCandidate r) (currentTerm s, votedFor s)"
    unfolding a using assms(3) s c by (intro saved_walState) (simp_all add: fitting_state_def)
  then have w: "saved ms us (asCandidate r) (currentTerm r', votedFor r')" by (simp only: s c)
  have k: "asks (asCandidate r) \<subseteq> asks r" using still_candidate [of r] by (simp add: still_def)
  have r': "r' = startElection (asCandidate r)" by (simp add: r'_def transitionToCandidate_eq)
  show "saved ms us r' (currentTerm r', votedFor r')"
  proof (cases "effectivePeers (asCandidate r) = []")
    case True
    then have e: "r' = transitionToLeader (asCandidate r)" by (simp add: r' startElection_def)
    show ?thesis using saved_leader(1) [OF w] assms(4) unfolding e [symmetric] by blast
  next
    case False
    then have "wal r' = wal (asCandidate r)" "env r' = env (asCandidate r)"
      unfolding r' by (simp_all add: startElection_def emit_def Let_def)
    from saved_cong [OF this] w show ?thesis by (simp only:)
  qed
  show "asks_on r r'"
  proof (cases "effectivePeers (asCandidate r) = []")
    case True
    then have e: "r' = transitionToLeader (asCandidate r)" by (simp add: r' startElection_def)
    show ?thesis using saved_leader(2) [OF w] assms(4) k unfolding e [symmetric] by (auto simp: asks_on_def)
  next
    case False
    then show ?thesis using k by (auto simp: r' startElection_def Let_def asks_on_def)
  qed
qed

text \<open>The events of a cluster in which the log is never compacted and the membership never changes.\<close>

definition storable :: "marshaller \<Rightarrow> unmarshaller \<Rightarrow> event \<Rightarrow> bool" where
  "storable ms us ev \<longleftrightarrow>
     (case ev of
        Rpc m \<Rightarrow>
          (case m of
             appendEntriesMsg q \<Rightarrow> plain_log (Entries q) \<and> (\<forall>e \<in> set (Entries q). fitting ms us e)
           | installSnapshotMsg q \<Rightarrow> False
           | _ \<Rightarrow> True)
      | ClientCmd cmd ch \<Rightarrow> plain_cmd cmd
      | ConfigChange req ch \<Rightarrow> False
      | _ \<Rightarrow> True)"

text \<open>
  What an event does to the disk: the term and the vote there are those of the node after an
  event in which it votes, and are as before after any other.
\<close>

definition to_disk :: "marshaller \<Rightarrow> unmarshaller \<Rightarrow> raft \<Rightarrow> int \<times> string \<Rightarrow> raft \<Rightarrow> bool \<Rightarrow> bool" where
  "to_disk ms us r p r' b \<longleftrightarrow> saved ms us r' (if b then (currentTerm r', votedFor r') else p) \<and> asks_on r r'"

lemma to_disk_same:
  "saved ms us r p \<Longrightarrow> wal r' = wal r \<Longrightarrow> env r' = env r \<Longrightarrow> asks r' \<subseteq> asks r \<Longrightarrow> to_disk ms us r p r' False"
  using saved_cong [of r' r] by (auto simp: to_disk_def asks_on_def)

lemma asks_follower: "asks (transitionToFollower t r) = asks r"
  using still_follower [of r t]
  by (auto simp: asks_def transitionToFollower_def failProposals_def resetElectionTimer_def emit_def Let_def)

lemma asks_followLeader: "asks (followLeader t l r) = asks r"
proof -
  have "asks (stepDownFor t r) = asks r" by (simp add: stepDownFor_def asks_follower Let_def)
  then show ?thesis by (simp add: followLeader_def resetElectionTimer_def asks_def)
qed

text \<open>A node that votes in the events of its own timer and of a pre-vote becomes a candidate.\<close>

lemma casts_timer:
  assumes "casts Timer r"
  shows "electionTimerFired r = transitionToCandidate
    ((r\<lparr>electionTimer := Some True\<rparr>)\<lparr>preVoteVotesReceived := AList.update (raft_id r) True []\<rparr>)"
proof -
  have "effectivePeers ((r\<lparr>electionTimer := Some True\<rparr>)\<lparr>preVoteVotesReceived := v\<rparr>) = effectivePeers r" for v
    by (simp add: effectivePeers_def split: option.split)
  with assms show ?thesis by (simp add: electionTimerFired_def startPreVote_def resetElectionTimer_def Let_def)
qed

lemma casts_prevote:
  assumes "casts (Rpc (preVoteRespMsg q m)) r"
  shows "processPreVoteResponse q m r =
    transitionToCandidate (r\<lparr>preVoteVotesReceived := AList.update q True (preVoteVotesReceived r)\<rparr>)"
proof -
  have "voteMajority v (r\<lparr>preVoteVotesReceived := x\<rparr>) = voteMajority v r" for v x
    by (simp add: voteMajority_def split: option.split)
  with assms show ?thesis by (simp add: processPreVoteResponse_def Let_def)
qed

lemma disk_prevote_response:
  assumes "saved ms us r p" "fitting_state ms us (processPreVoteResponse q m r)"
    and "\<forall>e \<in> set (log (processPreVoteResponse q m r)). fitting ms us e"
  shows "to_disk ms us r p (processPreVoteResponse q m r) (casts (Rpc (preVoteRespMsg q m)) r)"
proof -
  let ?s = "r\<lparr>preVoteVotesReceived := AList.update q True (preVoteVotesReceived r)\<rparr>"
  have s: "saved ms us ?s p" using assms(1) saved_cong [of ?s r ms us] by simp
  have e: "voteMajority v ?s = voteMajority v r" for v by (simp add: voteMajority_def split: option.split)
  show ?thesis
  proof (cases "casts (Rpc (preVoteRespMsg q m)) r")
    case True
    from saved_candidate [OF s] assms(2,3) True show ?thesis
      unfolding casts_prevote [OF True] by (simp add: to_disk_def asks_on_def asks_def)
  next
    case False
    then have "processPreVoteResponse q m r \<in> {r, ?s}"
      by (auto simp: processPreVoteResponse_def e Let_def)
    with False to_disk_same [OF assms(1), of r] to_disk_same [OF assms(1), of ?s] show ?thesis by (auto simp: asks_def)
  qed
qed

lemma disk_timer:
  assumes "saved ms us r p" "fitting_state ms us (electionTimerFired r)"
    and "\<forall>e \<in> set (log (electionTimerFired r)). fitting ms us e"
  shows "to_disk ms us r p (electionTimerFired r) (casts Timer r)"
proof -
  let ?s = "(r\<lparr>electionTimer := Some True\<rparr>)\<lparr>preVoteVotesReceived := AList.update (raft_id r) True []\<rparr>"
  have s: "saved ms us ?s p" using assms(1) saved_cong [of ?s r ms us] by simp
  have e: "effectivePeers ?s = effectivePeers r" by (simp add: effectivePeers_def split: option.split)
  show ?thesis
  proof (cases "casts Timer r")
    case True
    from saved_candidate [OF s] assms(2,3) True show ?thesis
      unfolding casts_timer [OF True] by (simp add: to_disk_def asks_on_def asks_def)
  next
    case False
    then have "wal (electionTimerFired r) = wal r \<and> env (electionTimerFired r) = env r \<and> asks (electionTimerFired r) \<subseteq> asks r"
      using e by (auto simp: electionTimerFired_def startPreVote_def resetElectionTimer_def emit_def asks_def Let_def)
    with False to_disk_same [OF assms(1)] show ?thesis by auto
  qed
qed

lemma disk_request_vote:
  assumes "saved ms us r p" "fitting_state ms us (fst (processRequestVote q r))"
  shows "to_disk ms us r p (fst (processRequestVote q r)) (casts (Rpc (requestVoteMsg q)) r)"
proof (cases "grants q r")
  case True
  define s where "s = resetElectionTimer ((if rvTerm q > currentTerm r then transitionToFollower (rvTerm q) r else r)
    \<lparr>votedFor := CandidateId q\<rparr>)"
  note g = processRequestVote_granted [OF True, folded s_def]
  have s: "wal s = wal r" "env s = env r" "asks s = asks r"
    using asks_follower [of "rvTerm q" r] by (auto simp: s_def resetElectionTimer_def asks_def)
  have k: "currentTerm (fst (walState s)) = currentTerm s" "votedFor (fst (walState s)) = votedFor s"
    "asks (fst (walState s)) = asks s" by (simp_all add: walState_def wroteWal_def asks_def)
  have "saved ms us (fst (walState s)) (currentTerm s, votedFor s)"
    using assms saved_cong [of s r ms us] s k by (intro saved_walState [of _ _ _ p]) (simp_all add: g fitting_state_def)
  with s k show ?thesis by (simp add: to_disk_def g asks_on_def)
next
  case False
  then have "\<not> casts (Rpc (requestVoteMsg q)) r" using processRequestVote_refused by simp
  moreover from False have "fst (processRequestVote q r) \<in> {r, transitionToFollower (rvTerm q) r}"
    by (auto simp: processRequestVote_def grants_def Let_def)
  ultimately show ?thesis
    using to_disk_same [OF assms(1), of r] to_disk_same [OF assms(1), of "transitionToFollower (rvTerm q) r"] asks_follower by auto
qed

lemma disk_vote_response:
  assumes "saved ms us r p" "\<forall>e \<in> set (log (processRequestVoteResponse q m r)). fitting ms us e"
  shows "to_disk ms us r p (processRequestVoteResponse q m r) False"
proof -
  let ?s = "r\<lparr>votesReceived := AList.update q True (votesReceived r)\<rparr>"
  have s: "saved ms us ?s p" using assms(1) saved_cong [of ?s r ms us] by simp
  have "processRequestVoteResponse q m r \<in> {r, ?s, transitionToFollower (rvrTerm m) r, transitionToLeader ?s}"
    by (simp add: processRequestVoteResponse_def Let_def)
  then consider "processRequestVoteResponse q m r \<in> {r, ?s, transitionToFollower (rvrTerm m) r}"
    | "processRequestVoteResponse q m r = transitionToLeader ?s" by blast
  then show ?thesis
  proof cases
    case 1
    then show ?thesis
      using to_disk_same [OF assms(1), of r] to_disk_same [OF assms(1), of ?s]
        to_disk_same [OF assms(1), of "transitionToFollower (rvrTerm m) r"] asks_follower by (auto simp: asks_def)
  next
    case 2
    with saved_leader [OF s] assms(2) show ?thesis by (simp add: to_disk_def asks_on_def asks_def)
  qed
qed

lemma disk_append:
  assumes "saved ms us r p" "whole r" "plain_log (log r)" "storable ms us (Rpc (appendEntriesMsg q))"
  shows "to_disk ms us r p (fst (processAppendEntries q r)) False"
proof -
  let ?f = "followLeader (aeTerm q) (aeLeaderId q) r"
  let ?a = "foldl appendOne ?f (Entries q)"
  have f: "saved ms us ?f p" using assms(1) saved_cong [of ?f r ms us] by simp
  then have a: "saved ms us ?a p" using assms(4) by (intro saved_foldl) (simp_all add: storable_def)
  have w: "whole (?a\<lparr>commitIndex := n\<rparr>)" "plain_log (log (?a\<lparr>commitIndex := n\<rparr>))" for n
    using assms(2-4) foldl_appendOne_plain [of ?f "Entries q"] by (simp_all add: whole_def storable_def)
  have ask: "asks ?a = asks ?f"
  proof -
    have "asks (appendOne s e) = asks s" for s e
      by (simp add: appendOne_def node_defs asks_def Let_def split: option.split)
    then have "asks (foldl appendOne s es) = asks s" for s es by (induction es arbitrary: s) simp_all
    then show ?thesis .
  qed
  have "wal (advanceCommit n ?a) = wal ?a \<and> env (advanceCommit n ?a) = env ?a \<and> asks (advanceCommit n ?a) = asks ?a" for n
    using applyLogs_files [OF w] by (simp add: advanceCommit_def)
  then have "to_disk ms us r p (advanceCommit n ?a) False" for n
    using to_disk_same [OF a, of "advanceCommit n ?a"] ask asks_followLeader [of _ _ r]
    by (simp add: to_disk_def asks_on_def)
  moreover have "to_disk ms us r p ?f False" using to_disk_same [OF assms(1), of ?f] asks_followLeader by simp
  ultimately show ?thesis
    using to_disk_same [OF assms(1), of r] by (auto simp: processAppendEntries_def Let_def)
qed

lemma disk_append_response:
  assumes "saved ms us r p" "whole r" "plain_log (log r)"
  shows "to_disk ms us r p (processAppendEntriesResponse q m r) False"
proof -
  define s where "s = trimProposalTime (observeLag q (get_int (matchIndex r) q) (MatchIndex m)
    (r\<lparr>matchIndex := AList.update q (MatchIndex m) (matchIndex r), nextIndex := AList.update q (MatchIndex m + 1) (nextIndex r)\<rparr>))"
  have s: "wal s = wal r" "env s = env r" "asks s = asks r" "whole s" "plain_log (log s)"
    using assms(2,3) by (auto simp: s_def trimProposalTime_def observeLag_def emit_def asks_def whole_def split: option.splits)
  have "to_disk ms us r p (foldl commitStep s ns) False" for ns
    using commitLoop_files [OF s(4,5), of ns] s by (intro to_disk_same [OF assms(1)]) auto
  moreover have "to_disk ms us r p (transitionToFollower t r) False" for t
    using asks_follower by (intro to_disk_same [OF assms(1)]) auto
  moreover have "to_disk ms us r p (emit [GoReplicateToPeer q] (r\<lparr>nextIndex := x\<rparr>)) False" for x
    by (intro to_disk_same [OF assms(1)]) (auto simp: emit_def asks_def)
  ultimately show ?thesis
    using to_disk_same [OF assms(1), of r] by (simp add: processAppendEntriesResponse_def Let_def s_def)
qed

lemma disk_client:
  assumes "saved ms us r p" "whole r" "plain_log (log r)" "plain_cmd cmd"
    and "\<forall>e \<in> set (log (handleClientCommand cmd ch r)). fitting ms us e"
  shows "to_disk ms us r p (handleClientCommand cmd ch r) False"
proof (cases "state r = Leader")
  case False
  then show ?thesis
    by (intro to_disk_same [OF assms(1)]) (auto simp: handleClientCommand_def respond_def emit_def asks_def)
next
  case True
  let ?e = "\<lparr>Index = lastLogIndex r + 1, Term = currentTerm r, Command = cmd\<rparr>" and ?s = "clientAppended cmd ch r"
  have w: "whole (?s\<lparr>commitIndex := n\<rparr>)" "plain_log (log (?s\<lparr>commitIndex := n\<rparr>))" for n
    using assms(2-4) by (simp_all add: whole_def) (simp_all add: clientAppended_def node_defs Let_def)
  note al = applyLogs_files [OF w]
  have "log (handleClientCommand cmd ch r) = log r @ [?e]"
    using True al(5) by (simp add: handleClientCommand_cases Let_def split: option.split)
  then have a: "saved ms us (fst (appendLog ?e r)) p"
    using assms by (intro saved_appendLog) simp_all
  moreover have "asks (fst (appendLog ?e r)) = asks r" by (simp add: node_defs asks_def)
  moreover have "wal ?s = wal (fst (appendLog ?e r))" "env ?s = env (fst (appendLog ?e r))" "asks ?s = asks r"
    by (auto simp: clientAppended_def node_defs asks_def Let_def)
  moreover have "to_disk ms us r p x False"
    if "wal x = wal (fst (appendLog ?e r))" "env x = env (fst (appendLog ?e r))" "asks x = asks r" for x
    using saved_cong [OF that(1,2), of ms us] a that(3) by (simp add: to_disk_def asks_on_def)
  ultimately show ?thesis
    using True al by (auto simp: handleClientCommand_cases Let_def respond_def split: option.split) (auto simp: emit_def asks_def)
qed

lemma disk_event:
  fixes r ev
  defines "r' \<equiv> handleEvent ev r"
  assumes "saved ms us r p" "whole r" "plain_log (log r)" "storable ms us ev"
    and "fitting_state ms us r'" "\<forall>e \<in> set (log r'). fitting ms us e"
  shows "to_disk ms us r p r' (casts ev r)"
proof (cases ev)
  case Timer
  then show ?thesis using disk_timer [OF assms(2)] assms(6,7) by (simp add: r'_def)
next
  case Heartbeat
  then show ?thesis
    by (simp, intro to_disk_same [OF assms(2)])
      (auto simp: r'_def heartbeatTick_def broadcastHeartbeats_def emit_def asks_def)
next
  case (Replicate q)
  then show ?thesis
    by (simp, intro to_disk_same [OF assms(2)]) (auto simp: r'_def replicateToPeer_def Let_def emit_def asks_def)
next
  case (ClientCmd cmd ch)
  then show ?thesis using disk_client [OF assms(2-4)] assms(5,7) by (simp add: r'_def storable_def)
next
  case (ConfigChange req ch)
  then show ?thesis using assms(5) by (simp add: storable_def)
next
  case (Rpc m)
  have f: "to_disk ms us r p (transitionToFollower t r) False" for t
    using asks_follower by (intro to_disk_same [OF assms(2)]) auto
  show ?thesis
  proof (cases m)
    case (snapshotRespMsg q a)
    then show ?thesis
      using f to_disk_same [OF assms(2), of r] Rpc
      by (auto simp: r'_def processInstallSnapshotResponse_def intro!: to_disk_same [OF assms(2)]) (auto simp: emit_def asks_def)
  next
    case (preVoteReqMsg q)
    then show ?thesis using to_disk_same [OF assms(2), of r] Rpc by (simp add: r'_def)
  qed (use Rpc assms disk_prevote_response [OF assms(2)] disk_request_vote [OF assms(2)] disk_vote_response [OF assms(2)]
      disk_append [OF assms(2-4)] disk_append_response [OF assms(2-4)] in \<open>simp_all add: r'_def storable_def\<close>)
qed

end
