(* ===== verification/Restart.thy ===== *)
theory Restart
  imports Persist Leadership
begin

text \<open>
  Nodes that crash and come back. A crash loses the memory of a node and keeps its files; the
  node is then started again by \<^verbatim>\<open>NewRaft\<close> with whatever term and vote the WAL gives it, and
  messages that it sent before are still on the network. With restarts a term still has at
  most one leader, since every vote is on disk before it is sent. The same does not hold of
  the log: the last part shows how a restarted node gives up an entry that it acknowledged.
\<close>

section \<open>A cluster with crashes and restarts\<close>

text \<open>
  The assumptions on a cluster: the codec of the WAL can store the terms, votes and entries
  that occur, no write fails, no node is shut down without a restart, and none compacts its log.
\<close>

definition healthy_node :: "marshaller \<Rightarrow> unmarshaller \<Rightarrow> raft \<Rightarrow> bool" where
  "healthy_node ms us r \<longleftrightarrow> marshal (env r) = ms \<and> unmarshal (env r) = us \<and> quiet r \<and> isOpen (wal r) \<and> whole r \<and>
     fitting_state ms us r \<and> (\<forall>e \<in> set (log r). fitting ms us e)"

definition healthy :: "marshaller \<Rightarrow> unmarshaller \<Rightarrow> string set \<Rightarrow> cluster \<Rightarrow> bool" where
  "healthy ms us M c \<longleftrightarrow> (\<forall>i \<in> M. healthy_node ms us (nodes c i)) \<and>
     (\<forall>p q. (p, appendEntriesMsg q) \<in> net c \<longrightarrow> (\<forall>e \<in> set (Entries q). fitting ms us e))"

text \<open>A node in state \<open>r\<close> crashes and is started again on its files, with the other members as peers.\<close>

definition restarted :: "string set \<Rightarrow> string \<Rightarrow> raft \<Rightarrow> raft \<Rightarrow> bool" where
  "restarted M i r r' \<longleftrightarrow> (\<exists>en ps dir r0. stored_in dir r \<and> members ps = M - {i} \<and> unmarshal en = unmarshal (env r) \<and>
     NewRaft en None (filesAt dir r) i ps dir 0 = Inr r0 \<and> r' = startRun r0)"

inductive rstep :: "marshaller \<Rightarrow> unmarshaller \<Rightarrow> string set \<Rightarrow> cluster \<Rightarrow> cluster \<Rightarrow> bool" for ms us M where
  step: "healthy ms us M c \<Longrightarrow> cstep M c c' \<Longrightarrow> healthy ms us M c' \<Longrightarrow> rstep ms us M c c'"
| restart: "i \<in> M \<Longrightarrow> healthy ms us M c \<Longrightarrow> restarted M i (nodes c i) r' \<Longrightarrow> healthy ms us M (stepNode i r' c) \<Longrightarrow>
    rstep ms us M c (stepNode i r' c)"

text \<open>The node that starts on the files of a node that has never compacted its log.\<close>

lemma NewRaft_whole:
  assumes "stored_in dir r" "whole r" "wal_holds r recs" "replayRecords recs = (t, v, es)" "unmarshal en = unmarshal (env r)"
  shows "NewRaft en None (filesAt dir r) i ps dir 0 = Inr ((freshRaft en (filesAt dir r) i ps dir 0 (wal r))
    \<lparr>currentTerm := (if t > 0 then t else 0), votedFor := (if t > 0 then v else []), log := filter (\<lambda>e. 0 < Index e) es\<rparr>)"
proof -
  let ?f = "freshRaft en (filesAt dir r) i ps dir 0 (wal r)"
  let ?g = "?f\<lparr>currentTerm := (if t > 0 then t else 0), votedFor := (if t > 0 then v else []), log := filter (\<lambda>e. 0 < Index e) es\<rparr>"
  have w: "OpenWAL (map_of (filesAt dir r) (dir @ ''/wal.log'')) = wal r"
    using assms(3) by (simp add: filesAt_def OpenWAL_def update_conv' wal_holds_def)
  have ls: "LoadSnapshot (filesAt dir r) (dir @ ''/snapshot.json'') = Inr None"
    using LoadSnapshot_filesAt [OF assms(1)] assms(1,2) by (simp add: stored_in_def whole_def)
  have rp: "Replay (unmarshal en) (wal r) = Inr (t, v, es)"
    using Replay_wal_holds [OF assms(3)] assms(4,5) by simp
  have al: "applyLogs ?g = ?g"
    by (auto simp: applyLogs_def applyLoop.simps compact_def completeProposals_def freshRaft_def emit_def)
  have "loadState ?f = Inr (applyLogs ?g)"
    using ls rp by (simp add: loadState_def freshRaft_def Let_def)
  then show ?thesis by (simp add: NewRaft_def w al)
qed

section \<open>The invariant\<close>

text \<open>The vote on disk is the last one that was cast.\<close>

definition vote_on_disk :: "vote_history \<Rightarrow> leader_history \<Rightarrow> string \<Rightarrow> int \<Rightarrow> string \<Rightarrow> bool" where
  "vote_on_disk V L i t v \<longleftrightarrow> 0 \<le> t \<and> (t = 0 \<longrightarrow> v = []) \<and> (\<forall>t'. V i t' \<noteq> None \<longrightarrow> 0 < t' \<and> t' \<le> t) \<and>
     (v = [] \<and> V i t = None \<or> V i t = Some v \<or> (t, v) \<in> L)"

definition disk_ok :: "marshaller \<Rightarrow> unmarshaller \<Rightarrow> vote_history \<Rightarrow> leader_history \<Rightarrow> string \<Rightarrow> raft \<Rightarrow> bool" where
  "disk_ok ms us V L i r \<longleftrightarrow> 0 \<le> currentTerm r \<and> (\<forall>(p, t, li, lt) \<in> asks r. 0 < t) \<and>
     (\<exists>t v. saved ms us r (t, v) \<and> vote_on_disk V L i t v)"

definition net_ok :: "packet set \<Rightarrow> bool" where
  "net_ok ps \<longleftrightarrow> (\<forall>(p, m) \<in> ps. case m of requestVoteMsg q \<Rightarrow> 0 < rvTerm q | installSnapshotMsg q \<Rightarrow> False | _ \<Rightarrow> True)"

definition restart_inv :: "marshaller \<Rightarrow> unmarshaller \<Rightarrow> string set \<Rightarrow> vote_history \<Rightarrow> leader_history \<Rightarrow> cluster \<Rightarrow> bool" where
  "restart_inv ms us M V L c \<longleftrightarrow> cluster_inv M V L c \<and> net_ok (net c) \<and> (\<forall>i \<in> M. disk_ok ms us V L i (nodes c i))"

lemma vote_on_disk_mono: "vote_on_disk V L i t v \<Longrightarrow> V' i = V i \<Longrightarrow> L \<subseteq> L' \<Longrightarrow> vote_on_disk V' L' i t v"
  by (auto simp: vote_on_disk_def)

lemma disk_ok_same:
  assumes "disk_ok ms us V L i r" "V' i = V i" "L \<subseteq> L'" "currentTerm r' = currentTerm r" "asks r' \<subseteq> asks r"
    and "wal r' = wal r" "healthy_node ms us r'"
  shows "disk_ok ms us V' L' i r'"
proof -
  from assms(1) obtain t v where tv: "saved ms us r (t, v)" "vote_on_disk V L i t v" by (auto simp: disk_ok_def)
  then have "saved ms us r' (t, v)" using assms(6,7) by (auto simp: saved_def wal_holds_def healthy_node_def)
  with tv(2) assms vote_on_disk_mono [of V L i t v V' L'] show ?thesis by (fastforce simp: disk_ok_def)
qed

lemma event_term: "storable ms us ev \<Longrightarrow> currentTerm r \<le> currentTerm (handleEvent ev r)"
  by (cases ev) (auto simp: storable_def event_terms handleRPC_term handleClientCommand_cases respond_def emit_def Let_def split: option.split)

lemma casts_term:
  assumes "casts ev r" "0 \<le> currentTerm r" "\<forall>q. ev = Rpc (requestVoteMsg q) \<longrightarrow> 0 < rvTerm q"
  shows "0 < currentTerm (handleEvent ev r)" "storable ms us ev"
proof -
  have "0 < currentTerm (handleEvent ev r) \<and> storable ms us ev"
    using assms(1)
  proof (cases "(ev, r)" rule: casts.cases)
    case (1 r)
    then show ?thesis using assms casts_timer by (simp add: transitionToCandidate_eq storable_def)
  next
    case (2 p resp r)
    then show ?thesis using assms casts_prevote by (simp add: transitionToCandidate_eq storable_def)
  next
    case (3 req r)
    then have "grants req r" using assms(1) processRequestVote_refused by auto
    from processRequestVote_granted [OF this] this have "currentTerm (fst (processRequestVote req r)) = rvTerm req"
      by (auto simp: walState_def wroteWal_def resetElectionTimer_def grants_def)
    then show ?thesis using 3 assms(3) by (simp add: storable_def)
  qed auto
  then show "0 < currentTerm (handleEvent ev r)" "storable ms us ev" by auto
qed

lemma disk_ok_event:
  fixes r ev
  defines "r' \<equiv> handleEvent ev r"
  assumes ok: "disk_ok ms us V L i r" and h: "healthy_node ms us r" "healthy_node ms us r'"
    and loc: "plain_log (log r)" "local_ok M V' L' i r'" and ev: "storable ms us ev"
    and pos: "\<forall>q. ev = Rpc (requestVoteMsg q) \<longrightarrow> 0 < rvTerm q"
    and V': "L \<subseteq> L'" "V' i = V i \<or> casts ev r \<and> V' = castVote i (currentTerm r') (votedFor r') V"
  shows "disk_ok ms us V' L' i r'"
proof -
  from ok obtain t v where tv: "saved ms us r (t, v)" "vote_on_disk V L i t v" "0 \<le> currentTerm r" "\<forall>(p, t, li, lt) \<in> asks r. 0 < t"
    by (auto simp: disk_ok_def)
  have d: "to_disk ms us r (t, v) r' (casts ev r)"
    unfolding r'_def using h tv(1) loc(1) ev by (intro disk_event) (auto simp: healthy_node_def r'_def)
  then have a: "\<forall>(p, t, li, lt) \<in> asks r'. 0 < t" using tv(3,4) by (fastforce simp: to_disk_def asks_on_def)
  have "\<exists>t v. saved ms us r' (t, v) \<and> vote_on_disk V' L' i t v"
  proof (cases "casts ev r")
    case True
    let ?t = "currentTerm r'" and ?v = "votedFor r'"
    have t: "0 < ?t" unfolding r'_def using casts_term [OF True tv(3) pos] by blast
    have "0 < t' \<and> t' \<le> ?t" if "V' i t' \<noteq> None" for t'
    proof -
      have "t' \<le> ?t" using that loc(2) by (auto simp: local_ok_def)
      moreover have "0 < t'" if "V i t' \<noteq> None" using tv(2) that by (simp add: vote_on_disk_def)
      ultimately show ?thesis using that V'(2) t by (auto simp: castVote_def split: if_splits)
    qed
    then have "vote_on_disk V' L' i ?t ?v" using loc(2) t by (auto simp: vote_on_disk_def local_ok_def vote_ok_def)
    then show ?thesis using d True by (auto simp: to_disk_def)
  next
    case False
    then have "vote_on_disk V' L' i t v" using vote_on_disk_mono [OF tv(2)] V' by blast
    then show ?thesis using d False by (auto simp: to_disk_def)
  qed
  moreover have "0 \<le> currentTerm r'" using event_term [OF ev, of r] tv(3) by (simp add: r'_def)
  ultimately show ?thesis using a by (auto simp: disk_ok_def)
qed

text \<open>What a step of the cluster does to one node.\<close>

lemma cstep_node:
  assumes "cstep M c c'" "cluster_inv M V L c" "net_ok (net c)" "healthy ms us M c" "k \<in> M"
  shows "nodes c' k = nodes c k \<or> adjusts (nodes c k) (nodes c' k) \<or>
    (\<exists>ev. nodes c' k = handleEvent ev (nodes c k) \<and> storable ms us ev \<and> (\<forall>m. ev = Rpc m \<longrightarrow> (k, m) \<in> net c))"
  using assms(1)
proof cases
  case (deliver i m r' resp)
  have "storable ms us (Rpc m)"
    using assms(2-4) deliver(3)
    by (auto simp: storable_def net_ok_def healthy_def cluster_inv_def msg_ok_def split: rpcReq.split)
  moreover have "r' = handleEvent (Rpc m) (nodes c i)" using deliver(5) by simp
  ultimately show ?thesis using deliver(1,3) by (cases "k = i") (auto simp: stepNode_def intro!: exI [of _ "Rpc m"])
next
  case (command i op key val cid rid cmd ch)
  then have "storable ms us (ClientCmd cmd ch)" by (simp add: storable_def plain_proposed)
  then show ?thesis using command(1) by (cases "k = i") (auto simp: stepNode_def intro!: exI [of _ "ClientCmd cmd ch"])
next
  case (timer i)
  then show ?thesis by (cases "k = i") (auto simp: stepNode_def storable_def intro!: exI [of _ Timer])
next
  case (heartbeat i)
  then show ?thesis by (cases "k = i") (auto simp: stepNode_def storable_def intro!: exI [of _ Heartbeat])
next
  case (replicate i p)
  then show ?thesis by (cases "k = i") (auto simp: stepNode_def storable_def intro!: exI [of _ "Replicate p"])
next
  case (adjust i r')
  then show ?thesis by (cases "k = i") (auto simp: stepNode_def)
qed simp

lemma disk_ok_adjusts:
  assumes "adjusts r r'" "disk_ok ms us V L i r" "healthy_node ms us r'" "V' i = V i" "L \<subseteq> L'"
  shows "disk_ok ms us V' L' i r'"
proof -
  have "wal r' = wal r \<and> currentTerm r' = currentTerm r \<and> asks r' \<subseteq> asks r"
    using assms(1,3)
    by (cases rule: adjusts.cases) (auto simp: adjust_defs asks_def healthy_node_def Close_def split: option.splits if_splits)
  then show ?thesis using assms by (intro disk_ok_same [OF assms(2)]) auto
qed

lemma net_ok_cstep:
  assumes "cstep M c c'" "net_ok (net c)" "\<forall>i \<in> M. disk_ok ms us V L i (nodes c i) \<and> whole (nodes c i)"
  shows "net_ok (net c')"
  using assms(1)
proof cases
  case (deliver i m r' resp)
  have "net_ok (reply i m resp)" by (cases "(i, m, resp)" rule: reply.cases) (auto simp: net_ok_def)
  then show ?thesis using deliver(1) assms(2) by (auto simp: net_ok_def)
next
  case (send i pk)
  have "net_ok {pk}" using send(3)
  proof cases
    case (request_vote p t li lt pt conns q)
    have "0 < t" using request_vote(2) assms(3) send(2) by (fastforce simp: disk_ok_def asks_def)
    moreover have "rvTerm q = t" using callPeer_request [OF request_vote(3) [unfolded sendRequestVote_def]] by simp
    ultimately show ?thesis using request_vote(1) by (simp add: net_ok_def)
  next
    case (snapshot d x pt conns p q)
    then show ?thesis using assms(3) send(2) by (auto simp: snapshotToSend_def whole_def split: if_splits)
  qed (simp_all add: net_ok_def)
  then show ?thesis using send(1) assms(2) by (auto simp: net_ok_def)
qed (use assms(2) in \<open>simp_all add: stepNode_def\<close>)

lemma castVote_other: "k \<noteq> i \<Longrightarrow> castVote i t v V k = V k"
  by (simp add: castVote_def)

text \<open>A step that casts the votes that turn \<open>V\<close> into \<open>V'\<close> keeps the disk of every node consistent with them.\<close>

lemma disk_ok_step:
  assumes step: "cstep M c c'" "cluster_inv M V L c" "net_ok (net c)" "healthy ms us M c"
    and V': "L \<subseteq> L'" "voted M V V' c c'" "cluster_inv M V' L' c'"
    and k: "k \<in> M" "disk_ok ms us V L k (nodes c k)" "healthy_node ms us (nodes c' k)"
  shows "disk_ok ms us V' L' k (nodes c' k)"
proof -
  have "local_ok M V L k (nodes c k)" "local_ok M V' L' k (nodes c' k)"
    using step(2) V'(3) k(1) unfolding cluster_inv_def by blast+
  then have loc: "plain_log (log (nodes c k))" "local_ok M V' L' k (nodes c' k)"
    by (simp_all add: local_ok_def steady_node_def)
  have pos: "\<forall>q. ev = Rpc (requestVoteMsg q) \<longrightarrow> 0 < rvTerm q" if "\<forall>m. ev = Rpc m \<longrightarrow> (k, m) \<in> net c" for ev
    using that step(3) by (fastforce simp: net_ok_def)
  have h: "healthy_node ms us (nodes c k)" using step(4) k(1) by (simp add: healthy_def)
  have ev: "disk_ok ms us V' L' k (nodes c' k)"
    if e: "nodes c' k = handleEvent ev (nodes c k)" "storable ms us ev" "\<forall>m. ev = Rpc m \<longrightarrow> (k, m) \<in> net c"
      "V' k = V k \<or> casts ev (nodes c k) \<and> V' = castVote k (currentTerm (nodes c' k)) (votedFor (nodes c' k)) V" for ev
    using disk_ok_event [OF k(2) h k(3) [unfolded e(1)] loc(1) loc(2) [unfolded e(1)] e(2) pos [OF e(3)] V'(1)] e(4)
    unfolding e(1) by blast
  show ?thesis
  proof (cases "V' k = V k")
    case True
    consider "nodes c' k = nodes c k" | "adjusts (nodes c k) (nodes c' k)"
      | ev where "nodes c' k = handleEvent ev (nodes c k)" "storable ms us ev" "\<forall>m. ev = Rpc m \<longrightarrow> (k, m) \<in> net c"
      using cstep_node [OF step k(1)] by blast
    then show ?thesis
    proof cases
      case 1
      with True k(3) V'(1) show ?thesis by (intro disk_ok_same [where V' = V', OF k(2)]) auto
    next
      case 2
      then show ?thesis using disk_ok_adjusts [where V' = V' and L' = L'] k(2,3) True V'(1) by blast
    next
      case 3
      with ev True show ?thesis by blast
    qed
  next
    case False
    then obtain ev where e: "nodes c' k = handleEvent ev (nodes c k)" "casts ev (nodes c k)"
      "\<forall>m. ev = Rpc m \<longrightarrow> (k, m) \<in> net c" "V' = castVote k (currentTerm (nodes c' k)) (votedFor (nodes c' k)) V"
      using V'(2) unfolding voted_def by (metis castVote_other)
    then have "storable ms us ev" using casts_term(2) [OF e(2) _ pos] k(2) by (simp add: disk_ok_def)
    then show ?thesis using ev e by blast
  qed
qed

lemma restart_inv_step:
  assumes "cstep M c c'" "restart_inv ms us M V L c" "healthy ms us M c" "healthy ms us M c'"
  shows "\<exists>V' L'. L \<subseteq> L' \<and> restart_inv ms us M V' L' c'"
proof -
  have inv: "cluster_inv M V L c" "net_ok (net c)" "\<forall>i \<in> M. disk_ok ms us V L i (nodes c i)"
    using assms(2) by (simp_all add: restart_inv_def)
  have hn: "healthy_node ms us (nodes c i)" "healthy_node ms us (nodes c' i)" if "i \<in> M" for i
    using assms(3,4) that by (simp_all add: healthy_def)
  from cstep_voted [OF assms(1) inv(1)] obtain V' L' where
    V': "L \<subseteq> L'" "voted M V V' c c'" "cluster_inv M V' L' c'" by blast
  have "\<forall>k \<in> M. disk_ok ms us V' L' k (nodes c' k)"
    using disk_ok_step [OF assms(1) inv(1,2) assms(3) V'] inv(3) hn(2) by blast
  moreover have "net_ok (net c')"
    using inv hn by (intro net_ok_cstep [OF assms(1)]) (auto simp: healthy_node_def)
  ultimately show ?thesis using V' by (auto simp: restart_inv_def)
qed

text \<open>A restarted node is a follower in the term of its last vote, which it still remembers.\<close>

lemma restarted_eq:
  assumes "restarted M i r r'" "saved ms us r (t, v)" "whole r"
  shows "\<exists>en fs ps dir es. members ps = M - {i} \<and> plain_log es \<and>
    r' = startRun ((freshRaft en fs i ps dir 0 (wal r))
      \<lparr>currentTerm := (if t > 0 then t else 0), votedFor := (if t > 0 then v else []), log := es\<rparr>)"
proof -
  obtain en ps dir r0 where r: "stored_in dir r" "members ps = M - {i}" "unmarshal en = unmarshal (env r)"
    "NewRaft en None (filesAt dir r) i ps dir 0 = Inr r0" "r' = startRun r0"
    using assms(1) by (auto simp: restarted_def)
  obtain recs es where "wal_holds r recs" "replayRecords recs = (t, v, es)" "plain_log es"
    using assms(2) by (auto simp: saved_def)
  moreover from this(3) have "plain_log (filter P es)" for P by (rule plain_log_sub) auto
  ultimately have "r' = startRun ((freshRaft en (filesAt dir r) i ps dir 0 (wal r)) \<lparr>currentTerm := (if t > 0 then t else 0),
      votedFor := (if t > 0 then v else []), log := filter (\<lambda>e. 0 < Index e) es\<rparr>)" "plain_log (filter (\<lambda>e. 0 < Index e) es)"
    using NewRaft_whole [OF r(1) assms(3) _ _ r(3), of recs t v es i ps] r(4,5) by auto
  with r(2) show ?thesis by blast
qed

lemma restart_inv_restart:
  assumes i: "i \<in> M" and inv: "restart_inv ms us M V L c" and h: "healthy ms us M c"
    and r': "restarted M i (nodes c i) r'" "healthy ms us M (stepNode i r' c)"
  shows "restart_inv ms us M V L (stepNode i r' c)"
proof -
  let ?r = "nodes c i"
  have loc: "local_ok M V L i ?r" and w: "whole ?r" and h': "healthy_node ms us r'"
    using inv h i r'(2) by (auto simp: restart_inv_def cluster_inv_def healthy_def healthy_node_def stepNode_def)
  obtain t v where tv: "saved ms us ?r (t, v)" "vote_on_disk V L i t v"
    using inv i by (auto simp: restart_inv_def disk_ok_def)
  from restarted_eq [OF r'(1) tv(1) w] obtain en fs ps dir es where ps: "members ps = M - {i}" "plain_log es"
    and e: "r' = startRun ((freshRaft en fs i ps dir 0 (wal ?r))
      \<lparr>currentTerm := (if t > 0 then t else 0), votedFor := (if t > 0 then v else []), log := es\<rparr>)" by blast
  have r: "currentTerm r' = t" "votedFor r' = v" "wal r' = wal ?r" "asks r' = {}" "raft_id r' = i" "state r' = Follower"
    "log r' = es" "currentConfig r' = Some (ConfigFromPeers ps [] i)"
    using tv(2) by (auto simp: e startRun_def freshRaft_def asks_def vote_on_disk_def)
  have "odd (card M)" using loc by (auto simp: local_ok_def steady_node_def steady_def)
  then have "steady_node M r'"
    using steady_first [OF ps(1) i] r(7,8) ps(2) by (simp add: steady_node_def)
  then have "local_ok M V L i r'"
    using loc tv(2) r by (auto simp: local_ok_def vote_ok_def ballots_ok_def vote_on_disk_def)
  moreover have "disk_ok ms us V L i r'"
  proof -
    have "saved ms us r' (t, v)" using tv(1) h' r(3) by (auto simp: saved_def wal_holds_def healthy_node_def)
    moreover have "0 \<le> t" using tv(2) by (simp add: vote_on_disk_def)
    ultimately show ?thesis using tv(2) r(1,4) unfolding disk_ok_def by auto
  qed
  ultimately show ?thesis
    using inv by (auto simp: restart_inv_def cluster_inv_def stepNode_def)
qed

lemma restart_inv_run:
  assumes "(rstep ms us M)\<^sup>*\<^sup>* c c'" "restart_inv ms us M V L c"
  shows "\<exists>V' L'. L \<subseteq> L' \<and> restart_inv ms us M V' L' c'"
  using assms
proof (induction rule: rtranclp_induct)
  case (step c1 c2)
  then obtain V1 L1 where inv: "L \<subseteq> L1" "restart_inv ms us M V1 L1 c1" by blast
  from step.hyps(2) have "\<exists>V' L'. L1 \<subseteq> L' \<and> restart_inv ms us M V' L' c2"
  proof cases
    case step
    then show ?thesis using restart_inv_step [OF _ inv(2)] by blast
  next
    case (restart i r')
    then show ?thesis using restart_inv_restart [OF _ inv(2)] by blast
  qed
  with inv(1) show ?case by (meson subset_trans)
qed blast

lemma restart_inv_init:
  assumes "cluster_init M c" "healthy ms us M c"
  shows "restart_inv ms us M (\<lambda>_ _. None) {} c"
proof -
  have "disk_ok ms us (\<lambda>_ _. None) {} i (nodes c i)" if "i \<in> M" for i
  proof -
    let ?r = "nodes c i"
    have "first_start M i ?r" using assms(1) that by (simp add: cluster_init_def)
    then obtain en fs ps dir th where r: "?r = startRun (freshRaft en fs i ps dir th (OpenWAL None))"
      by (auto simp: first_start_def NewRaft_blank)
    have "wal_holds ?r []" by (simp add: r startRun_def freshRaft_def wal_holds_def OpenWAL_def)
    moreover have "healthy_node ms us ?r" using assms(2) that by (simp add: healthy_def)
    ultimately have "saved ms us ?r (0, [])"
      unfolding saved_def by (intro conjI exI [of _ "[]"]) (simp_all add: healthy_node_def replayRecords_def)
    then show ?thesis
      by (auto simp: disk_ok_def vote_on_disk_def intro!: exI [of _ 0] exI [of _ "[]"])
        (simp_all add: r startRun_def freshRaft_def asks_def)
  qed
  then show ?thesis using assms(1) cluster_init_inv by (auto simp: restart_inv_def cluster_init_def net_ok_def)
qed

section \<open>Election safety with restarts\<close>

text \<open>
  C4. Election safety with crashes: in every run in which, besides the steps of the cluster,
  any node may crash at any time and be started again from its files, no term ever has two
  leaders. The term of a node may go back in a restart (a term that it adopted from a
  message is not on disk), but never behind a vote that it has given.
\<close>

theorem election_safety_restarts:
  assumes "cluster_init M c0" "healthy ms us M c0"
    and "(rstep ms us M)\<^sup>*\<^sup>* c0 c" "(rstep ms us M)\<^sup>*\<^sup>* c c'" "i \<in> M" "j \<in> M"
    and "state (nodes c i) = Leader" "state (nodes c' j) = Leader" "currentTerm (nodes c i) = currentTerm (nodes c' j)"
  shows "i = j"
proof -
  from restart_inv_run [OF assms(3) restart_inv_init [OF assms(1,2)]] obtain V L
    where c: "restart_inv ms us M V L c" by blast
  from restart_inv_run [OF assms(4) c] obtain V' L' where c': "L \<subseteq> L'" "restart_inv ms us M V' L' c'" by blast
  have "(currentTerm (nodes c i), i) \<in> L"
    using c assms(5,7) by (simp add: restart_inv_def cluster_inv_def local_ok_def)
  then have "(currentTerm (nodes c i), i) \<in> L'" using c'(1) by blast
  moreover have "(currentTerm (nodes c i), j) \<in> L'"
    using c'(2) assms(6,8,9) by (simp add: restart_inv_def cluster_inv_def local_ok_def)
  moreover have "glob_ok M V' L'" using c'(2) by (simp add: restart_inv_def cluster_inv_def)
  ultimately show ?thesis by (intro leader_history_unique)
qed

section \<open>A run with a restart\<close>

text \<open>The run of theory \<open>Cluster\<close>, after which the node that voted crashes and comes back.\<close>

abbreviation (input) demo_saved :: "raft \<Rightarrow> int \<times> string \<Rightarrow> bool" where
  "demo_saved \<equiv> saved demo_marshal demo_unmarshal"

abbreviation (input) demo_healthy :: "raft \<Rightarrow> bool" where
  "demo_healthy \<equiv> healthy_node demo_marshal demo_unmarshal"

lemma demo_start_saved: "demo_saved (demo_start i) (0, [])" "whole (demo_start i)" "log (demo_start i) = []"
proof -
  have "wal_holds (demo_start i) []"
    by (simp add: demo_start_def startRun_def freshRaft_def wal_holds_def OpenWAL_def)
  then show "demo_saved (demo_start i) (0, [])"
    unfolding saved_def by (intro conjI exI [of _ "[]"])
      (simp_all add: demo_start_def startRun_def freshRaft_def quiet_def demo_env_def replayRecords_def)
  show "whole (demo_start i)" "log (demo_start i) = []"
    by (simp_all add: demo_start_def startRun_def freshRaft_def whole_def LoadSnapshot_def)
qed

lemma demo_fits:
  "0 \<le> currentTerm r \<Longrightarrow> currentTerm r < 1000 \<Longrightarrow> length (votedFor r) < 1000 \<Longrightarrow> fitting_state demo_marshal demo_unmarshal r"
  "0 \<le> Index e \<Longrightarrow> Index e < 1000 \<Longrightarrow> 0 \<le> Term e \<Longrightarrow> Term e < 1000 \<Longrightarrow> length (Command e) < 1000 \<Longrightarrow>
     fitting demo_marshal demo_unmarshal e"
  by (simp_all add: fitting_state_def fitting_def demo_codec_ok demo_small_def)

lemma demo_event:
  fixes r ev
  defines "r' \<equiv> handleEvent ev r"
  assumes "demo_saved r p" "whole r" "plain_log (log r)" "storable demo_marshal demo_unmarshal ev" "whole r'"
    and "fitting_state demo_marshal demo_unmarshal r'" "\<forall>e \<in> set (log r'). fitting demo_marshal demo_unmarshal e"
  shows "demo_saved r' (if casts ev r then (currentTerm r', votedFor r') else p)" "demo_healthy r'"
proof -
  show s: "demo_saved r' (if casts ev r then (currentTerm r', votedFor r') else p)"
    using disk_event [OF assms(2-5)] assms(7,8) unfolding r'_def to_disk_def by blast
  then show "demo_healthy r'"
    using assms(6-8) by (auto simp: healthy_node_def saved_def wal_holds_def)
qed

lemma whole_cong:
  "lastIncludedIndex r' = lastIncludedIndex r \<Longrightarrow> lastIncludedTerm r' = lastIncludedTerm r \<Longrightarrow>
   snapshotThreshold r' = snapshotThreshold r \<Longrightarrow> disk r' = disk r \<Longrightarrow> snapshotPath r' = snapshotPath r \<Longrightarrow> whole r' = whole r"
  by (simp add: whole_def)

lemma demo_asking_healthy:
  "whole demo_asking" "log demo_asking = []" "demo_saved demo_asking (0, [])" "demo_healthy demo_asking"
proof -
  have e: "effectivePeers ((demo_start ''n1'')\<lparr>electionTimer := x, preVoteVotesReceived := y\<rparr>) \<noteq> []" for x y
    by (simp add: effectivePeers_def demo_start_def startRun_def freshRaft_def ConfigFromPeers_def copyMap_def)
  have f: "state (demo_start ''n1'') = Follower" "\<not> isJoining (demo_start ''n1'')"
    by (simp_all add: demo_start_def startRun_def freshRaft_def)
  have a: "still (demo_start ''n1'') demo_asking" "votedFor demo_asking = votedFor (demo_start ''n1'')"
    using e f by (auto simp: demo_asking_def electionTimerFired_def startPreVote_def resetElectionTimer_def emit_def Let_def still_def asks_def)
  show w: "whole demo_asking" using a(1) demo_start_saved(2) by (simp add: still_def whole_def)
  show l: "log demo_asking = []" using a(1) demo_start_saved(3) by (simp add: still_def)
  have v: "votedFor (demo_start ''n1'') = []" by (simp add: demo_start_def startRun_def freshRaft_def)
  have "\<not> casts Timer (demo_start ''n1'')"
    using e [of "preVoteVotesReceived (demo_start ''n1'')" "electionTimer (demo_start ''n1'')"] by simp
  with demo_event [OF demo_start_saved(1,2), of "''n1''" Timer, folded demo_asking_def] w l a(2) v demo_start_facts(5)
  show "demo_saved demo_asking (0, [])" "demo_healthy demo_asking"
    by (simp_all add: demo_start_saved(3) storable_def demo_asking_def [symmetric] demo_fits del: casts.simps)
qed

lemma demo_candidate_healthy:
  "whole demo_candidate" "log demo_candidate = []" "demo_saved demo_candidate (1, ''n1'')" "demo_healthy demo_candidate"
proof -
  let ?a = "demo_asking\<lparr>preVoteVotesReceived := [(''n1'', True), (''n2'', True)]\<rparr>" and ?ev = "Rpc (preVoteRespMsg ''n2'' demo_yes)"
  have "effectivePeers (asCandidate ?a) = effectivePeers demo_asking"
    using demo_start_facts(6) by (simp add: effectivePeers_def)
  then have "effectivePeers (asCandidate ?a) \<noteq> []" using demo_start_facts(8) by auto
  then have c: "still (asCandidate ?a) (demo_candidate\<lparr>outbox := []\<rparr>)" "votedFor demo_candidate = ''n1''"
    using demo_start_facts(2)
    by (auto simp: demo_candidate_eq transitionToCandidate_eq startElection_def still_def emit_def Let_def)
  have s: "still ?a (asCandidate ?a)" by (rule still_candidate)
  show w: "whole demo_candidate" using c(1) s demo_asking_healthy(1) by (simp add: still_def whole_def)
  show l: "log demo_candidate = []" using c(1) s demo_asking_healthy(2) by (simp add: still_def)
  have k: "casts ?ev demo_asking"
    using demo_start_facts(2,4,6,7) demo_majority
    by (simp add: demo_yes_def voteMajority_config del: HasMajority.simps)
  have "handleEvent ?ev demo_asking = demo_candidate" by (simp add: demo_candidate_def)
  with demo_event [OF demo_asking_healthy(3,1), of ?ev] w l c(2) k demo_candidate_facts(3)
  show "demo_saved demo_candidate (1, ''n1'')" "demo_healthy demo_candidate"
    by (simp_all add: demo_asking_healthy(2) storable_def demo_fits del: casts.simps handleEvent.simps)
qed

lemma demo_leader_healthy: "demo_healthy demo_leader"
proof -
  let ?a = "demo_candidate\<lparr>votesReceived := [(''n1'', True), (''n2'', True)]\<rparr>" and ?ev = "Rpc (voteRespMsg ''n2'' demo_yes)"
  have l: "demo_leader = transitionToLeader ?a"
    using demo_candidate_facts demo_start_facts(6) demo_majority
    by (simp add: demo_leader_def processRequestVoteResponse_def demo_yes_def Let_def voteMajority_config del: HasMajority.simps)
  have "votedFor demo_leader = votedFor demo_candidate" "lastIncludedIndex demo_leader = lastIncludedIndex demo_candidate"
    "lastIncludedTerm demo_leader = lastIncludedTerm demo_candidate" "disk demo_leader = disk demo_candidate"
    "snapshotThreshold demo_leader = snapshotThreshold demo_candidate" "snapshotPath demo_leader = snapshotPath demo_candidate"
    "log demo_leader = log demo_candidate @ [\<lparr>Index = lastLogIndex demo_candidate + 1, Term = currentTerm demo_candidate,
       Command = json_print (jsonEnvelope EntryNoop None None)\<rparr>]"
    using demo_candidate_facts(2)
    by (simp_all add: l transitionToLeader_def EncodeNoopEntry_def node_defs Let_def lastLogIndex_def split: option.split)
  note f = this
  have w: "whole demo_leader" using demo_candidate_healthy(1) f by (simp add: whole_def)
  have "length (json_print (jsonEnvelope EntryNoop None None)) < 1000" by code_simp
  moreover have "lastLogIndex demo_candidate = 0"
    using demo_candidate_healthy(1,2) by (simp add: lastLogIndex_def whole_def)
  ultimately have g: "\<forall>e \<in> set (log demo_leader). fitting demo_marshal demo_unmarshal e"
    using f(7) demo_candidate_facts(3) demo_candidate_healthy(2) by (simp add: demo_fits)
  have "votedFor demo_candidate = ''n1''" using demo_start_facts(2) by (simp add: demo_candidate_eq transitionToCandidate_eq)
  then have "fitting_state demo_marshal demo_unmarshal demo_leader"
    using f(1) demo_leader_facts(2) by (intro demo_fits) simp_all
  moreover have "handleEvent ?ev demo_candidate = demo_leader" by (simp add: demo_leader_def)
  ultimately show ?thesis
    using demo_event(2) [OF demo_candidate_healthy(3,1), of ?ev] w g
    by (simp add: demo_candidate_healthy(2) storable_def del: handleEvent.simps)
qed

lemma demo_voter_healthy:
  "whole demo_voter" "demo_saved demo_voter (1, ''n1'')" "demo_healthy demo_voter" "stored_in ''d'' demo_voter"
  "wal_holds demo_voter [WALRecord_State \<lparr>smTerm = 1, smVotedFor = ''n1''\<rparr>]"
proof -
  let ?s = "demo_start ''n2''" and ?ev = "Rpc (requestVoteMsg demo_req)"
  have g: "grants demo_req ?s" by code_simp
  have t: "currentTerm ?s = 0" "rvTerm demo_req = 1" "CandidateId demo_req = ''n1''"
    by (simp_all add: demo_start_def startRun_def freshRaft_def demo_req_def)
  define s where "s = resetElectionTimer ((transitionToFollower 1 ?s)\<lparr>votedFor := ''n1''\<rparr>)"
  have v: "demo_voter = fst (walState s)"
    using processRequestVote_granted [OF g] t by (simp add: demo_voter_def s_def)
  have s: "wal s = OpenWAL None" "env s = demo_env" "currentTerm s = 1" "votedFor s = ''n1''"
    by (simp_all add: s_def resetElectionTimer_def) (simp_all add: demo_start_def startRun_def freshRaft_def)
  have "wal_holds s []" "quiet s" "can_store s (WALRecord_State \<lparr>smTerm = 1, smVotedFor = ''n1''\<rparr>)"
    by (simp_all add: s wal_holds_def quiet_def demo_env_def OpenWAL_def demo_codec_ok demo_small_def)
  from wal_holds_write(1) [OF this] show "wal_holds demo_voter [WALRecord_State \<lparr>smTerm = 1, smVotedFor = ''n1''\<rparr>]"
    by (simp add: v walState_def AppendState_def s)
  have f: "currentTerm demo_voter = 1" "votedFor demo_voter = ''n1''" "log demo_voter = []"
    "still ?s (demo_voter\<lparr>outbox := outbox ?s\<rparr>)"
    by (auto simp: v s_def demo_start_saved(3) walState_def wroteWal_def resetElectionTimer_def still_def asks_def
        transitionToFollower_def emit_def Let_def)
  show w: "whole demo_voter" using f(4) demo_start_saved(2) by (simp add: still_def whole_def)
  show "stored_in ''d'' demo_voter"
    using f(4) by (simp add: still_def stored_in_def) (simp add: demo_start_def startRun_def freshRaft_def)
  have "casts ?ev ?s" using processRequestVote_granted [OF g] by simp
  moreover have "handleEvent ?ev ?s = demo_voter" by (simp add: demo_voter_def)
  ultimately show "demo_saved demo_voter (1, ''n1'')" "demo_healthy demo_voter"
    using demo_event [OF demo_start_saved(1,2), of "''n2''" ?ev] w f(1-3)
    by (simp_all add: demo_start_saved(3) storable_def demo_fits del: casts.simps handleEvent.simps)
qed

text \<open>The voter on its files.\<close>

lemma demo_voter_restarts:
  "\<exists>r'. restarted demo_members ''n2'' demo_voter r' \<and> demo_healthy r' \<and> currentTerm r' = 1 \<and> votedFor r' = ''n1''"
proof -
  let ?ps = "[(''n1'', ''h:1''), (''n3'', ''h:3'')]"
  let ?recs = "[WALRecord_State \<lparr>smTerm = 1, smVotedFor = ''n1''\<rparr>]"
  have recs: "wal_holds demo_voter ?recs" "replayRecords ?recs = (1, ''n1'', [])"
    using demo_voter_healthy(5) by (simp_all add: replayRecords_def)
  have u: "unmarshal demo_env = unmarshal (env demo_voter)"
    using demo_voter_healthy(3) by (simp add: healthy_node_def demo_env_def)
  note n = NewRaft_whole [OF demo_voter_healthy(4,1) recs(1,2) u, of "''n2''" ?ps]
  let ?r = "startRun ((freshRaft demo_env (filesAt ''d'' demo_voter) ''n2'' ?ps ''d'' 0 (wal demo_voter))
    \<lparr>currentTerm := 1, votedFor := ''n1'', log := []\<rparr>)"
  have "members ?ps = demo_members - {''n2''}" by (auto simp: members_def demo_members_def)
  then have "restarted demo_members ''n2'' demo_voter ?r"
    unfolding restarted_def using n u demo_voter_healthy(4)
    by (intro exI [of _ demo_env] exI [of _ ?ps] exI [of _ "''d''"]) auto
  moreover have "demo_healthy ?r"
  proof -
    have "isOpen (wal demo_voter)" using demo_voter_healthy(3) by (simp add: healthy_node_def)
    moreover have "LoadSnapshot (filesAt ''d'' demo_voter) (''d'' @ ''/snapshot.json'') = Inr None"
      using LoadSnapshot_filesAt [OF demo_voter_healthy(4)] demo_voter_healthy(1,4) by (simp add: stored_in_def whole_def)
    ultimately show ?thesis
      by (simp add: healthy_node_def startRun_def freshRaft_def quiet_def demo_env_def whole_def demo_fits)
  qed
  ultimately show ?thesis by (intro exI [of _ ?r]) (simp add: startRun_def)
qed

lemma demo_start_healthy: "demo_healthy (demo_start i)"
proof -
  have "currentTerm (demo_start i) = 0" "votedFor (demo_start i) = []"
    by (simp_all add: demo_start_def startRun_def freshRaft_def)
  then show ?thesis
    using demo_start_saved [of i] by (auto simp: healthy_node_def saved_def wal_holds_def intro!: demo_fits)
qed

lemma demo_cluster_healthy:
  "demo_healthy a \<Longrightarrow> demo_healthy b \<Longrightarrow> \<forall>p q. (p, appendEntriesMsg q) \<notin> set ps \<Longrightarrow>
   healthy demo_marshal demo_unmarshal demo_members (demo_cluster a b ps)"
  using demo_start_healthy by (auto simp: healthy_def demo_cluster_def)

lemmas demo_all_healthy = demo_cluster_healthy [OF demo_start_healthy demo_start_healthy]
  demo_cluster_healthy [OF demo_asking_healthy(4) demo_start_healthy]
  demo_cluster_healthy [OF demo_candidate_healthy(4) demo_start_healthy]
  demo_cluster_healthy [OF demo_candidate_healthy(4) demo_voter_healthy(3)]
  demo_cluster_healthy [OF demo_leader_healthy demo_voter_healthy(3)]

lemma demo_rsteps:
  "rstep demo_marshal demo_unmarshal demo_members (demo_cluster (demo_start ''n1'') (demo_start ''n2'') []) (demo_cluster demo_asking (demo_start ''n2'') [])"
  "rstep demo_marshal demo_unmarshal demo_members (demo_cluster demo_asking (demo_start ''n2'') []) (demo_cluster demo_asking (demo_start ''n2'') [(''n2'', preVoteReqMsg demo_req)])"
  "rstep demo_marshal demo_unmarshal demo_members (demo_cluster demo_asking (demo_start ''n2'') [(''n2'', preVoteReqMsg demo_req)])
      (demo_cluster demo_asking (demo_start ''n2'') [(''n2'', preVoteReqMsg demo_req), (''n1'', preVoteRespMsg ''n2'' demo_yes)])"
  "rstep demo_marshal demo_unmarshal demo_members (demo_cluster demo_asking (demo_start ''n2'') [(''n2'', preVoteReqMsg demo_req), (''n1'', preVoteRespMsg ''n2'' demo_yes)])
      (demo_cluster demo_candidate (demo_start ''n2'') [(''n2'', preVoteReqMsg demo_req), (''n1'', preVoteRespMsg ''n2'' demo_yes)])"
  "rstep demo_marshal demo_unmarshal demo_members (demo_cluster demo_candidate (demo_start ''n2'') [(''n2'', preVoteReqMsg demo_req), (''n1'', preVoteRespMsg ''n2'' demo_yes)])
      (demo_cluster demo_candidate (demo_start ''n2'') demo_net)"
  "rstep demo_marshal demo_unmarshal demo_members (demo_cluster demo_candidate (demo_start ''n2'') demo_net)
      (demo_cluster demo_candidate demo_voter (demo_net @ [(''n1'', voteRespMsg ''n2'' demo_yes)]))"
  "rstep demo_marshal demo_unmarshal demo_members (demo_cluster demo_candidate demo_voter (demo_net @ [(''n1'', voteRespMsg ''n2'' demo_yes)]))
      (demo_cluster demo_leader demo_voter (demo_net @ [(''n1'', voteRespMsg ''n2'' demo_yes)]))"
  by (rule rstep.step [OF _ demo_steps(1)] rstep.step [OF _ demo_steps(2)] rstep.step [OF _ demo_steps(3)] rstep.step [OF _ demo_steps(4)]
    rstep.step [OF _ demo_steps(5)] rstep.step [OF _ demo_steps(6)] rstep.step [OF _ demo_steps(7)], (rule demo_all_healthy, simp)+)+

lemma demo_restart_run:
  "\<exists>r'. (rstep demo_marshal demo_unmarshal demo_members)\<^sup>*\<^sup>* (demo_cluster (demo_start ''n1'') (demo_start ''n2'') [])
     (demo_cluster demo_leader r' (demo_net @ [(''n1'', voteRespMsg ''n2'' demo_yes)])) \<and> currentTerm r' = 1 \<and> votedFor r' = ''n1''"
proof -
  let ?R = "rstep demo_marshal demo_unmarshal demo_members" and ?ps = "demo_net @ [(''n1'', voteRespMsg ''n2'' demo_yes)]"
  obtain r' where r': "restarted demo_members ''n2'' demo_voter r'" "demo_healthy r'" "currentTerm r' = 1" "votedFor r' = ''n1''"
    using demo_voter_restarts by blast
  have "?R\<^sup>*\<^sup>* (demo_cluster (demo_start ''n1'') (demo_start ''n2'') []) (demo_cluster demo_leader demo_voter ?ps)"
    using demo_rsteps by (meson rtranclp.rtrancl_refl rtranclp.rtrancl_into_rtrancl)
  moreover have "?R (demo_cluster demo_leader demo_voter ?ps) (demo_cluster demo_leader r' ?ps)"
  proof -
    have e: "demo_cluster demo_leader r' ?ps = stepNode ''n2'' r' (demo_cluster demo_leader demo_voter ?ps)"
      by (simp add: demo_cluster_def stepNode_def)
    show ?thesis unfolding e
      using r' demo_cluster_healthy [OF demo_leader_healthy r'(2), of ?ps] demo_all_healthy(5) [of ?ps] e
      by (intro rstep.restart) (auto simp: demo_members_def demo_cluster_def)
  qed
  ultimately show ?thesis using r'(3,4) by (meson rtranclp.rtrancl_into_rtrancl)
qed

theorem election_safety_restarts_witness:
  "\<exists>c. (rstep demo_marshal demo_unmarshal demo_members)\<^sup>*\<^sup>* (demo_cluster (demo_start ''n1'') (demo_start ''n2'') []) c \<and>
     votedFor (nodes c ''n2'') = ''n1'' \<and>
     {j \<in> demo_members. state (nodes c j) = Leader \<and> currentTerm (nodes c j) = 1} = {''n1''}"
proof -
  obtain r' where r': "votedFor r' = ''n1''"
    and run: "(rstep demo_marshal demo_unmarshal demo_members)\<^sup>*\<^sup>* (demo_cluster (demo_start ''n1'') (demo_start ''n2'') [])
     (demo_cluster demo_leader r' (demo_net @ [(''n1'', voteRespMsg ''n2'' demo_yes)]))" using demo_restart_run by blast
  let ?c = "demo_cluster demo_leader r' (demo_net @ [(''n1'', voteRespMsg ''n2'' demo_yes)])"
  have l: "state (nodes ?c ''n1'') = Leader" "currentTerm (nodes ?c ''n1'') = 1" "''n1'' \<in> demo_members"
    using demo_leader_facts by (simp_all add: demo_cluster_def demo_members_def)
  have h: "healthy demo_marshal demo_unmarshal demo_members (demo_cluster (demo_start ''n1'') (demo_start ''n2'') [])"
    by (rule demo_all_healthy) simp
  have "''n1'' = j" if "j \<in> demo_members" "state (nodes ?c j) = Leader" "currentTerm (nodes ?c j) = 1" for j
    using election_safety_restarts [OF demo_init h run rtranclp.rtrancl_refl l(3) that(1) l(1) that(2)] l(2) that(3) by simp
  with l have "{j \<in> demo_members. state (nodes ?c j) = Leader \<and> currentTerm (nodes ?c j) = 1} = {''n1''}" by blast
  moreover have "votedFor (nodes ?c ''n2'') = ''n1''" using r' by (simp add: demo_cluster_def)
  ultimately show ?thesis using run by blast
qed

section \<open>A deposed leader\<close>

lemma appendOne_replaces:
  assumes "wf_log r" "p \<le> length (log r)" "Index e = lastIncludedIndex r + 1 + int p"
    and "p < length (log r) \<longrightarrow> Term (log r ! p) \<noteq> Term e"
  shows "log (appendOne r e) = take p (log r) @ [e]"
proof (cases "p < length (log r)")
  case True
  then have "drop p (log r) = log r ! p # drop (Suc p) (log r)" by (rule Cons_nth_drop_Suc [symmetric])
  with True assms(4) show ?thesis using appendOne_log [OF assms(1-3)] by simp
qed (use appendOne_log [OF assms(1-3)] in simp)

lemma append_single:
  assumes "wf_log r" "whole r" "follows q r" "prevMatches q r" "Entries q = [e]" "p \<le> length (log r)" "Index e = 1 + int p"
    and "p < length (log r) \<longrightarrow> Term (log r ! p) \<noteq> Term e"
  defines "r' \<equiv> fst (processAppendEntries q r)" and "f \<equiv> followLeader (aeTerm q) (aeLeaderId q) r"
  shows "Success (snd (processAppendEntries q r))" "log r' = take p (log r) @ [e]" "whole r'" "currentTerm r' = aeTerm q"
    "wal r' = wal (appendOne f e)" "env r' = env (appendOne f e)" "snapshotPath r' = snapshotPath r"
proof -
  have f: "wf_log f" "log f = log r" "lastIncludedIndex f = 0" "currentTerm f = aeTerm q" "state f \<noteq> Leader"
    using assms(1-3) by (auto simp: f_def wf_log_def whole_def follows_def followLeader_state)
  have a: "appended q r = appendOne f e" by (simp add: appended_def assms(5) f_def)
  have p: "processAppendEntries q r = (r', \<lparr>aerTerm = currentTerm r', Success = True, MatchIndex = lastLogIndex r'\<rparr>)"
    "r' = advanceCommit (LeaderCommit q) (appendOne f e)"
    using assms(3,4) by (simp_all add: r'_def processAppendEntries_match follows_def Let_def a)
  show "Success (snd (processAppendEntries q r))" by (simp add: p(1))
  have "state (appendOne f e) \<noteq> Leader" "snapshotThreshold (appendOne f e) \<le> 0"
    using f(5) assms(2) by (simp_all add: whole_def f_def)
  note c = advanceCommit_follower [OF this, of "LeaderCommit q", folded p(2)]
  show "wal r' = wal (appendOne f e)" "env r' = env (appendOne f e)" "snapshotPath r' = snapshotPath r"
    using c by (simp_all add: f_def)
  show "log r' = take p (log r) @ [e]"
    using appendOne_replaces [OF f(1), of p e] assms(6-8) c(1) f(2,3) by simp
  show "currentTerm r' = aeTerm q" using f(4) by (simp add: p(2))
  have "snapshotThreshold r' = snapshotThreshold r"
    unfolding p(2) advanceCommit_def applyLogs_def compact_def using assms(2) by (auto simp: whole_def f_def)
  then show "whole r'" using assms(2) c by (simp add: whole_def f_def)
qed

lemma append_single_wal:
  assumes "wf_log r" "whole r" "wal_holds r recs" "quiet r" "Index e = lastLogIndex r + 1" "can_store r (WALRecord_Entry e)"
  shows "wal_holds (appendOne (followLeader t l r) e) (recs @ [WALRecord_Entry e])"
proof -
  let ?f = "followLeader t l r"
  let ?g = "?f\<lparr>log := log ?f @ [e]\<rparr>"
  have "appendOne ?f e = fst (appendLog e ?f)"
    using assms(1,2,5) by (simp add: appendOne_def lastLogIndex_eq whole_def)
  moreover have "wal_holds ?g recs" "quiet ?g" "can_store ?g (WALRecord_Entry e)"
    using assms(3,4,6) wal_holds_cong [of ?g r] by simp_all
  note wal_holds_write(1) [OF this]
  ultimately show ?thesis by (simp add: appendLog_def walEntry_def AppendEntry_def)
qed

lemma whole_prev:
  assumes "whole r" "log r = xs @ ys" "PrevLogIndex q = int (length xs)" "wf_log r"
  shows "prevMatches q r \<longleftrightarrow> PrevLogTerm q = lastTerm xs"
proof -
  have "getEntryTerm r (int (length xs)) = lastTerm xs" using whole_getEntryTerm [OF assms(1), of "length xs"] assms(2) by simp
  moreover have "lastLogIndex r = int (length (log r))" using lastLogIndex_eq [OF assms(4)] assms(1) by (simp add: whole_def)
  ultimately show ?thesis using assms by (auto simp: prevMatches_def whole_def)
qed

text \<open>
  C36. A restarted node obeys a leader that it had turned away. A follower accepts the entry
  of a leader, acknowledges it and has it on disk; from then on it refuses the requests of
  every older leader. The newer term itself is only in memory. After a crash the node comes
  up in the term of its last vote, accepts the request of an older leader for the same
  index, acknowledges it, and the entry that it had acknowledged first is gone.
\<close>

theorem restart_obeys_deposed_leader:
  assumes "wf_log r" "whole r" "quiet r" "stored_in dir r" "wal_holds r recs" "replayRecords recs = (t, v, log r)" "0 \<le> t"
    and new: "follows q r" "prevMatches q r" "PrevLogIndex q = lastLogIndex r" "Entries q = [e]" "Index e = lastLogIndex r + 1"
      "codec_ok (marshal (env r)) (unmarshal (env r)) (WALRecord_Entry e)"
    and old: "t \<le> aeTerm q'" "aeTerm q' < aeTerm q" "PrevLogIndex q' = PrevLogIndex q" "PrevLogTerm q' = PrevLogTerm q"
      "Entries q' = [e']" "Index e' = Index e" "Term e' \<noteq> Term e"
  shows "let (r1, resp1) = processAppendEntries q r
    in Success resp1 \<and> log r1 = log r @ [e] \<and> \<not> Success (snd (processAppendEntries q' r1)) \<and>
      (\<exists>r2. NewRaft (env r1) None (filesAt dir r1) nid ps dir 0 = Inr r2 \<and> log r2 = log r @ [e] \<and>
        Success (snd (processAppendEntries q' r2)) \<and> log (fst (processAppendEntries q' r2)) = log r @ [e'])"
proof -
  let ?n = "length (log r)" and ?f = "followLeader (aeTerm q) (aeLeaderId q) r"
  have last: "lastLogIndex r = int ?n" using lastLogIndex_eq [OF assms(1)] assms(2) by (simp add: whole_def)
  define r1 where "r1 = fst (processAppendEntries q r)"
  have "Index e = 1 + int ?n" using new(5) last by simp
  note s = append_single [OF assms(1,2) new(1,2,4) order_refl this, folded r1_def, simplified]
  have refused: "\<not> Success (snd (processAppendEntries q' r1))"
    using old(2) s(4) by (simp add: processAppendEntries_def)
  have wf1: "wf_log r1" using assms(1,2) s(2,3) new(5) last by (simp add: wf_log_def whole_def contiguous_append)
  have "wal_holds r1 (recs @ [WALRecord_Entry e])"
    using append_single_wal [OF assms(1,2,5,3) new(5,6)] wal_holds_cong(1) [OF s(5,6)] by simp
  moreover have "replayRecords (recs @ [WALRecord_Entry e]) = (t, v, log r @ [e])"
    using assms(1,2) new(5) last by (simp add: replayRecords_snoc assms(6) placeEntry_next wf_log_def whole_def)
  moreover have "stored_in dir r1" using assms(4) s(7) by (simp add: stored_in_def)
  ultimately obtain r2 where r2: "NewRaft (env r1) None (filesAt dir r1) nid ps dir 0 = Inr r2"
    "r2 = (freshRaft (env r1) (filesAt dir r1) nid ps dir 0 (wal r1))\<lparr>currentTerm := (if t > 0 then t else 0),
       votedFor := (if t > 0 then v else []), log := filter (\<lambda>x. 0 < Index x) (log r @ [e])\<rparr>"
    using NewRaft_whole [OF _ s(3) _ _ refl, of dir] by blast
  have "filter (\<lambda>x. 0 < Index x) (log r1) = log r1"
    using wf1 s(3) contiguous_Index_less [of 0 "log r1"] by (auto simp: wf_log_def whole_def filter_id_conv)
  then have l2: "log r2 = log r @ [e]" by (simp only: r2(2) s(2)) simp
  have w2: "whole r2" "wf_log r2"
    using LoadSnapshot_filesAt [of dir r1] s(3) wf1 l2 s(2) assms(4) s(7)
    by (simp_all add: whole_def wf_log_def stored_in_def r2(2) freshRaft_def)
  have "PrevLogTerm q = lastTerm (log r)" using whole_prev [OF assms(2), of "log r" "[]" q] new(2,3) last assms(1) by simp
  then have "prevMatches q' r2" using whole_prev [OF w2(1) l2 _ w2(2), of q'] old(3,4) new(3) last by simp
  moreover have "follows q' r2" using old(1) assms(7) by (simp add: follows_def r2(2) freshRaft_def)
  moreover have "Index e' = 1 + int ?n" using old(6) new(5) last by simp
  ultimately have "Success (snd (processAppendEntries q' r2))" "log (fst (processAppendEntries q' r2)) = log r @ [e']"
    using append_single(1,2) [OF w2(2,1) _ _ old(5), of ?n] old(7) l2 by auto
  with r2(1) l2 refused s(1,2) show ?thesis by (auto simp: r1_def Let_def split_beta)
qed

text \<open>The leader of term 2 and the deposed leader of term 1 both have an entry for index 1.\<close>

definition demo_newer :: AppendEntriesRequest where
  "demo_newer = \<lparr>aeTerm = 2, aeLeaderId = ''n3'', PrevLogIndex = 0, PrevLogTerm = 0,
     Entries = [\<lparr>Index = 1, Term = 2, Command = ''new''\<rparr>], LeaderCommit = 0\<rparr>"

definition demo_older :: AppendEntriesRequest where
  "demo_older = \<lparr>aeTerm = 1, aeLeaderId = ''n1'', PrevLogIndex = 0, PrevLogTerm = 0,
     Entries = [\<lparr>Index = 1, Term = 1, Command = ''old''\<rparr>], LeaderCommit = 0\<rparr>"

theorem restart_obeys_deposed_leader_witness:
  "\<exists>r2. NewRaft (env (fst (processAppendEntries demo_newer (demo_start ''n2'')))) None
       (filesAt ''d'' (fst (processAppendEntries demo_newer (demo_start ''n2'')))) ''n2'' [] ''d'' 0 = Inr r2 \<and>
     log r2 = [\<lparr>Index = 1, Term = 2, Command = ''new''\<rparr>] \<and>
     log (fst (processAppendEntries demo_older r2)) = [\<lparr>Index = 1, Term = 1, Command = ''old''\<rparr>]"
proof -
  let ?r = "demo_start ''n2''" and ?e = "\<lparr>Index = 1, Term = 2, Command = ''new''\<rparr>" and ?e' = "\<lparr>Index = 1, Term = 1, Command = ''old''\<rparr>"
  have l: "log ?r = []" "lastIncludedIndex ?r = 0" "lastIncludedTerm ?r = 0" "currentTerm ?r = 0" "state ?r = Follower"
    "env ?r = demo_env" "wal_holds ?r []" "stored_in ''d'' ?r"
    by (simp_all add: demo_start_def startRun_def freshRaft_def wal_holds_def OpenWAL_def stored_in_def)
  then have "lastLogIndex ?r = 0" "wf_log ?r" "follows demo_newer ?r" "prevMatches demo_newer ?r"
    by (simp_all add: lastLogIndex_def wf_log_def follows_def prevMatches_def demo_newer_def getEntryTerm_def getEntry_def)
  moreover have "codec_ok (marshal (env ?r)) (unmarshal (env ?r)) (WALRecord_Entry ?e)"
    by (simp add: l(6) demo_env_def demo_codec_ok demo_small_def)
  moreover have "quiet ?r" "replayRecords [] = (0, [], log ?r)" by (simp_all add: l(1,6) quiet_def demo_env_def replayRecords_def)
  ultimately show ?thesis
    using restart_obeys_deposed_leader [of ?r "''d''" "[]" 0 "[]" demo_newer ?e demo_older ?e' "''n2''" "[]"] l demo_start_saved(2)
    by (auto simp: demo_newer_def demo_older_def Let_def split_beta)
qed

end
