(* ===== verification/Safety.thy ===== *)
theory Safety
  imports Tracking
begin

text \<open>
  State machine safety of the cluster: log matching, leader completeness, and that no two
  nodes ever execute different commands at the same place. The cluster is that of theory
  \<open>Cluster\<close>, with log compaction switched off (\<^verbatim>\<open>snapshotThreshold\<close> 0): theory \<open>SnapTransfer\<close>
  shows that a snapshot that arrives late takes a store back, so that with snapshots the
  replicas can differ.
\<close>

section \<open>The cluster follows a history\<close>

definition cluster_hist :: "string set \<Rightarrow> history \<Rightarrow> cluster \<Rightarrow> bool" where
  "cluster_hist M h c \<longleftrightarrow> hist_inv M h \<and> (\<forall>i \<in> M. tracks M h i (nodes c i)) \<and> (\<forall>pk \<in> net c. packet_ok M h pk)"

definition safe :: "string set \<Rightarrow> history \<Rightarrow> leader_history \<Rightarrow> cluster \<Rightarrow> bool" where
  "safe M h L c \<longleftrightarrow> (\<exists>V. cluster_inv M V L c) \<and> cluster_hist M h c \<and> (\<forall>t l. hLead h t = Some l \<longrightarrow> (t, l) \<in> L)"

lemma adjusts_still:
  "adjusts r r' \<Longrightarrow> still r r' \<and> currentTerm r' = currentTerm r \<and> matchIndex r' = matchIndex r \<and>
     (state r' = state r \<and> votesReceived r' = votesReceived r \<or> state r' \<notin> {Leader, Candidate})"
  by (induction rule: adjusts.induct) (auto simp: still_def asks_def adjust_defs split: option.split)

lemma tracks_adjusts: "adjusts r r' \<Longrightarrow> tracks M h i r \<Longrightarrow> tracks M h i r'"
  using adjusts_still tracks_still by blast

text \<open>One node moves, and the history with it.\<close>

lemma safe_node:
  assumes s: "safe M h L c" and i: "i \<in> M" and c': "cstep M c ((stepNode i r' c)\<lparr>net := net c \<union> ps\<rparr>)"
    and sim: "unrivalled h i r' \<Longrightarrow> simulates M h i r' ps"
  shows "\<exists>h' L'. hle h h' \<and> safe M h' L' ((stepNode i r' c)\<lparr>net := net c \<union> ps\<rparr>)"
proof -
  let ?c = "(stepNode i r' c)\<lparr>net := net c \<union> ps\<rparr>"
  from s obtain V where V: "cluster_inv M V L c" and H: "cluster_hist M h c" and lead: "\<And>t l. hLead h t = Some l \<Longrightarrow> (t, l) \<in> L"
    by (auto simp: safe_def)
  from cstep_inv [OF c' V] obtain V' L' where L': "L \<subseteq> L'" "cluster_inv M V' L' ?c" by blast
  then have me: "state r' = Leader \<Longrightarrow> (currentTerm r', i) \<in> L'" and g: "glob_ok M V' L'"
    using i by (auto simp: cluster_inv_def local_ok_def stepNode_def)
  have "unrivalled h i r'"
    using me lead L'(1) leader_history_unique [OF g] unfolding unrivalled_def by (meson subsetD)
  from sim [OF this] obtain h' where h': "(hstep M i)\<^sup>*\<^sup>* h h'" "tracks M h' i r'" "\<forall>pk \<in> ps. packet_ok M h' pk"
    "\<And>T l. hLead h' T = Some l \<Longrightarrow> hLead h T = Some l \<or> l = i \<and> T = currentTerm r' \<and> state r' = Leader"
    unfolding simulates_def by blast
  have inv: "hist_inv M h" using H by (simp add: cluster_hist_def)
  note steps = hsteps_inv [OF h'(1) inv]
  have "tracks M h' k (nodes ?c k)" if "k \<in> M" for k
    using that H h'(2) tracks_other [OF inv, of h' i k "nodes c k"] steps
    by (cases "k = i") (auto simp: cluster_hist_def stepNode_def)
  moreover have "packet_ok M h' pk" if "pk \<in> net ?c" for pk
    using that H h'(3) packet_ok_mono [OF inv, of h' pk] steps by (auto simp: cluster_hist_def)
  moreover have "hLead h' t = Some l \<Longrightarrow> (t, l) \<in> L'" for t l
    using h'(4) [of t l] lead me L'(1) by blast
  ultimately have "safe M h' L' ?c" using L'(2) steps unfolding safe_def cluster_hist_def by blast
  then show ?thesis using steps by blast
qed

lemma safe_event:
  assumes "safe M h L c" "i \<in> M" "cstep M c (stepNode i r' c)" "unrivalled h i r' \<Longrightarrow> simulates M h i r' {}"
  shows "\<exists>h' L'. hle h h' \<and> safe M h' L' (stepNode i r' c)"
  using safe_node [OF assms(1,2), where r' = r' and ps = "{}"] assms(3,4) by (simp add: stepNode_def)

lemma safeD:
  assumes "safe M h L c" "i \<in> M"
  shows "hist_inv M h" "tracks M h i (nodes c i)" "raft_id (nodes c i) = i" "steady_node M (nodes c i)"
    "pk \<in> net c \<Longrightarrow> packet_ok M h pk" "(i, appendEntriesMsg q) \<in> net c \<Longrightarrow> plain_log (Entries q)"
  using assms by (auto simp: safe_def cluster_hist_def cluster_inv_def local_ok_def msg_ok_def)

lemma simulates_rpc:
  assumes s: "safe M h L c" and i: "i \<in> M" and m: "(i, m) \<in> net c" "handleRPC m (nodes c i) = (r', resp)"
    and u: "unrivalled h i r'"
  shows "simulates M h i r' (reply i m resp)"
proof -
  note n = safeD [OF s i]
  note pk = n(5) [OF m(1)]
  show ?thesis
  proof (cases m)
    case (preVoteReqMsg q)
    then show ?thesis using m(2) simulates_still [OF n(2)] by (auto simp: packet_ok_def)
  next
    case (requestVoteMsg q)
    then show ?thesis using m(2) simulates_vote [OF n(1,2), of q] pk by auto
  next
    case (appendEntriesMsg q)
    then show ?thesis
      using m simulates_append [OF n(1,2) steady_plain [OF n(4)] n(6), of q] pk by auto
  next
    case (preVoteRespMsg p a)
    then show ?thesis using m(2) u simulates_prevote_response [OF n(1-3) i n(4)] by auto
  next
    case (voteRespMsg p a)
    then show ?thesis using m(2) u pk simulates_vote_response [OF n(1-4)] by auto
  next
    case (appendRespMsg p a)
    then show ?thesis using m(2) pk simulates_append_response [OF n(1-4)] by auto
  qed (use pk in \<open>simp_all add: packet_ok_def\<close>)
qed

lemma cstep_safe:
  assumes st: "cstep M c c'" and s: "safe M h L c"
  shows "\<exists>h' L'. hle h h' \<and> safe M h' L' c'"
  using st
proof cases
  case (deliver i m r' resp)
  show ?thesis
    using safe_node [OF s deliver(2), where r' = r' and ps = "reply i m resp"] st simulates_rpc [OF s deliver(2,3,5)] deliver(1) by simp
next
  case (timer i)
  note n = safeD [OF s timer(2)]
  show ?thesis
    using safe_event [OF s timer(2)] st timer(1) simulates_timer [OF n(1-3) timer(2) n(4)] by simp
next
  case (heartbeat i)
  note n = safeD [OF s heartbeat(2)]
  have "tracks M h i (handleEvent Heartbeat (nodes c i))"
    by (intro tracks_still [OF n(2)])
      (simp_all add: heartbeatTick_def broadcastHeartbeats_def emit_def still_def asks_def image_iff)
  then show ?thesis using safe_event [OF s heartbeat(2)] st heartbeat(1) simulates_still [of M h i _ "{}"] by simp
next
  case (replicate i p)
  note n = safeD [OF s replicate(2)]
  have "tracks M h i (handleEvent (Replicate p) (nodes c i))"
    by (intro tracks_still [OF n(2)]) (simp_all add: replicateToPeer_def Let_def emit_def still_def asks_def)
  then show ?thesis using safe_event [OF s replicate(2)] st replicate(1) simulates_still [of M h i _ "{}"] by simp
next
  case (command i op key val cid rid cmd ch)
  note n = safeD [OF s command(2)]
  show ?thesis
    using safe_event [OF s command(2)] st command(1) simulates_client [OF n(1-4) plain_proposed [OF command(3,4)]] by simp
next
  case (send i pk)
  note n = safeD [OF s send(2)]
  obtain V where "cluster_inv M V L c" using s by (auto simp: safe_def)
  then have "cluster_inv M V L c'" using send sends_ok [of "nodes c i" "fst pk" "snd pk"] by (auto simp: cluster_inv_def)
  moreover have "packet_ok M h pk" using sends_tracked [OF n(1-3) send(3)] .
  ultimately have "safe M h L c'" using s send(1) by (auto simp: safe_def cluster_hist_def)
  then show ?thesis using hle_refl by blast
next
  case (adjust i r')
  note n = safeD [OF s adjust(2)]
  have "tracks M h i r'" using tracks_adjusts [OF adjust(3) n(2)] .
  then show ?thesis using safe_event [OF s adjust(2)] st adjust(1) simulates_still [of M h i r' "{}"] by simp
qed

lemma run_safe:
  "(cstep M)\<^sup>*\<^sup>* c c' \<Longrightarrow> safe M h L c \<Longrightarrow> \<exists>h' L'. hle h h' \<and> safe M h' L' c'"
proof (induction rule: rtranclp_induct)
  case (step c1 c2)
  then obtain h1 L1 where "hle h h1" "safe M h1 L1 c1" by blast
  with cstep_safe [OF step.hyps(2)] hle_trans show ?case by blast
qed (use hle_refl in blast)

section \<open>The start\<close>

definition no_compaction :: "string set \<Rightarrow> cluster \<Rightarrow> bool" where
  "no_compaction M c \<longleftrightarrow> (\<forall>i \<in> M. snapshotThreshold (nodes c i) \<le> 0)"

definition hist0 :: history where
  "hist0 = \<lparr>hTerm = (\<lambda>_. 0), hLog = (\<lambda>_. []), hCamp = (\<lambda>_ _. None), hVotes = {}, hLead = (\<lambda>_. None),
     hLlog = (\<lambda>_. []), hAck = (\<lambda>_ _. 0)\<rparr>"

lemma hist0_inv: "hist_inv M hist0"
  by (simp add: hist_inv_def hist0_def log_ok_def matched_def numbered_def keeps_def ack_ok_def)

lemma first_start_tracks:
  assumes "first_start M i r" "snapshotThreshold r \<le> 0"
  shows "tracks M hist0 i r"
proof -
  obtain en fs ps dir th where r: "r = startRun (freshRaft en fs i ps dir th (OpenWAL None))" and b: "blank fs dir"
    using assms(1) by (auto simp: first_start_def NewRaft_blank)
  have "LoadSnapshot fs (dir @ ''/snapshot.json'') = Inr None"
    using b by (simp add: blank_def has_key_def LoadSnapshot_def)
  then show ?thesis
    using assms(2)
    by (simp add: r tracks_def startRun_def freshRaft_def hist0_def whole_def applied_def committed_def asks_def
        executed_def applyAll_def List.map_filter_simps)
qed

lemma cluster_init_safe:
  assumes "cluster_init M c" "no_compaction M c"
  shows "safe M hist0 {} c"
  using cluster_init_inv [OF assms(1)] first_start_tracks hist0_inv assms
  by (auto simp: safe_def cluster_hist_def cluster_init_def no_compaction_def hist0_def)

lemma reachable_safe:
  assumes "cluster_init M c0" "no_compaction M c0" "(cstep M)\<^sup>*\<^sup>* c0 c"
  obtains h L where "safe M h L c"
  using run_safe [OF assms(3) cluster_init_safe [OF assms(1,2)]] by blast

text \<open>What two moments of a run have to do with each other.\<close>

lemma reachable_pair:
  assumes "cluster_init M c0" "no_compaction M c0" "(cstep M)\<^sup>*\<^sup>* c0 c" "(cstep M)\<^sup>*\<^sup>* c c'" "i \<in> M"
  obtains h L where "safe M h L c'" "hTerm h i \<ge> currentTerm (nodes c i)"
    "committed M h (currentTerm (nodes c i)) (log (nodes c i)) (nat (commitIndex (nodes c i)))" "applied (nodes c i)"
proof -
  obtain h L where s: "safe M h L c" using reachable_safe [OF assms(1-3)] .
  from run_safe [OF assms(4) s] obtain h' L' where s': "hle h h'" "safe M h' L' c'" by blast
  from safeD(2) [OF s assms(5)] have "committed M h (currentTerm (nodes c i)) (log (nodes c i)) (nat (commitIndex (nodes c i)))"
    "applied (nodes c i)" "currentTerm (nodes c i) = hTerm h i" by (auto simp: tracks_def)
  moreover have "hTerm h i \<le> hTerm h' i" using s'(1) by (simp add: hle_def)
  ultimately show ?thesis using that [OF s'(2)] committed_mono [OF s'(1) _ order_refl] by simp
qed

section \<open>Properties\<close>

text \<open>
  C5. Log matching: in every run of a cluster that does not compact its logs, if the logs of
  two nodes have an entry of the same term at the same place then they are equal up to and
  including that entry.
\<close>

theorem log_matching:
  assumes "cluster_init M c0" "no_compaction M c0" "(cstep M)\<^sup>*\<^sup>* c0 c" "i \<in> M" "j \<in> M"
    and "k < length (log (nodes c i))" "k < length (log (nodes c j))"
    and "Term (log (nodes c i) ! k) = Term (log (nodes c j) ! k)"
  shows "take (Suc k) (log (nodes c i)) = take (Suc k) (log (nodes c j))"
proof -
  obtain h L where s: "safe M h L c" using reachable_safe [OF assms(1-3)] .
  have "matched h (log (nodes c x))" if "x \<in> M" for x
    using safeD(1,2) [OF s that] hist_invD(1) [of M h x] by (simp add: log_ok_def tracks_def)
  with assms(4-8) show ?thesis using matched_agree by blast
qed

text \<open>
  C2. Leader completeness: what a node has committed at some point of a run is at the same
  place in the log of every node that leads the same or a later term from then on.
\<close>

theorem leader_completeness:
  assumes "cluster_init M c0" "no_compaction M c0" "(cstep M)\<^sup>*\<^sup>* c0 c" "(cstep M)\<^sup>*\<^sup>* c c'" "i \<in> M" "j \<in> M"
    and "state (nodes c' j) = Leader" "currentTerm (nodes c i) \<le> currentTerm (nodes c' j)"
  shows "commitIndex (nodes c i) \<le> int (length (log (nodes c' j))) \<and>
    take (nat (commitIndex (nodes c i))) (log (nodes c' j)) = take (nat (commitIndex (nodes c i))) (log (nodes c i))"
proof -
  obtain h L where s: "safe M h L c'" and
    cm: "committed M h (currentTerm (nodes c i)) (log (nodes c i)) (nat (commitIndex (nodes c i)))"
    using reachable_pair [OF assms(1-5)] by metis
  note t = safeD(1,2) [OF s assms(6)]
  from t(2) assms(7) have j: "hLead h (currentTerm (nodes c' j)) = Some j" "log (nodes c' j) = hLlog h (currentTerm (nodes c' j))"
    by (auto simp: tracks_def leads_def)
  from committed_leader [OF t(1) cm assms(8) j(1)] show ?thesis by (simp add: j(2) nat_le_iff)
qed

text \<open>
  C1. State machine safety: whatever two nodes have committed at any two points of a run
  agrees, so that a committed entry is never lost or replaced, and nodes that have applied
  the same number of entries have the same store and the same deduplication table.
\<close>

theorem state_machine_safety:
  assumes "cluster_init M c0" "no_compaction M c0" "(cstep M)\<^sup>*\<^sup>* c0 c" "(cstep M)\<^sup>*\<^sup>* c c'" "i \<in> M" "j \<in> M"
  shows "(let n = nat (min (commitIndex (nodes c i)) (commitIndex (nodes c' j))) in
      n \<le> length (log (nodes c i)) \<and> take n (log (nodes c i)) = take n (log (nodes c' j))) \<and>
    (lastApplied (nodes c i) = lastApplied (nodes c' j) \<longrightarrow>
      kv (nodes c i) = kv (nodes c' j) \<and> dedupTable (nodes c i) = dedupTable (nodes c' j))"
proof -
  obtain h L where s: "safe M h L c'" and
    cm: "committed M h (currentTerm (nodes c i)) (log (nodes c i)) (nat (commitIndex (nodes c i)))" and ap: "applied (nodes c i)"
    using reachable_pair [OF assms(1-5)] by metis
  note t = safeD(1,2) [OF s assms(6)]
  have j: "committed M h (hTerm h j) (log (nodes c' j)) (nat (commitIndex (nodes c' j)))" "applied (nodes c' j)"
    using t(2) by (auto simp: tracks_def)
  have agree: "take n (log (nodes c i)) = take n (log (nodes c' j))"
    if "n \<le> nat (commitIndex (nodes c i))" "n \<le> nat (commitIndex (nodes c' j))" for n
    using committed_agree [OF t(1) cm j(1) that] .
  have "let n = nat (min (commitIndex (nodes c i)) (commitIndex (nodes c' j))) in
      n \<le> length (log (nodes c i)) \<and> take n (log (nodes c i)) = take n (log (nodes c' j))"
    using agree cm by (auto simp: Let_def committed_def)
  moreover have "kv (nodes c i) = kv (nodes c' j) \<and> dedupTable (nodes c i) = dedupTable (nodes c' j)"
    if "lastApplied (nodes c i) = lastApplied (nodes c' j)"
    using that ap j(2) agree [of "nat (lastApplied (nodes c i))"] by (auto simp: applied_def prod_eq_iff)
  ultimately show ?thesis by blast
qed

section \<open>A run in which an entry is committed\<close>

text \<open>The run of theory \<open>Cluster\<close> goes on until two of the three nodes have committed the first entry.\<close>

definition demo_noop :: LogEntry where
  "demo_noop = \<lparr>Index = 1, Term = 1, Command = json_print (jsonEnvelope EntryNoop None None)\<rparr>"

definition demo_entries :: AppendEntriesRequest where
  "demo_entries = \<lparr>aeTerm = 1, aeLeaderId = ''n1'', PrevLogIndex = 0, PrevLogTerm = 0, Entries = [demo_noop], LeaderCommit = 0\<rparr>"

definition demo_ack :: AppendEntriesResponse where
  "demo_ack = \<lparr>aerTerm = 1, Success = True, MatchIndex = 1\<rparr>"

definition demo_commit :: AppendEntriesRequest where
  "demo_commit = \<lparr>aeTerm = 1, aeLeaderId = ''n1'', PrevLogIndex = 1, PrevLogTerm = 1, Entries = [], LeaderCommit = 1\<rparr>"

definition demo_follower :: raft where
  "demo_follower = fst (handleRPC (appendEntriesMsg demo_entries) demo_voter)"

definition demo_committer :: raft where
  "demo_committer = fst (handleRPC (appendRespMsg ''n2'' demo_ack) demo_leader)"

definition demo_learner :: raft where
  "demo_learner = fst (handleRPC (appendEntriesMsg demo_commit) demo_follower)"

abbreviation demo_packets :: "packet list" where
  "demo_packets \<equiv> demo_net @ [(''n1'', voteRespMsg ''n2'' demo_yes)]"

abbreviation demo_at_leader :: cluster where
  "demo_at_leader \<equiv> demo_cluster demo_leader demo_voter demo_packets"

lemma demo_no_compaction: "no_compaction demo_members (demo_cluster (demo_start ''n1'') (demo_start ''n2'') [])"
  by (simp add: no_compaction_def demo_cluster_def demo_start_def startRun_def freshRaft_def)

lemma demo_leader_tracked:
  obtains h where "hist_inv demo_members h" "tracks demo_members h ''n1'' demo_leader" "tracks demo_members h ''n2'' demo_voter"
proof -
  obtain h L where s: "safe demo_members h L demo_at_leader"
    using reachable_safe [OF demo_init demo_no_compaction demo_run] .
  have m: "''n1'' \<in> demo_members" "''n2'' \<in> demo_members" by (simp_all add: demo_members_def)
  show ?thesis
    using that [of h] safeD(1,2) [OF s m(1)] safeD(2) [OF s m(2)] by (simp add: demo_cluster_def)
qed

lemma demo_grants: "grants demo_req (demo_start ''n2'')"
  by code_simp

lemma demo_voter_fields: "log demo_voter = []" "currentTerm demo_voter = 1" "commitIndex demo_voter = 0"
  "state demo_voter = Follower" "lastApplied demo_voter = 0" "whole demo_voter"
proof -
  have v: "demo_voter = fst (walState (resetElectionTimer (transitionToFollower 1 (demo_start ''n2'')\<lparr>votedFor := ''n1''\<rparr>)))"
    using processRequestVote_granted [OF demo_grants]
    by (simp add: demo_voter_def demo_req_def demo_start_def startRun_def freshRaft_def)
  show "log demo_voter = []" "currentTerm demo_voter = 1" "commitIndex demo_voter = 0" "state demo_voter = Follower"
    "lastApplied demo_voter = 0"
    unfolding v by (simp_all add: walState_def wroteWal_def resetElectionTimer_def demo_start_def startRun_def freshRaft_def)
  from demo_leader_tracked show "whole demo_voter" by (auto simp: tracks_def)
qed

lemma demo_candidate_rest: "log demo_candidate = []" "nextIndex demo_candidate = []" "matchIndex demo_candidate = []"
  "lastLogIndex demo_candidate = 0" "commitIndex demo_candidate = 0" "lastApplied demo_candidate = 0"
  "effectivePeers demo_candidate = effectivePeers demo_asking"
proof -
  let ?a = "asCandidate (demo_asking\<lparr>preVoteVotesReceived := [(''n1'', True), (''n2'', True)]\<rparr>)"
  have e: "effectivePeers ?a = effectivePeers demo_asking"
    using demo_start_facts(6) by (simp add: effectivePeers_def)
  have "effectivePeers demo_asking \<noteq> []" using demo_start_facts(8) by auto
  then have c: "demo_candidate = emit (map (\<lambda>p. GoSendRequestVote (fst p) (currentTerm ?a) (lastLogIndex ?a) (lastLogTerm ?a)) (effectivePeers demo_asking)) ?a"
    using e by (simp add: demo_candidate_eq transitionToCandidate_eq startElection_def)
  have a: "log demo_asking = []" "nextIndex demo_asking = []" "matchIndex demo_asking = []" "commitIndex demo_asking = 0"
    "lastApplied demo_asking = 0" "lastIncludedIndex demo_asking = 0" by code_simp+
  have "nextIndex ?a = []" "matchIndex ?a = []" using a by (simp_all add: asCandidate_def node_defs)
  then show "log demo_candidate = []" "nextIndex demo_candidate = []" "matchIndex demo_candidate = []"
    "lastLogIndex demo_candidate = 0" "commitIndex demo_candidate = 0" "lastApplied demo_candidate = 0"
    using a by (simp_all add: c emit_def lastLogIndex_def)
  show "effectivePeers demo_candidate = effectivePeers demo_asking"
    using demo_candidate_facts(1,5) demo_start_facts(2,6) by (simp add: effectivePeers_def)
qed

lemma demo_leader_eq:
  "demo_leader = transitionToLeader (demo_candidate\<lparr>votesReceived := [(''n1'', True), (''n2'', True)]\<rparr>)"
proof -
  have "AList.update ''n2'' True [(''n1'', True)] = [(''n1'', True), (''n2'', True)]" by simp
  then show ?thesis
    using demo_candidate_facts demo_start_facts(6) demo_majority
    by (simp add: demo_leader_def processRequestVoteResponse_def demo_yes_def Let_def voteMajority_config
        del: HasMajority.simps)
qed

lemma demo_leader_fields:
  "log demo_leader = [demo_noop]" "get_int (nextIndex demo_leader) ''n2'' = 1" "map_of (matchIndex demo_leader) ''n2'' = Some 0"
  "commitIndex demo_leader = 0" "raft_id demo_leader = ''n1''" "currentConfig demo_leader = Some demo_config"
  "matchIndex demo_leader = setAll 0 [''n2'', ''n3''] []" "whole demo_leader" "lastLogIndex demo_leader = 1"
proof -
  let ?c = "demo_candidate\<lparr>votesReceived := [(''n1'', True), (''n2'', True)]\<rparr>"
  have c: "state ?c = Candidate" "currentTerm ?c = 1" "log ?c = []" "lastLogIndex ?c = 0" "nextIndex ?c = []" "matchIndex ?c = []"
    "map fst (effectivePeers ?c) = [''n2'', ''n3'']" "commitIndex ?c = 0" "raft_id ?c = ''n1''" "currentConfig ?c = Some demo_config"
    using demo_candidate_facts demo_candidate_rest demo_start_facts(6,8)
    by (simp_all add: lastLogIndex_def effectivePeers_def)
  have "log (transitionToLeader ?c) = [demo_noop]" "matchIndex (transitionToLeader ?c) = setAll 0 [''n2'', ''n3''] []"
    "nextIndex (transitionToLeader ?c) = setAll 1 [''n2'', ''n3''] []" "commitIndex (transitionToLeader ?c) = 0"
    using c by (simp_all add: transitionToLeader_def EncodeNoopEntry_def node_defs Let_def demo_noop_def lastLogIndex_def
        effectivePeers_def split: option.split)
  then show l: "log demo_leader = [demo_noop]" "get_int (nextIndex demo_leader) ''n2'' = 1" "commitIndex demo_leader = 0"
    "map_of (matchIndex demo_leader) ''n2'' = Some 0" "raft_id demo_leader = ''n1''" "currentConfig demo_leader = Some demo_config"
    "matchIndex demo_leader = setAll 0 [''n2'', ''n3''] []"
    using c(9,10) unfolding demo_leader_eq by (simp_all add: setAll_map_of get_int_def)
  from demo_leader_tracked show "whole demo_leader" by (auto simp: tracks_def)
  show "lastLogIndex demo_leader = 1" using l(1) by (simp add: lastLogIndex_def demo_noop_def)
qed

lemma demo_sends_entries: "sends demo_leader (''n2'', appendEntriesMsg demo_entries)"
proof (rule sends.append [where pt = None and conns = "[(''n2'', ''h:2'')]"])
  let ?a = "at demo_leader None [(''n2'', ''h:2'')]"
  have "getEntry demo_leader 1 = Some demo_noop" "getEntryTerm demo_leader 0 = 0"
    using whole_getEntry [OF demo_leader_fields(8)] whole_getEntry(1) [OF demo_leader_fields(8), of 0] demo_leader_fields(1) by simp_all
  moreover have "callPeer ?a ''n2'' x = Inr x" for x :: AppendEntriesRequest
    by (simp add: callPeer_def checkNetworkFault_def at_def has_key_def)
  ultimately show "snd (replicateToPeer ''n2'' ?a) = Some demo_entries"
    using demo_leader_fields demo_leader_facts
    by (simp add: replicateToPeer_def Let_def sendAppendEntries_def whole_def entryOrEmpty_def demo_entries_def upto_rec1)
qed

lemma demo_follower_eq:
  "handleRPC (appendEntriesMsg demo_entries) demo_voter = (demo_follower, Some (AppendResp demo_ack))"
  "log demo_follower = [demo_noop]" "currentTerm demo_follower = 1" "commitIndex demo_follower = 0" "lastApplied demo_follower = 0"
  "lastIncludedIndex demo_follower = 0"
proof -
  let ?f = "followLeader 1 ''n1'' demo_voter"
  have w: "lastIncludedIndex demo_voter = 0" "lastIncludedTerm demo_voter = 0" using demo_voter_fields(6) by (auto simp: whole_def)
  have l: "lastLogIndex demo_voter = 0" using demo_voter_fields(1) w by (simp add: lastLogIndex_def)
  have p: "prevMatches demo_entries demo_voter"
    using w l by (simp add: prevMatches_def demo_entries_def getEntryTerm_def getEntry_def)
  have a: "appended demo_entries demo_voter = fst (appendLog demo_noop ?f)"
    using w l by (simp add: appended_def demo_entries_def appendOne_def demo_noop_def)
  then have "log (appended demo_entries demo_voter) = [demo_noop]" "commitIndex (appended demo_entries demo_voter) = 0"
    using demo_voter_fields by simp_all
  then have c: "advanceCommit 0 (appended demo_entries demo_voter) = appended demo_entries demo_voter"
    "lastLogIndex (appended demo_entries demo_voter) = 1"
    by (simp_all add: advanceCommit_def lastLogIndex_def demo_noop_def)
  have t: "currentTerm (appended demo_entries demo_voter) = 1" using a demo_voter_fields(2) by simp
  have "processAppendEntries demo_entries demo_voter = (appended demo_entries demo_voter, demo_ack)"
    using processAppendEntries_match [OF _ p] demo_voter_fields(2) c t by (simp add: demo_entries_def demo_ack_def Let_def)
  then show "handleRPC (appendEntriesMsg demo_entries) demo_voter = (demo_follower, Some (AppendResp demo_ack))"
    "log demo_follower = [demo_noop]" "currentTerm demo_follower = 1" "commitIndex demo_follower = 0" "lastApplied demo_follower = 0"
    "lastIncludedIndex demo_follower = 0"
    using a demo_voter_fields w by (simp_all add: demo_follower_def)
qed

lemma demo_check: "checkCommitMajority r 1" if "currentConfig r = Some demo_config" "raft_id r = ''n1''"
    "matchIndex r = AList.update ''n2'' 1 (setAll 0 [''n2'', ''n3''] [])" for r
proof -
  have "foldl (addVoter 1) (AList.update ''n1'' True []) (matchIndex r) = [(''n1'', True), (''n2'', True)]"
    using that(3) by (simp add: setAll_def addVoter_def)
  then show ?thesis using that(1,2) demo_majority by (simp add: checkCommitMajority_def del: HasMajority.simps)
qed

lemma demo_committer_fields:
  "commitIndex demo_committer = 1" "lastApplied demo_committer = 1" "state demo_committer = Leader" "currentTerm demo_committer = 1"
  "log demo_committer = [demo_noop]" "raft_id demo_committer = ''n1''"
proof -
  define r2 where "r2 = trimProposalTime (observeLag ''n2'' 0 1 (demo_leader\<lparr>matchIndex := AList.update ''n2'' 1 (matchIndex demo_leader),
    nextIndex := AList.update ''n2'' 2 (nextIndex demo_leader)\<rparr>))"
  have r2: "log r2 = [demo_noop]" "currentTerm r2 = 1" "commitIndex r2 = 0" "lastApplied r2 = lastApplied demo_leader" "raft_id r2 = ''n1''"
    "currentConfig r2 = Some demo_config" "matchIndex r2 = AList.update ''n2'' 1 (setAll 0 [''n2'', ''n3''] [])"
    "state r2 = Leader" "whole r2" "kv r2 = kv demo_leader" "dedupTable r2 = dedupTable demo_leader" "lastLogIndex r2 = 1"
    using demo_leader_fields demo_leader_facts
    by (simp_all add: r2_def trimProposalTime_def observeLag_def emit_def whole_def lastLogIndex_def)
  have "getEntryTerm r2 1 = 1"
    using whole_getEntryTerm [OF r2(9), of 1] r2(1) by (simp add: lastTerm_def demo_noop_def)
  then have s: "commitStep r2 1 = applyLogs (r2\<lparr>commitIndex := 1\<rparr>)"
    using r2(2) demo_check [OF r2(6,5,7)] by (simp add: commitStep_def)
  have "processAppendEntriesResponse ''n2'' demo_ack demo_leader = foldl commitStep r2 [commitIndex r2 + 1..lastLogIndex r2]"
    using demo_leader_facts demo_leader_fields(3) by (simp add: processAppendEntriesResponse_def demo_ack_def r2_def get_int_def Let_def)
  then have c: "demo_committer = applyLogs (r2\<lparr>commitIndex := 1\<rparr>)"
    using s r2(3,12) by (simp add: demo_committer_def upto_rec1)
  have p: "plain_log (log r2)" "numbered (log r2)" using plain_noop r2(1) by (simp_all add: demo_noop_def numbered_def)
  have "applied demo_leader" using demo_leader_tracked by (auto simp: tracks_def)
  then have "lastApplied r2 = 0" "applied (r2\<lparr>commitIndex := 1\<rparr>)"
    using r2 demo_leader_fields(1,4) by (auto simp: applied_def)
  moreover have "whole (r2\<lparr>commitIndex := 1\<rparr>)" using r2(9) by (simp add: whole_def)
  ultimately show "commitIndex demo_committer = 1" "lastApplied demo_committer = 1" "state demo_committer = Leader"
    "currentTerm demo_committer = 1" "log demo_committer = [demo_noop]" "raft_id demo_committer = ''n1''"
    using applyLogs_whole(3,4) [of "r2\<lparr>commitIndex := 1\<rparr>"] p r2 unfolding c by simp_all
qed

lemma demo_sends_commit: "sends demo_committer (''n2'', appendEntriesMsg demo_commit)"
  by (rule sends.read_probe [where pt = None and conns = "[(''n2'', ''h:2'')]"])
    (simp_all add: demo_committer_fields sendAppendEntries_def callPeer_def checkNetworkFault_def at_def has_key_def
      demo_commit_def lastLogIndex_def lastLogTerm_def demo_noop_def)

lemma demo_learner_fields: "commitIndex demo_learner = 1" "lastApplied demo_learner = 1" "currentTerm demo_learner = 1"
proof -
  let ?f = "followLeader 1 ''n1'' demo_follower"
  have l: "lastLogIndex demo_follower = 1" "getEntryTerm demo_follower 1 = 1"
    using demo_follower_eq(2,6) by (simp_all add: lastLogIndex_def demo_noop_def getEntryTerm_def getEntry_def)
  then have "prevMatches demo_commit demo_follower" by (simp add: prevMatches_def demo_commit_def)
  then have d: "demo_learner = advanceCommit 1 ?f"
    using processAppendEntries_match [of demo_follower demo_commit] demo_follower_eq(3)
    by (simp add: demo_learner_def demo_commit_def Let_def appended_def)
  show "commitIndex demo_learner = 1" "lastApplied demo_learner = 1" "currentTerm demo_learner = 1"
    unfolding d using demo_follower_eq(3-5) l(1) by (simp_all add: advanceCommit_def)
qed

text \<open>The clusters after the first entry has reached the follower, and after both have committed it.\<close>

abbreviation demo_replicated :: cluster where
  "demo_replicated \<equiv> demo_cluster demo_leader demo_follower
     ((''n2'', appendEntriesMsg demo_entries) # demo_packets @ [(''n1'', appendRespMsg ''n2'' demo_ack)])"

definition demo_committed_reply :: AppendEntriesResponse where
  "demo_committed_reply = snd (processAppendEntries demo_commit demo_follower)"

abbreviation demo_both_committed :: cluster where
  "demo_both_committed \<equiv> demo_cluster demo_committer demo_learner
     (((''n2'', appendEntriesMsg demo_commit) # (''n2'', appendEntriesMsg demo_entries) # demo_packets @
        [(''n1'', appendRespMsg ''n2'' demo_ack)]) @ [(''n1'', appendRespMsg ''n2'' demo_committed_reply)])"

lemma demo_replicated_run:
  "(cstep demo_members)\<^sup>*\<^sup>* (demo_cluster (demo_start ''n1'') (demo_start ''n2'') []) demo_replicated"
proof -
  let ?C = "cstep demo_members"
  have 1: "?C demo_at_leader (demo_cluster demo_leader demo_voter ((''n2'', appendEntriesMsg demo_entries) # demo_packets))"
    by (rule demo_send [OF demo_sends_entries])
  have "?C (demo_cluster demo_leader demo_voter ((''n2'', appendEntriesMsg demo_entries) # demo_packets)) demo_replicated"
    using demo_deliver [of "''n2''" "appendEntriesMsg demo_entries" "(''n2'', appendEntriesMsg demo_entries) # demo_packets"
        demo_leader demo_voter demo_follower "Some (AppendResp demo_ack)" "[(''n1'', appendRespMsg ''n2'' demo_ack)]"]
      demo_follower_eq(1)
    by (simp add: keeps_members_def demo_cluster_def) (simp add: demo_entries_def)
  with 1 demo_run show ?thesis by (meson rtranclp.rtrancl_into_rtrancl)
qed

lemma demo_committed_run: "(cstep demo_members)\<^sup>*\<^sup>* demo_replicated demo_both_committed"
proof -
  let ?C = "cstep demo_members"
  let ?ps = "(''n2'', appendEntriesMsg demo_entries) # demo_packets @ [(''n1'', appendRespMsg ''n2'' demo_ack)]"
  have 1: "?C demo_replicated (demo_cluster demo_committer demo_follower ?ps)"
    using demo_deliver [of "''n1''" "appendRespMsg ''n2'' demo_ack" ?ps demo_leader demo_follower demo_committer None "[]"]
    by (simp add: keeps_members_def demo_cluster_def demo_committer_def)
  have 2: "?C (demo_cluster demo_committer demo_follower ?ps)
      (demo_cluster demo_committer demo_follower ((''n2'', appendEntriesMsg demo_commit) # ?ps))"
    by (rule demo_send [OF demo_sends_commit])
  have 3: "?C (demo_cluster demo_committer demo_follower ((''n2'', appendEntriesMsg demo_commit) # ?ps)) demo_both_committed"
    using demo_deliver [of "''n2''" "appendEntriesMsg demo_commit" "(''n2'', appendEntriesMsg demo_commit) # ?ps"
        demo_committer demo_follower demo_learner "Some (AppendResp demo_committed_reply)"
        "[(''n1'', appendRespMsg ''n2'' demo_committed_reply)]"]
    by (simp add: keeps_members_def demo_cluster_def demo_learner_def demo_committed_reply_def) (simp add: demo_commit_def)
  from 1 2 3 show ?thesis by (meson rtranclp.rtrancl_refl rtranclp.rtrancl_into_rtrancl)
qed

lemma demo_n1_n2: "''n1'' \<in> demo_members" "''n2'' \<in> demo_members"
  by (simp_all add: demo_members_def)

theorem log_matching_witness: "take (Suc 0) (log demo_leader) = take (Suc 0) (log demo_follower)"
  using log_matching [OF demo_init demo_no_compaction demo_replicated_run demo_n1_n2, of 0] demo_leader_fields(1) demo_follower_eq(2)
  by (simp add: demo_cluster_def)

theorem leader_completeness_witness:
  "commitIndex demo_learner = 1 \<and> 1 \<le> int (length (log demo_committer)) \<and> take 1 (log demo_committer) = take 1 (log demo_learner)"
  using leader_completeness [OF demo_init demo_no_compaction rtranclp_trans [OF demo_replicated_run demo_committed_run]
      rtranclp.rtrancl_refl demo_n1_n2(2,1)] demo_committer_fields(3,4) demo_learner_fields
  by (simp add: demo_cluster_def)

theorem state_machine_safety_witness:
  "lastApplied demo_committer = 1 \<and> lastApplied demo_learner = 1 \<and> kv demo_committer = kv demo_learner \<and>
   dedupTable demo_committer = dedupTable demo_learner \<and> take 1 (log demo_committer) = take 1 (log demo_learner)"
  using state_machine_safety [OF demo_init demo_no_compaction rtranclp_trans [OF demo_replicated_run demo_committed_run]
      rtranclp.rtrancl_refl demo_n1_n2] demo_committer_fields(1,2) demo_learner_fields(1,2)
  by (simp add: demo_cluster_def Let_def)

end
