(* ===== verification/Catchup.thy ===== *)
theory Catchup
  imports Safety
begin

text \<open>
  The repair of a follower's log. A leader sends what it believes the follower lacks; a
  refusal makes \<^verbatim>\<open>processAppendEntriesResponse\<close> lower \<^verbatim>\<open>nextIndex\<close> and start
  \<^verbatim>\<open>replicateToPeer\<close> again, so this is a loop between two nodes, which ends.
\<close>

section \<open>The loop\<close>

text \<open>
  The rounds of \<^verbatim>\<open>replicateToPeer\<close> with peer \<open>p\<close> until the first success, at most \<open>n\<close> of them,
  with calls that reach the follower and return: the leader and the follower afterwards.
\<close>

fun exchange :: "nat \<Rightarrow> string \<Rightarrow> raft \<Rightarrow> raft \<Rightarrow> (raft \<times> raft) option" where
  "exchange 0 p l f = None"
| "exchange (Suc n) p l f =
     (case snd (replicateToPeer p l) of
        None \<Rightarrow> None
      | Some req \<Rightarrow>
          (case processAppendEntries req f of
             (f', resp) \<Rightarrow>
               if Success resp then Some (processAppendEntriesResponse p resp l, f')
               else exchange n p (processAppendEntriesResponse p resp l) f'))"

section \<open>One round\<close>

lemma replicateToPeer_request:
  assumes "state l = Leader" "partition l = None" "has_key (grpcPeers l) p" "lastIncludedIndex l < get_int (nextIndex l) p"
  defines "k \<equiv> get_int (nextIndex l) p"
  shows "snd (replicateToPeer p l) = Some \<lparr>aeTerm = currentTerm l, aeLeaderId = raft_id l, PrevLogIndex = k - 1,
    PrevLogTerm = getEntryTerm l (k - 1), Entries = (if lastLogIndex l \<ge> k then map (entryOrEmpty l) [k..lastLogIndex l] else []),
    LeaderCommit = commitIndex l\<rparr>"
  using assms by (simp add: replicateToPeer_def Let_def sendAppendEntries_def callPeer_def checkNetworkFault_def)

lemma replicateToPeer_sends:
  assumes "snd (replicateToPeer p l) = Some q"
  shows "sends l (p, appendEntriesMsg q)"
proof -
  have "at l (partition l) (grpcPeers l) = l" by (simp add: at_def)
  with assms show ?thesis using sends.append [of p l "partition l" "grpcPeers l" q] by simp
qed

text \<open>A refusal lowers \<^verbatim>\<open>nextIndex\<close>, and nothing else of the leader that matters.\<close>

lemma refusal_lowers:
  fixes p :: string
  assumes "\<not> Success resp" "state l = Leader" "aerTerm resp = currentTerm l"
  defines "l' \<equiv> processAppendEntriesResponse p resp l"
  shows "get_int (nextIndex l') p = max 1 (MatchIndex resp + 1)" "log l' = log l" "state l' = Leader"
    "currentTerm l' = currentTerm l" "raft_id l' = raft_id l" "partition l' = partition l" "grpcPeers l' = grpcPeers l"
    "\<And>M. steady_node M l' = steady_node M l"
  using assms by (simp_all add: processAppendEntriesResponse_def Let_def emit_def get_int_update steady_node_def)

lemma refused_match:
  assumes "\<not> prevMatches q f" "currentTerm f \<le> aeTerm q"
  shows "\<not> Success (snd (processAppendEntries q f))" "aerTerm (snd (processAppendEntries q f)) = aeTerm q"
    "MatchIndex (snd (processAppendEntries q f)) < PrevLogIndex q"
    "fst (processAppendEntries q f) = followLeader (aeTerm q) (aeLeaderId q) f"
  using assms by (auto simp: processAppendEntries_def Let_def prevMatches_def getEntryTerm_def)

lemma first_entry_matches:
  assumes "hist_inv M h" "tracks M h j f" "PrevLogIndex q = 0" "PrevLogTerm q = 0"
  shows "prevMatches q f"
proof -
  have "whole f" using assms(2) by (simp add: tracks_def)
  from whole_getEntry(2) [OF this] show ?thesis
    using tracks_numbered(1) [OF assms(1,2)] assms(3,4) by (simp add: prevMatches_def)
qed

text \<open>What the leader asks for.\<close>

lemma leader_request:
  assumes inv: "hist_inv M h" and l: "tracks M h i l" "state l = Leader" and q: "snd (replicateToPeer j l) = Some q"
  obtains b where "get_int (nextIndex l) j = int b + 1" "PrevLogIndex q = int b" "aeTerm q = currentTerm l"
    "b \<le> length (log l) \<longrightarrow> Entries q = drop b (log l)" "length (log l) < b \<longrightarrow> PrevLogTerm q = 0 \<and> Entries q = []"
    "b = 0 \<longrightarrow> PrevLogTerm q = 0"
proof -
  let ?n = "get_int (nextIndex l) j"
  have w: "whole l" using l(1) by (simp add: tracks_def)
  have ll: "lastLogIndex l = int (length (log l))" by (rule tracks_numbered(1) [OF inv l(1)])
  from q l(2) have n: "0 < ?n" and q0: "sendAppendEntries l j (currentTerm l) (?n - 1) (getEntryTerm l (?n - 1))
      (if lastLogIndex l \<ge> ?n then map (entryOrEmpty l) [?n..lastLogIndex l] else []) (commitIndex l) = Inr q"
    using w by (auto simp: replicateToPeer_def Let_def whole_def split: if_splits sum.splits)
  note q1 = callPeer_request [OF q0 [unfolded sendAppendEntries_def]]
  obtain b where b: "?n = int b + 1" using n that [of "nat (?n - 1)"] by (metis add.commute add_diff_cancel_left' diff_add_cancel int_nat_eq zle_diff1_eq diff_ge_0_iff_ge int_one_le_iff_zero_less)
  show ?thesis
  proof (rule that [of b])
    show "?n = int b + 1" "PrevLogIndex q = int b" "aeTerm q = currentTerm l" using q1 b by simp_all
    show "b \<le> length (log l) \<longrightarrow> Entries q = drop b (log l)"
      using entries_slice [OF w] q1 b ll by auto
    show "length (log l) < b \<longrightarrow> PrevLogTerm q = 0 \<and> Entries q = []"
      using q1 b w ll by (auto simp: getEntryTerm_def getEntry_def whole_def Let_def)
    show "b = 0 \<longrightarrow> PrevLogTerm q = 0" using q1 b whole_getEntry(2) [OF w] by simp
  qed
qed

text \<open>A follower that accepts the leader's request has the leader's log.\<close>

lemma accepted_log:
  assumes inv: "hist_inv M h" and l: "tracks M h i l" "raft_id l = i" "state l = Leader" "steady_node M l"
    and f: "tracks M h j f" "plain_log (log f)" "currentTerm f \<le> currentTerm l"
    and q: "snd (replicateToPeer j l) = Some q" "prevMatches q f"
  shows "log (fst (processAppendEntries q f)) = log l"
proof -
  let ?f = "followLeader (aeTerm q) (aeLeaderId q) f"
  have pk: "packet_ok M h (j, appendEntriesMsg q)"
    using sends_tracked [OF inv l(1,2)] replicateToPeer_sends [OF q(1)] by blast
  from leader_request [OF inv l(1,3) q(1)] obtain b where b: "PrevLogIndex q = int b" "aeTerm q = currentTerm l"
    "b \<le> length (log l) \<longrightarrow> Entries q = drop b (log l)" "length (log l) < b \<longrightarrow> PrevLogTerm q = 0 \<and> Entries q = []" by metis
  from f(3) b(2) have cur: "currentTerm f \<le> aeTerm q" by simp
  from tracks_follow [OF f(1) cur] obtain h1 where h1: "(hstep M j)\<^sup>*\<^sup>* h h1" "tracks M h1 j ?f" "hLead h1 = hLead h"
    "hLlog h1 = hLlog h" "hTerm h1 j = aeTerm q" by metis
  have inv1: "hist_inv M h1" "hle h h1" using hsteps_inv [OF h1(1) inv] by auto
  have L: "hLead h1 (hTerm h1 j) = Some i" "hLlog h1 (hTerm h1 j) = log l"
    using l(1,3) h1(3-5) b(2) by (auto simp: tracks_def leads_def)
  have m: "prevMatches q ?f" using q(2) by (simp add: prevMatches_follow)
  define xs where "xs = log (foldl appendOne ?f (Entries q))"
  note xs = appended_matches [OF inv1(1) h1(2,5) L(1) packet_ok_mono [OF inv inv1(2) pk] m, folded xs_def, unfolded L(2)]
  note w = match_within [OF inv1(1) h1(2) m]
  have le: "b \<le> length (log l)" using w(1) b(1,4) by (cases "b \<le> length (log l)") auto
  have num: "numbered (log l)" "wf_log ?f" using tracks_numbered(4) [OF inv l(1)] tracks_numbered(3) [OF inv1(1) h1(2)] by auto
  have "xs = take b (log f) @ mergeEntries (drop b (log f)) (drop b (log l))"
    using foldl_appendOne_log [OF num(2), of b "Entries q"] contiguous_numbered [OF num(1), of b] b(1) w(2) b(3) le h1(2)
    by (simp add: xs_def tracks_def whole_def)
  moreover have "length (drop b (log l)) \<le> length (mergeEntries (drop b (log f)) (drop b (log l)))"
    using mergeEntries_terms [of _ "drop b (log l)" "drop b (log f)"] by (meson leI less_irrefl)
  ultimately have "length (log l) \<le> length xs" using w(2) b(1) by simp
  then have "xs = log l" using xs by simp
  moreover have "log (advanceCommit (LeaderCommit q) (appended q f)) = xs"
  proof (unfold appended_def, rule tracks_accept(2) [OF inv1(1) h1(2) _ L(1)])
    show "state ?f \<noteq> Candidate" by (simp add: followLeader_state)
    show "still (?f\<lparr>log := xs\<rparr>) (foldl appendOne ?f (Entries q))" "matchIndex (foldl appendOne ?f (Entries q)) = matchIndex ?f"
      using foldl_appendOne_still [of ?f "Entries q"] by (auto simp: xs_def)
    show "plain_log xs" using \<open>xs = log l\<close> f(2) l(4) by (simp add: steady_plain)
  qed (use xs L(2) in simp_all)
  ultimately show ?thesis
    using processAppendEntries_match [OF cur q(2)] by (simp add: Let_def)
qed

section \<open>The loop ends\<close>

lemma plain_request:
  assumes "hist_inv M h" "tracks M h i l" "state l = Leader" "snd (replicateToPeer j l) = Some q" "plain_log (log l)"
  shows "plain_log (Entries q)"
proof -
  from leader_request [OF assms(1-4)] obtain b where "Entries q = drop b (log l) \<or> Entries q = []"
    by (metis not_le)
  then show ?thesis using plain_log_sub [OF assms(5)] by (auto simp: set_drop_subset)
qed

lemma exchange_ends:
  "hist_inv M h \<Longrightarrow> tracks M h i l \<Longrightarrow> raft_id l = i \<Longrightarrow> state l = Leader \<Longrightarrow> steady_node M l \<Longrightarrow>
   partition l = None \<Longrightarrow> has_key (grpcPeers l) j \<Longrightarrow> 0 < get_int (nextIndex l) j \<Longrightarrow> get_int (nextIndex l) j \<le> int n \<Longrightarrow>
   i \<noteq> j \<Longrightarrow> tracks M h j f \<Longrightarrow> plain_log (log f) \<Longrightarrow> currentTerm f \<le> currentTerm l \<Longrightarrow>
   \<exists>l' f'. exchange n j l f = Some (l', f') \<and> log f' = log l \<and> log l' = log l"
proof (induction n arbitrary: h l f)
  case (Suc n)
  note inv = Suc.prems(1) and l = Suc.prems(2-5) and f = Suc.prems(11-13)
  have "lastIncludedIndex l = 0" using l(1) by (simp add: tracks_def whole_def)
  then obtain q where q: "snd (replicateToPeer j l) = Some q"
    using replicateToPeer_request [OF l(3) Suc.prems(6,7)] Suc.prems(8) by simp
  from leader_request [OF inv l(1,3) q] obtain b where b: "get_int (nextIndex l) j = int b + 1" "PrevLogIndex q = int b"
    "aeTerm q = currentTerm l" "b = 0 \<longrightarrow> PrevLogTerm q = 0" by metis
  have cur: "currentTerm f \<le> aeTerm q" using f(3) b(3) by simp
  let ?f = "fst (processAppendEntries q f)" and ?a = "snd (processAppendEntries q f)"
  let ?l = "processAppendEntriesResponse j ?a l"
  have pk: "packet_ok M h (j, appendEntriesMsg q)"
    using sends_tracked [OF inv l(1,2)] replicateToPeer_sends [OF q] by blast
  from simulates_append [OF inv f(1,2) plain_request [OF inv l(1,3) q steady_plain [OF l(4)]] pk]
  obtain h' where h': "(hstep M j)\<^sup>*\<^sup>* h h'" "tracks M h' j ?f" "packet_ok M h' (aeLeaderId q, appendRespMsg j ?a)"
    by (auto simp: simulates_def)
  have inv': "hist_inv M h'" "hle h h'" "local_to j h h'" using hsteps_inv [OF h'(1) inv] by auto
  have l': "tracks M h' i l" using tracks_other [OF inv inv'(2,3) Suc.prems(10) l(1)] .
  have pk': "packet_ok M h' (i, appendRespMsg j ?a)" using h'(3) by (simp add: packet_ok_def)
  show ?case
  proof (cases "prevMatches q f")
    case True
    then have "Success ?a" "aerTerm ?a = currentTerm l"
      using processAppendEntries_match [OF cur True] cur b(3) by (simp_all add: Let_def appended_def)
    moreover have "tracks M h' i ?l"
      using tracks_append_response [OF inv'(1) l' l(2,4) pk'] calculation(2) by simp
    then have "log ?l = log l" using l' by (simp add: tracks_def)
    ultimately show ?thesis
      using q accepted_log [OF inv l f q True] by (simp add: case_prod_unfold)
  next
    case False
    note r = refused_match [OF False cur]
    have "aerTerm ?a = currentTerm l" using r(2) b(3) by simp
    note low = refusal_lowers [where p = j, OF r(1) l(3) this]
    have "b \<noteq> 0" using False b first_entry_matches [OF inv f(1), of q] by auto
    then have "get_int (nextIndex ?l) j \<le> int n" "0 < get_int (nextIndex ?l) j"
      using low(1) r(3) b(1,2) Suc.prems(9) by auto
    moreover have "tracks M h' i ?l" using tracks_append_response [OF inv'(1) l' l(2,4) pk'] r(2) b(3) by simp
    moreover have "plain_log (log ?f)" "currentTerm ?f \<le> currentTerm ?l" using r(4) f(2) cur low(4) b(3) by simp_all
    ultimately have "\<exists>l' f'. exchange n j ?l ?f = Some (l', f') \<and> log f' = log ?l \<and> log l' = log ?l"
      using Suc.IH [OF inv'(1), of ?l ?f] low Suc.prems(3,5-7,10) h'(2) by simp
    then show ?thesis using q r(1) low(2) by (simp add: case_prod_unfold)
  qed
qed simp

section \<open>Property\<close>

text \<open>
  C10. Log repair terminates: at every point of a run of a cluster that does not compact its
  logs, a leader that can reach a node of no later term brings that node's log to its own
  within as many rounds of AppendEntries as \<^verbatim>\<open>nextIndex\<close> says, without changing its own log.
\<close>

theorem replication_terminates:
  assumes "cluster_init M c0" "no_compaction M c0" "(cstep M)\<^sup>*\<^sup>* c0 c" "i \<in> M" "j \<in> M" "i \<noteq> j"
    and "state (nodes c i) = Leader" "currentTerm (nodes c j) \<le> currentTerm (nodes c i)"
    and "partition (nodes c i) = None" "has_key (grpcPeers (nodes c i)) j" "0 < get_int (nextIndex (nodes c i)) j"
  shows "\<exists>l f. exchange (nat (get_int (nextIndex (nodes c i)) j)) j (nodes c i) (nodes c j) = Some (l, f) \<and>
    log f = log (nodes c i) \<and> log l = log (nodes c i)"
proof -
  obtain h L where s: "safe M h L c" using reachable_safe [OF assms(1-3)] .
  note i = safeD(1-4) [OF s assms(4)] and j = safeD(2,4) [OF s assms(5)]
  show ?thesis
    using exchange_ends [OF i(1-3) assms(7) i(4) assms(9-11) _ assms(6) j(1) steady_plain [OF j(2)] assms(8)] assms(11) by simp
qed

text \<open>The leader of the example run and the node that voted for it, whose log is empty.\<close>

lemma connectLoop_connects:
  "(\<And>p a. dialPeer en p a = None) \<Longrightarrow> p \<in> fst ` set ps \<or> has_key conns p \<Longrightarrow> has_key (fst (connectLoop en ps conns)) p"
proof (induction ps arbitrary: conns)
  case (Cons x ps)
  obtain q a where x: "x = (q, a)" by (cases x)
  show ?case
    using Cons.IH [OF Cons.prems(1), of conns] Cons.IH [OF Cons.prems(1), of "AList.update q a conns"] Cons.prems
    by (auto simp: x has_key_update)
qed simp

lemma transitionToLeader_connects:
  assumes "state r = Candidate"
  shows "grpcPeers (transitionToLeader r) = fst (connectLoop (env r) (effectivePeers r) (grpcPeers r))"
    "partition (transitionToLeader r) = partition r"
proof -
  have [simp]: "effectivePeers (r\<lparr>state := Leader, outbox := m\<rparr>) = effectivePeers r"
    "effectivePeers (r\<lparr>state := Leader, outbox := m, electionTimer := t\<rparr>) = effectivePeers r" for m t
    by (simp_all add: effectivePeers_def split: option.split)
  show "grpcPeers (transitionToLeader r) = fst (connectLoop (env r) (effectivePeers r) (grpcPeers r))"
    "partition (transitionToLeader r) = partition r"
    using assms by (simp_all add: transitionToLeader_def EncodeNoopEntry_def node_defs Let_def split: option.split)
qed

lemma demo_leader_connected: "partition demo_leader = None" "has_key (grpcPeers demo_leader) ''n2''"
proof -
  let ?a = "asCandidate (demo_asking\<lparr>preVoteVotesReceived := [(''n1'', True), (''n2'', True)]\<rparr>)"
  let ?c = "demo_candidate\<lparr>votesReceived := [(''n1'', True), (''n2'', True)]\<rparr>"
  have e: "effectivePeers ?a = effectivePeers demo_asking" using demo_start_facts(6) by (simp add: effectivePeers_def)
  have ne: "effectivePeers demo_asking \<noteq> []" using demo_start_facts(8) by auto
  then have "env demo_candidate = env ?a" "partition demo_candidate = partition ?a"
    using e by (simp_all add: demo_candidate_eq transitionToCandidate_eq startElection_def emit_def)
  then have env: "credsErr (env demo_candidate) = credsErr (env demo_asking)" "dialErr (env demo_candidate) = dialErr (env demo_asking)"
    "partition demo_candidate = partition demo_asking"
    by (simp_all add: asCandidate_def node_defs)
  have as: "credsErr (env demo_asking) = None" "partition demo_asking = None" "env demo_asking = demo_env"
    by (simp_all add: demo_asking_def demo_start_def electionTimerFired_def startRun_def freshRaft_def startPreVote_def
        resetElectionTimer_def Let_def emit_def effectivePeers_def ConfigFromPeers_def demo_env_def has_key_def)
  have d: "dialPeer (env demo_candidate) p a = None" for p a
    using env as by (simp add: dialPeer_def) (simp add: demo_env_def)
  have c: "state ?c = Candidate" "effectivePeers ?c = effectivePeers demo_asking"
    using demo_candidate_facts(1,2,5) demo_start_facts(2,6) by (simp_all add: effectivePeers_def)
  note t = transitionToLeader_connects [OF c(1), unfolded c(2)]
  have "''n2'' \<in> fst ` set (effectivePeers demo_asking)"
    using arg_cong [OF demo_start_facts(8), of set] by auto
  then show "partition demo_leader = None" "has_key (grpcPeers demo_leader) ''n2''"
    using t env(3) as(2) connectLoop_connects [OF d] unfolding demo_leader_eq by simp_all
qed

theorem replication_terminates_witness:
  "\<exists>l f. exchange (nat (get_int (nextIndex demo_leader) ''n2'')) ''n2'' demo_leader demo_voter = Some (l, f) \<and>
     log f = log demo_leader \<and> length (log demo_leader) = 1 \<and> log demo_voter = []"
  using replication_terminates [OF demo_init demo_no_compaction demo_run demo_n1_n2] demo_leader_connected demo_leader_facts
    demo_leader_fields(1,2) demo_voter_fields(1,2)
  by (fastforce simp: demo_cluster_def)

end
