(* ===== verification/Fuel.thy ===== *)
theory Fuel
  imports Json
begin

text \<open>
  The fuel of the JSON parser is enough for every input: with more fuel than twice the length
  of the text the result no longer depends on it, so that the parser never fails for want of fuel.
\<close>

section \<open>What is left is shorter\<close>

lemma skipWs_length: "length (skipWs s) \<le> length s"
  by (simp add: skipWs_def length_dropWhile_le)

lemma skipWs_Cons: "skipWs s = c # r \<Longrightarrow> length r < length s"
  using skipWs_length [of s] by simp

lemma stripPrefix_length: "stripPrefix p s = Some r \<Longrightarrow> length r \<le> length s"
  by (auto simp: stripPrefix_def split: if_splits)

lemma parseStr_length: "parseStr s = Some (t, r) \<Longrightarrow> length r < length s"
proof (induction s arbitrary: t r rule: length_induct)
  case (1 s)
  have IH: "length q < length s" if "parseStr s' = Some (t', q)" "length s' < length s" for s' t' q
    using 1(1) that by (meson less_trans)
  obtain c cs where s: "s = c # cs" using 1(2) by (cases s) (auto simp: parseStr.simps)
  consider "c = CHR ''\"''" | "c = CHR 0x5C" "c \<noteq> CHR ''\"''" | "c \<noteq> CHR 0x5C" "c \<noteq> CHR ''\"''" by blast
  then show ?case
  proof cases
    case 2
    then obtain e s' where cs: "cs = e # s'" using 1(2) s by (cases cs) (auto simp: parseStr.simps)
    show ?thesis
    proof (cases "e = CHR ''u''")
      case True
      then obtain u r' x r'' where u: "getu4 s' = Some (u, r')" "unescapeU u r' = (x, r'')" "\<exists>t'. parseStr r'' = Some (t', r)"
        using 1(2) 2 s cs by (auto simp: parseStr.simps split: option.splits prod.splits)
      then have "length r'' < length s" using getu4_length unescapeU_length s cs by fastforce
      with u(3) IH show ?thesis by blast
    next
      case False
      then have "\<exists>t'. parseStr s' = Some (t', r)" using 1(2) 2 s cs by (auto simp: parseStr.simps split: option.splits)
      with IH s cs show ?thesis by auto
    qed
  next
    case 3
    then have "\<exists>n t'. parseStr (drop n cs) = Some (t', r)"
      using 1(2) s by (auto simp: parseStr.simps split: if_splits option.splits) (metis drop0)+
    with IH s show ?thesis by (auto simp: less_Suc_eq_le)
  qed (use 1(2) s in \<open>auto simp: parseStr.simps\<close>)
qed

lemma spanDigits_length: "spanDigits s = (ds, r) \<Longrightarrow> length r \<le> length s"
  by (auto simp: spanDigits_def length_dropWhile_le)

lemma parseNum_length: "parseNum s = Some (l, r) \<Longrightarrow> length r < length s"
proof -
  have i: "length r < length s" if "parseInt s = Some (l, r)" for s l r
    using that by (cases s) (auto simp: parseInt_def spanDigits_def less_Suc_eq_le length_dropWhile_le split: if_splits)
  have f: "length r \<le> length s" if "parseFrac s = Some (l, r)" for s l r
    using that by (auto simp: parseFrac_def split: list.splits if_splits prod.splits dest: spanDigits_length)
  have e: "length r \<le> length s" if "parseExp s = Some (l, r)" for s l r
    using that by (auto simp: parseExp_def Let_def split: list.splits if_splits prod.splits dest!: spanDigits_length)
  show "parseNum s = Some (l, r) \<Longrightarrow> length r < length s"
    by (auto simp: parseNum_def Let_def split: option.splits prod.splits if_splits dest!: i f e)
qed

text \<open>Every parser that succeeds has read something.\<close>

lemma parse_length:
  "parseValue n s = Some (v, r) \<Longrightarrow> length r < length s"
  "parseElems n s = Some (vs, r) \<Longrightarrow> length r < length s"
  "parseMembers n s = Some (ms, r) \<Longrightarrow> length r < length s"
proof (induction n s and n s and n s arbitrary: v r and vs r and ms r rule: parseValue_parseElems_parseMembers.induct)
  case (2 n s)
  then obtain c q where s: "skipWs s = c # q" by (auto split: list.splits)
  have lit: "length r \<le> length q" if "\<exists>p. stripPrefix p q = Some r" using that stripPrefix_length by blast
  consider "c = CHR ''n''" | "c = CHR ''t''" | "c = CHR ''f''" | "c = CHR ''\"''" | "c = CHR ''[''" | "c = CHR ''{''"
    | "c \<notin> {CHR ''n'', CHR ''t'', CHR ''f'', CHR ''\"'', CHR ''['', CHR ''{''}" by blast
  then have "length r \<le> length q"
  proof cases
    case 5
    with s obtain d r' where d: "skipWs q = d # r'" using 2(3) by (auto split: list.splits)
    then show ?thesis using 2 s 5 skipWs_Cons [OF d] by (auto simp: less_imp_le split: if_splits)
  next
    case 6
    with s obtain d r' where d: "skipWs q = d # r'" using 2(3) by (auto split: list.splits)
    then show ?thesis using 2 s 6 skipWs_Cons [OF d] by (auto simp: less_imp_le split: if_splits)
  next
    case 7
    then have "\<exists>l. parseNum (c # q) = Some (l, r)" using 2(3) s by auto
    then show ?thesis using parseNum_length by fastforce
  qed (use 2(3) s lit parseStr_length in \<open>auto simp: less_imp_le\<close>)
  then show ?case using skipWs_Cons [OF s] by simp
next
  case (4 n s)
  then show ?case
    by (auto split: option.splits list.splits if_splits dest!: skipWs_Cons) (meson less_trans)+
next
  case (6 n s)
  then show ?case
    by (auto split: option.splits list.splits if_splits dest!: skipWs_Cons parseStr_length) (meson less_trans)+
qed simp_all

section \<open>Enough fuel\<close>

lemma fuel_step:
  "2 * length s < n \<Longrightarrow> parseValue (Suc n) s = parseValue n s"
  "Suc (2 * length s) < n \<Longrightarrow> parseElems (Suc n) s = parseElems n s"
  "Suc (2 * length s) < n \<Longrightarrow> parseMembers (Suc n) s = parseMembers n s"
proof (induction n arbitrary: s)
  case (Suc n)
  { case 1
    show ?case
    proof (cases "skipWs s")
      case (Cons c r)
      have "length r < length s" by (rule skipWs_Cons [OF Cons])
      with 1 have "Suc (2 * length r) < n" by simp
      then show ?thesis
        using Suc.IH(2,3) [of r] by (simp only: parseValue.simps Cons list.case)
    qed simp
  next
    case 2
    have v: "parseValue (Suc n) s = parseValue n s" using 2 by (intro Suc.IH) simp
    have e: "parseElems (Suc n) q' = parseElems n q'" if "parseValue n s = Some (x, q)" "skipWs q = c # q'" for x q c q'
      using parse_length(1) [OF that(1)] skipWs_Cons [OF that(2)] 2 by (intro Suc.IH) simp
    show ?case
      unfolding parseElems.simps(2) [of "Suc n" s] parseElems.simps(2) [of n s] v
      using e by (auto split: option.split prod.split list.split simp del: parseElems.simps)
  next
    case 3
    have v: "parseValue (Suc n) q2 = parseValue n q2"
      if "skipWs s = c # q0" "parseStr q0 = Some (k, q1)" "skipWs q1 = d # q2" for c q0 k q1 d q2
      using skipWs_Cons [OF that(1)] parseStr_length [OF that(2)] skipWs_Cons [OF that(3)] 3 by (intro Suc.IH) simp
    have m: "parseMembers (Suc n) q4 = parseMembers n q4"
      if "skipWs s = c # q0" "parseStr q0 = Some (k, q1)" "skipWs q1 = d # q2" "parseValue n q2 = Some (x, q3)"
        "skipWs q3 = e # q4" for c q0 k q1 d q2 x q3 e q4
      using skipWs_Cons [OF that(1)] parseStr_length [OF that(2)] skipWs_Cons [OF that(3)]
        parse_length(1) [OF that(4)] skipWs_Cons [OF that(5)] 3 by (intro Suc.IH) simp
    show ?case
      unfolding parseMembers.simps(2) [of "Suc n" s] parseMembers.simps(2) [of n s]
      using v m by (auto split: option.split prod.split list.split simp del: parseMembers.simps parseValue.simps) }
qed simp_all

lemma parse_fuel: "2 * length s < n \<Longrightarrow> parseValue n s = parseValue (Suc (2 * length s)) s"
proof (induction n)
  case (Suc n)
  then show ?case using fuel_step(1) [of s n] by (cases "n = 2 * length s") simp_all
qed simp

text \<open>The parser with its own fuel is the parser with any larger amount.\<close>

lemma json_parse_fuel:
  assumes "2 * length s < n"
  shows "json_parse s = (case parseValue n s of None \<Rightarrow> None | Some (v, r) \<Rightarrow> if skipWs r = [] then Some v else None)"
  by (simp only: json_parse_def parse_fuel [OF assms])

end
