(* ===== verification/Http.thy ===== *)
theory Http
  imports Json
begin

text \<open>
  The parts of \<^verbatim>\<open>net/http\<close>, \<^verbatim>\<open>strings\<close> and \<^verbatim>\<open>fmt\<close> that the HTTP layers of the node
  (\<^verbatim>\<open>src/api/api.go\<close>) and of the gateway (\<^verbatim>\<open>src/gateway/gateway.go\<close>) use: requests, header
  maps, the response writer, integers read with \<^verbatim>\<open>Sscanf\<close>, and the search functions on
  strings. A header that is set after the status line has been written is not sent, so the
  writer keeps the header it is building apart from the one it has sent.
\<close>

section \<open>Requests and headers\<close>

type_synonym header = "(string, string list) gomap"

text \<open>The body is what arrives and how it ends: \<open>None\<close> at its end, \<open>Some\<close> with a read error.\<close>

record request =
  rqMethod :: string
  rqPath :: string
  rqQuery :: strmap
  rqRawQuery :: string
  rqHeader :: header
  rqBody :: "bytes \<times> string option"
  rqRemoteAddr :: string

text \<open>The canonical form of a header name: upper case after a hyphen, lower case elsewhere.\<close>

definition upperChar :: "char \<Rightarrow> char" where
  "upperChar c = (if 97 \<le> byte c \<and> byte c \<le> 122 then char_of (byte c - 32) else c)"

fun canonicalFrom :: "bool \<Rightarrow> string \<Rightarrow> string" where
  "canonicalFrom up [] = []"
| "canonicalFrom up (c # cs) = (if up then upperChar c else lowerChar c) # canonicalFrom (c = CHR ''-'') cs"

definition canonical :: "string \<Rightarrow> string" where
  "canonical name = canonicalFrom True name"

definition Header_Get :: "header \<Rightarrow> string \<Rightarrow> string" where
  "Header_Get h name = (case map_of h (canonical name) of Some (v # vs) \<Rightarrow> v | _ \<Rightarrow> [])"

definition Header_Set :: "string \<Rightarrow> string \<Rightarrow> header \<Rightarrow> header" where
  "Header_Set name v h = AList.update (canonical name) [v] h"

definition Header_Add :: "string \<Rightarrow> string \<Rightarrow> header \<Rightarrow> header" where
  "Header_Add name v h =
     AList.update (canonical name) ((case map_of h (canonical name) of None \<Rightarrow> [] | Some vs \<Rightarrow> vs) @ [v]) h"

definition Query_Get :: "strmap \<Rightarrow> string \<Rightarrow> string" where
  "Query_Get q name = (case map_of q name of Some v \<Rightarrow> v | None \<Rightarrow> [])"

text \<open>\<^verbatim>\<open>io.ReadAll\<close> of a body, and of a \<^verbatim>\<open>io.LimitReader\<close> on it.\<close>

definition readAll :: "bytes \<times> string option \<Rightarrow> bytes \<times> string option" where
  "readAll b = b"

definition readLimited :: "nat \<Rightarrow> bytes \<times> string option \<Rightarrow> bytes \<times> string option" where
  "readLimited n b = (if n \<le> length (fst b) then (take n (fst b), None) else b)"

section \<open>The response writer\<close>

record writer =
  wHeader :: header
  wSent :: "(nat \<times> header) option"
  wBody :: bytes

definition freshWriter :: writer where
  "freshWriter = \<lparr>wHeader = [], wSent = None, wBody = []\<rparr>"

definition SetHeader :: "string \<Rightarrow> string \<Rightarrow> writer \<Rightarrow> writer" where
  "SetHeader name v w = w\<lparr>wHeader := Header_Set name v (wHeader w)\<rparr>"

definition WriteHeader :: "nat \<Rightarrow> writer \<Rightarrow> writer" where
  "WriteHeader code w = (case wSent w of None \<Rightarrow> w\<lparr>wSent := Some (code, wHeader w)\<rparr> | Some _ \<Rightarrow> w)"

definition Write :: "bytes \<Rightarrow> writer \<Rightarrow> writer" where
  "Write bs w = (let w1 = WriteHeader 200 w in w1\<lparr>wBody := wBody w1 @ bs\<rparr>)"

definition http_Error :: "string \<Rightarrow> nat \<Rightarrow> writer \<Rightarrow> writer" where
  "http_Error msg code w =
     Write (msg @ [CHR 0x0A]) (WriteHeader code
       (SetHeader ''X-Content-Type-Options'' ''nosniff''
         (SetHeader ''Content-Type'' ''text/plain; charset=utf-8'' w)))"

definition EncodeTo :: "json \<Rightarrow> writer \<Rightarrow> writer" where
  "EncodeTo v w = Write (json_print v @ [CHR 0x0A]) w"

text \<open>The status code that the client sees; a handler that writes nothing answers 200.\<close>

definition statusOf :: "writer \<Rightarrow> nat" where
  "statusOf w = (case wSent w of Some (code, h) \<Rightarrow> code | None \<Rightarrow> 200)"

lemma http_Error_status [simp]:
  "wSent w = None \<Longrightarrow> statusOf (http_Error msg code w) = code"
  by (simp add: http_Error_def statusOf_def Write_def WriteHeader_def SetHeader_def Let_def)

lemma SetHeader_sent [simp]: "wSent (SetHeader k v w) = wSent w" "wBody (SetHeader k v w) = wBody w"
  by (simp_all add: SetHeader_def)

lemma WriteHeader_status [simp]:
  "wSent w = None \<Longrightarrow> wSent (WriteHeader code w) = Some (code, wHeader w)"
  "wSent w = Some x \<Longrightarrow> WriteHeader code w = w" "wBody (WriteHeader code w) = wBody w"
  by (simp_all add: WriteHeader_def split: option.split)

lemma Write_sent [simp]:
  "wSent w = Some x \<Longrightarrow> wSent (Write bs w) = Some x" "wBody (Write bs w) = wBody w @ bs"
  "wSent w = None \<Longrightarrow> wSent (Write bs w) = Some (200, wHeader w)"
  by (simp_all add: Write_def Let_def)

lemma EncodeTo_sent [simp]:
  "wSent w = Some x \<Longrightarrow> wSent (EncodeTo v w) = Some x"
  "wSent w = None \<Longrightarrow> wSent (EncodeTo v w) = Some (200, wHeader w)"
  by (simp_all add: EncodeTo_def)

section \<open>Strings\<close>

definition HasPrefix :: "string \<Rightarrow> string \<Rightarrow> bool" where
  "HasPrefix s p \<longleftrightarrow> take (length p) s = p"

definition TrimPrefix :: "string \<Rightarrow> string \<Rightarrow> string" where
  "TrimPrefix s p = (if HasPrefix s p then drop (length p) s else s)"

lemma TrimPrefix_iff: "HasPrefix s p \<and> TrimPrefix s p = t \<longleftrightarrow> s = p @ t"
  by (auto simp: HasPrefix_def TrimPrefix_def) (metis append_take_drop_id)

text \<open>The text before and after the first occurrence of a character, if there is one.\<close>

definition cutFirst :: "char \<Rightarrow> string \<Rightarrow> (string \<times> string) option" where
  "cutFirst c s = (if c \<in> set s then Some (takeWhile (\<lambda>x. x \<noteq> c) s, tl (dropWhile (\<lambda>x. x \<noteq> c) s)) else None)"

lemma cutFirst_append: "c \<notin> set k \<Longrightarrow> cutFirst c (k @ c # v) = Some (k, v)"
  by (induction k) (auto simp: cutFirst_def)

definition cutLast :: "char \<Rightarrow> string \<Rightarrow> string option" where
  "cutLast c s = map_option (\<lambda>p. rev (snd p)) (cutFirst c (rev s))"

fun splitOn :: "char \<Rightarrow> string \<Rightarrow> string list" where
  "splitOn c [] = [[]]"
| "splitOn c (x # xs) =
     (if x = c then [] # splitOn c xs
      else (case splitOn c xs of [] \<Rightarrow> [[x]] | s # ss \<Rightarrow> (x # s) # ss))"

section \<open>Integers read with \<^verbatim>\<open>Sscanf\<close>\<close>

text \<open>
  \<^verbatim>\<open>fmt.Sscanf(s, "%d", &n)\<close>: leading white space other than a newline is skipped, then an
  optional sign and the longest run of digits are read; the rest of the text is ignored.
  Without a digit, or out of the range of \<^verbatim>\<open>int64\<close>, nothing is assigned.
\<close>

definition isScanSpace :: "nat \<Rightarrow> bool" where
  "isScanSpace r \<longleftrightarrow> r = 9 \<or> (11 \<le> r \<and> r \<le> 13) \<or> r = 32 \<or> r = 133 \<or> r = 160 \<or> r = 5760 \<or>
     (8192 \<le> r \<and> r \<le> 8202) \<or> r = 8232 \<or> r = 8233 \<or> r = 8239 \<or> r = 8287 \<or> r = 12288"

function skipScanSpace :: "string \<Rightarrow> string" where
  "skipScanSpace [] = []"
| "skipScanSpace (c # cs) =
     (if byte c < 128 then (if isScanSpace (byte c) then skipScanSpace cs else c # cs)
      else (case DecodeRune (c # cs) of
              Some (r, n) \<Rightarrow> if isScanSpace r then skipScanSpace (drop (n - 1) cs) else c # cs
            | None \<Rightarrow> c # cs))"
  by pat_completeness auto
termination
  by (relation "measure length") auto

definition Sscanf_d :: "string \<Rightarrow> int \<Rightarrow> int" where
  "Sscanf_d s old =
     (let t = skipScanSpace s;
          neg = (t \<noteq> [] \<and> hd t = CHR ''-'');
          ds = takeWhile isDigit (if t \<noteq> [] \<and> (hd t = CHR ''-'' \<or> hd t = CHR ''+'') then tl t else t)
      in case ParseInt (if neg then CHR ''-'' # ds else ds) of Some v \<Rightarrow> v | None \<Rightarrow> old)"

end
