(* ===== verification/Api.thy ===== *)
theory Api
  imports Complex_Main Http Reads
begin

text \<open>
  The HTTP interface of a node (\<^verbatim>\<open>src/api/api.go\<close>): the rate limiter, authentication, the
  key-value and administration handlers, and the routing. A handler turns a request and a
  response writer into the writer at its end. What it asks of the Raft node is a record of
  the node's answers, so that a handler can be put before any node; theory \<open>Service\<close> puts
  it before the node model. The limiter counts in exact rational numbers where the code has
  \<^verbatim>\<open>float64\<close>; times are in seconds. Request metrics and log output are not modelled here.
\<close>

section \<open>Rate limiter\<close>

record RateLimiter =
  rate :: rat
  capacity :: rat
  tokens :: rat
  lastRefilled :: rat

definition NewRateLimiter :: "rat \<Rightarrow> rat \<Rightarrow> rat \<Rightarrow> RateLimiter" where
  "NewRateLimiter rt cap now = \<lparr>rate = rt, capacity = cap, tokens = cap, lastRefilled = now\<rparr>"

definition Allow :: "rat \<Rightarrow> RateLimiter \<Rightarrow> RateLimiter \<times> bool" where
  "Allow now l =
     (let elapsed = now - lastRefilled l;
          t1 = tokens l + elapsed * rate l;
          t2 = (if t1 > capacity l then capacity l else t1);
          l1 = l\<lparr>lastRefilled := now, tokens := t2\<rparr>
      in if t2 \<ge> 1 then (l1\<lparr>tokens := t2 - 1\<rparr>, True) else (l1, False))"

section \<open>The server\<close>

record Server =
  authToken :: string
  adminToken :: string
  allowUnauthenticatedReads :: bool
  limiter :: RateLimiter

definition NewServer :: "string \<Rightarrow> string \<Rightarrow> bool \<Rightarrow> rat \<Rightarrow> Server" where
  "NewServer auth admin allowReadsUnauth now =
     \<lparr>authToken = auth, adminToken = admin, allowUnauthenticatedReads = allowReadsUnauth,
      limiter = NewRateLimiter 50 100 now\<rparr>"

text \<open>What the handlers learn from the node: the results of the calls they may make.\<close>

record backend =
  bkIsLeader :: "bool \<times> string"
  bkPeerHTTP :: strmap
  bkGet :: "string \<Rightarrow> string \<times> bool \<times> bool"
  bkPropose :: "string \<Rightarrow> string \<Rightarrow> string \<Rightarrow> string \<Rightarrow> int \<Rightarrow> bool \<times> string option"
  bkProposeConfig :: "ConfigChangeRequest \<Rightarrow> bool \<times> string option"
  bkIsLeaderAfter :: "bool \<times> string"
  bkStatus :: status
  bkMetrics :: string

definition MaxKeySize :: nat where "MaxKeySize = 1024"

definition MaxValueSize :: nat where "MaxValueSize = 1048576"

section \<open>Authentication\<close>

text \<open>The comparison with a token: \<open>None\<close> is accepted, \<open>Some\<close> is the error message.\<close>

definition checkBearer :: "string \<Rightarrow> string \<Rightarrow> string \<Rightarrow> string option" where
  "checkBearer authHeader token invalid =
     (if authHeader = [] then Some ''{\"error\": \"unauthorized, missing authorization header\"}''
      else if \<not> HasPrefix authHeader ''Bearer '' then Some ''{\"error\": \"unauthorized, invalid authorization format\"}''
      else if TrimPrefix authHeader ''Bearer '' \<noteq> token then Some invalid
      else None)"

definition authenticate :: "Server \<Rightarrow> request \<Rightarrow> string option" where
  "authenticate s r =
     (if rqMethod r = ''GET'' \<and> allowUnauthenticatedReads s then None
      else if authToken s = [] then None
      else checkBearer (Header_Get (rqHeader r) ''Authorization'') (authToken s)
             ''{\"error\": \"unauthorized, invalid token\"}'')"

definition authenticateAdmin :: "Server \<Rightarrow> request \<Rightarrow> string option" where
  "authenticateAdmin s r =
     (let token = (if adminToken s = [] then authToken s else adminToken s)
      in if token = [] then None
         else checkBearer (Header_Get (rqHeader r) ''Authorization'') token
                ''{\"error\": \"unauthorized, invalid admin token\"}'')"

section \<open>Client metadata\<close>

record jsonPayload =
  plClientID :: string
  plRequestID :: int
  plValue :: string
  plVal :: string

definition setPayloadField :: "string \<Rightarrow> json \<Rightarrow> jsonPayload \<Rightarrow> jsonPayload option" where
  "setPayloadField n v p =
     (if n = ''client_id'' then map_option (\<lambda>s. p\<lparr>plClientID := s\<rparr>) (setStr v (plClientID p))
      else if n = ''request_id'' then map_option (\<lambda>i. p\<lparr>plRequestID := i\<rparr>) (setInt v (plRequestID p))
      else if n = ''value'' then map_option (\<lambda>s. p\<lparr>plValue := s\<rparr>) (setStr v (plValue p))
      else map_option (\<lambda>s. p\<lparr>plVal := s\<rparr>) (setStr v (plVal p)))"

definition UnmarshalPayload :: "bytes \<Rightarrow> jsonPayload option" where
  "UnmarshalPayload body =
     (case json_parse body of
        None \<Rightarrow> None
      | Some v \<Rightarrow> decodeStruct [''client_id'', ''request_id'', ''value'', ''val''] setPayloadField v
                    \<lparr>plClientID = [], plRequestID = 0, plValue = [], plVal = []\<rparr>)"

definition extractClientMetadata :: "request \<Rightarrow> bytes \<Rightarrow> string \<times> int \<times> string" where
  "extractClientMetadata r body =
     (let cid = Header_Get (rqHeader r) ''X-Client-ID'';
          hid = Header_Get (rqHeader r) ''X-Request-ID'';
          rid = (if hid \<noteq> [] then Sscanf_d hid 0 else 0);
          cid1 = (if cid = [] then Query_Get (rqQuery r) ''client_id'' else cid);
          qid = Query_Get (rqQuery r) ''request_id'';
          rid1 = (if rid = 0 \<and> qid \<noteq> [] then Sscanf_d qid rid else rid)
      in if body = [] then (cid1, rid1, body)
         else (case UnmarshalPayload body of
                 None \<Rightarrow> (cid1, rid1, body)
               | Some p \<Rightarrow>
                   (if plClientID p \<noteq> [] then plClientID p else cid1,
                    if plRequestID p > 0 then plRequestID p else rid1,
                    if plValue p \<noteq> [] then plValue p else if plVal p \<noteq> [] then plVal p else body)))"

section \<open>Key-value handlers\<close>

definition handleGet :: "backend \<Rightarrow> string \<Rightarrow> writer \<Rightarrow> writer" where
  "handleGet b key w =
     (case bkGet b key of (val, ok, isLeader) \<Rightarrow>
        if \<not> isLeader then http_Error ''{\"error\": \"not the leader\"}'' 503 w
        else if \<not> ok then http_Error ''{\"error\": \"key not found\"}'' 404 w
        else EncodeTo (encMap JStr [(''key'', key), (''value'', val)])
               (SetHeader ''Content-Type'' ''application/json'' w))"

text \<open>The answer to a proposal; the content type is set after the status has been written.\<close>

definition answerWrite :: "bool \<times> string option \<Rightarrow> writer \<Rightarrow> writer" where
  "answerWrite res w =
     (case res of (ok, e) \<Rightarrow>
        (case e of
           Some msg \<Rightarrow> http_Error (''{\"error\": \"'' @ msg @ ''\"}'') 500 w
         | None \<Rightarrow>
             if \<not> ok then http_Error ''{\"error\": \"propose failed to commit\"}'' 500 w
             else Write ''{\"status\": \"ok\"}''
                    (SetHeader ''Content-Type'' ''application/json'' (WriteHeader 200 w))))"

definition handlePut :: "backend \<Rightarrow> request \<Rightarrow> string \<Rightarrow> writer \<Rightarrow> writer" where
  "handlePut b r key w =
     (case readLimited (MaxValueSize + 1) (rqBody r) of
        (body, Some e) \<Rightarrow> http_Error ''{\"error\": \"failed to read body\"}'' 400 w
      | (body, None) \<Rightarrow>
          if length body > MaxValueSize
          then http_Error ''{\"error\": \"value size exceeds maximum allowed size\"}'' 400 w
          else (case extractClientMetadata r body of (clientID, requestID, val) \<Rightarrow>
                  answerWrite (bkPropose b ''PUT'' key val clientID requestID) w))"

definition handleDelete :: "backend \<Rightarrow> request \<Rightarrow> string \<Rightarrow> writer \<Rightarrow> writer" where
  "handleDelete b r key w =
     (case readLimited (MaxValueSize + 1) (rqBody r) of
        (body, _) \<Rightarrow>
          (case extractClientMetadata r body of (clientID, requestID, _) \<Rightarrow>
             answerWrite (bkPropose b ''DEL'' key [] clientID requestID) w))"

definition serveKey :: "Server \<Rightarrow> backend \<Rightarrow> request \<Rightarrow> writer \<Rightarrow> writer" where
  "serveKey s b r w =
     (let key = TrimPrefix (rqPath r) ''/kv/''
      in if key = [] then http_Error ''{\"error\": \"key required\"}'' 400 w
         else if length key > MaxKeySize
         then http_Error ''{\"error\": \"key size exceeds maximum allowed size\"}'' 400 w
         else (case authenticate s r of
                 Some msg \<Rightarrow> http_Error msg 401 w
               | None \<Rightarrow>
                   if \<not> fst (bkIsLeader b)
                   then (case map_of (bkPeerHTTP b) (snd (bkIsLeader b)) of
                           Some addr \<Rightarrow>
                             if addr \<noteq> []
                             then WriteHeader 307 (SetHeader ''Location'' (''http://'' @ addr @ ''/kv/'' @ key) w)
                             else http_Error ''{\"error\": \"not the leader, leader election in progress\"}'' 503 w
                         | None \<Rightarrow> http_Error ''{\"error\": \"not the leader, leader election in progress\"}'' 503 w)
                   else if rqMethod r = ''GET'' then handleGet b key w
                   else if rqMethod r = ''PUT'' then handlePut b r key w
                   else if rqMethod r = ''DELETE'' then handleDelete b r key w
                   else http_Error ''{\"error\": \"method not allowed\"}'' 405 w))"

definition handleKV :: "rat \<Rightarrow> backend \<Rightarrow> request \<Rightarrow> Server \<times> writer \<Rightarrow> Server \<times> writer" where
  "handleKV now b r sw =
     (case sw of (s, w) \<Rightarrow>
        (case Allow now (limiter s) of
           (l, ok) \<Rightarrow>
             let s1 = s\<lparr>limiter := l\<rparr>
             in if \<not> ok
                then (s1, http_Error ''{\"error\": \"too many requests, rate limit exceeded\"}'' 429 w)
                else (s1, serveKey s1 b r w)))"

section \<open>Status and administration\<close>

definition handleHealthz :: "writer \<Rightarrow> writer" where
  "handleHealthz w =
     Write ''{\"status\": \"healthy\"}'' (WriteHeader 200 (SetHeader ''Content-Type'' ''application/json'' w))"

definition handleRoot :: "backend \<Rightarrow> request \<Rightarrow> writer \<Rightarrow> writer" where
  "handleRoot b r w =
     (if rqPath r \<noteq> ''/'' then http_Error ''404 page not found'' 404 w
      else EncodeTo (encMap JStr
             [(''service'', ''Distributed Key-Value Store with Raft Consensus''),
              (''node_id'', stNodeId (bkStatus b)), (''status_url'', ''/status''),
              (''metrics_url'', ''/metrics''), (''health_url'', ''/healthz''), (''kv_api'', ''/kv/{key}'')])
             (WriteHeader 200 (SetHeader ''Content-Type'' ''application/json'' w)))"

definition jsonStatus :: "status \<Rightarrow> json" where
  "jsonStatus st = encMap (\<lambda>v. v)
     [(''node_id'', JStr (stNodeId st)), (''role'', JStr (stRole st)),
      (''current_term'', JNum (FormatInt (stTerm st))), (''commit_index'', JNum (FormatInt (stCommitIndex st))),
      (''last_applied'', JNum (FormatInt (stLastApplied st))), (''log_length'', JNum (FormatInt (stLogLength st))),
      (''voted_for'', JStr (stVotedFor st)), (''cluster_members'', JArr (map JStr (stMembers st))),
      (''cluster_size'', JNum (FormatInt (int (stSize st)))), (''joint_consensus'', JBool (stJoint st)),
      (''pending_config_change'', JBool (stPending st))]"

definition handleStatus :: "backend \<Rightarrow> request \<Rightarrow> writer \<Rightarrow> writer" where
  "handleStatus b r w =
     (if rqMethod r \<noteq> ''GET'' then http_Error ''{\"error\": \"method not allowed\"}'' 405 w
      else EncodeTo (jsonStatus (bkStatus b))
             (WriteHeader 200 (SetHeader ''Content-Type'' ''application/json'' w)))"

text \<open>The request of an administration call: its fields, and the decoding of a body.\<close>

record nodeReq =
  nrID :: string
  nrGRPCAddr :: string
  nrHTTPAddr :: string

definition setNodeField :: "string \<Rightarrow> json \<Rightarrow> nodeReq \<Rightarrow> nodeReq option" where
  "setNodeField n v q =
     (if n = ''id'' then map_option (\<lambda>s. q\<lparr>nrID := s\<rparr>) (setStr v (nrID q))
      else if n = ''grpc_addr'' then map_option (\<lambda>s. q\<lparr>nrGRPCAddr := s\<rparr>) (setStr v (nrGRPCAddr q))
      else map_option (\<lambda>s. q\<lparr>nrHTTPAddr := s\<rparr>) (setStr v (nrHTTPAddr q)))"

definition DecodeBody :: "bytes \<times> string option \<Rightarrow> json option" where
  "DecodeBody b =
     (case DecodeFirst (fst b) of
        Some (JObj ms) \<Rightarrow> Some (JObj ms)
      | Some v \<Rightarrow> if snd b = None then Some v else None
      | None \<Rightarrow> None)"

definition decodeNodeReq :: "string list \<Rightarrow> bytes \<times> string option \<Rightarrow> nodeReq option" where
  "decodeNodeReq names b =
     (case DecodeBody b of
        None \<Rightarrow> None
      | Some v \<Rightarrow> decodeStruct names setNodeField v \<lparr>nrID = [], nrGRPCAddr = [], nrHTTPAddr = []\<rparr>)"

definition answerConfigChange :: "backend \<Rightarrow> bool \<times> string option \<Rightarrow> writer \<Rightarrow> writer" where
  "answerConfigChange b res w =
     (case res of (ok, e) \<Rightarrow>
        (case e of
           Some msg \<Rightarrow>
             if \<not> fst (bkIsLeaderAfter b)
             then EncodeTo (encMap (\<lambda>v. v) [(''success'', JBool False), (''error'', JStr ''not the leader''),
                              (''leader_id'', JStr (snd (bkIsLeaderAfter b)))])
                    (WriteHeader 503 (SetHeader ''Content-Type'' ''application/json'' w))
             else EncodeTo (encMap (\<lambda>v. v) [(''success'', JBool False), (''error'', JStr msg)])
                    (WriteHeader 500 (SetHeader ''Content-Type'' ''application/json'' w))
         | None \<Rightarrow> EncodeTo (encMap JBool [(''success'', ok)])
                    (WriteHeader 200 (SetHeader ''Content-Type'' ''application/json'' w))))"

definition handleAddNode :: "Server \<Rightarrow> backend \<Rightarrow> request \<Rightarrow> writer \<Rightarrow> writer" where
  "handleAddNode s b r w =
     (if rqMethod r \<noteq> ''POST'' then http_Error ''{\"error\": \"method not allowed\"}'' 405 w
      else (case authenticateAdmin s r of
              Some msg \<Rightarrow> http_Error msg 401 w
            | None \<Rightarrow>
                (case decodeNodeReq [''id'', ''grpc_addr'', ''http_addr''] (rqBody r) of
                   None \<Rightarrow> http_Error ''{\"error\": \"invalid request body\"}'' 400 w
                 | Some q \<Rightarrow>
                     if nrID q = [] \<or> nrGRPCAddr q = []
                     then http_Error ''{\"error\": \"id and grpc_addr are required\"}'' 400 w
                     else answerConfigChange b (bkProposeConfig b
                            \<lparr>NodeID = nrID q, GRPCAddr = nrGRPCAddr q, HTTPAddr = nrHTTPAddr q, Remove = False\<rparr>) w)))"

definition handleRemoveNode :: "Server \<Rightarrow> backend \<Rightarrow> request \<Rightarrow> writer \<Rightarrow> writer" where
  "handleRemoveNode s b r w =
     (if rqMethod r \<noteq> ''POST'' then http_Error ''{\"error\": \"method not allowed\"}'' 405 w
      else (case authenticateAdmin s r of
              Some msg \<Rightarrow> http_Error msg 401 w
            | None \<Rightarrow>
                (case decodeNodeReq [''id''] (rqBody r) of
                   None \<Rightarrow> http_Error ''{\"error\": \"invalid request body\"}'' 400 w
                 | Some q \<Rightarrow>
                     if nrID q = [] then http_Error ''{\"error\": \"id is required\"}'' 400 w
                     else answerConfigChange b (bkProposeConfig b
                            \<lparr>NodeID = nrID q, GRPCAddr = [], HTTPAddr = [], Remove = True\<rparr>) w)))"

section \<open>Routing\<close>

definition MetricsHandler :: "string \<Rightarrow> writer \<Rightarrow> writer" where
  "MetricsHandler text w =
     Write text (WriteHeader 200 (SetHeader ''Content-Type'' ''text/plain; version=0.0.4; charset=utf-8'' w))"

text \<open>
  The dispatch of the \<^verbatim>\<open>ServeMux\<close> that \<^verbatim>\<open>Start\<close> builds. The paths that the library itself answers
  with a redirect before it dispatches (\<^verbatim>\<open>/kv\<close>, and paths with empty or dot segments) are left
  out.
\<close>

definition serveMux :: "rat \<Rightarrow> backend \<Rightarrow> request \<Rightarrow> Server \<times> writer \<Rightarrow> Server \<times> writer" where
  "serveMux now b r sw =
     (case sw of (s, w) \<Rightarrow>
        if rqPath r = ''/healthz'' then (s, handleHealthz w)
        else if rqPath r = ''/status'' then (s, handleStatus b r w)
        else if rqPath r = ''/admin/addnode'' then (s, handleAddNode s b r w)
        else if rqPath r = ''/admin/removenode'' then (s, handleRemoveNode s b r w)
        else if rqPath r = ''/metrics'' then (s, MetricsHandler (bkMetrics b) w)
        else if HasPrefix (rqPath r) ''/kv/'' then handleKV now b r sw
        else (s, handleRoot b r w))"

definition corsHeaders :: "writer \<Rightarrow> writer" where
  "corsHeaders w =
     SetHeader ''Access-Control-Allow-Headers'' ''Content-Type, Authorization, X-Client-ID, X-Request-ID''
       (SetHeader ''Access-Control-Allow-Methods'' ''GET, POST, PUT, DELETE, OPTIONS''
         (SetHeader ''Access-Control-Allow-Origin'' ''*'' w))"

text \<open>
  \<^verbatim>\<open>recoveryMiddleware\<close> around a handler: \<open>Inl w\<close> is a handler that panicked after writing \<open>w\<close>.
\<close>

definition recoveryMiddleware :: "(request \<Rightarrow> writer \<Rightarrow> writer + writer) \<Rightarrow> request \<Rightarrow> writer \<Rightarrow> writer" where
  "recoveryMiddleware handler r w0 =
     (let w = corsHeaders w0
      in if rqMethod r = ''OPTIONS'' then WriteHeader 200 w
         else (case handler r w of
                 Inr w1 \<Rightarrow> w1
               | Inl w1 \<Rightarrow> Write ''{\"error\": \"internal server error\"}''
                             (WriteHeader 500 (SetHeader ''Content-Type'' ''application/json'' w1))))"

definition serveAPI :: "rat \<Rightarrow> backend \<Rightarrow> request \<Rightarrow> Server \<Rightarrow> Server \<times> writer" where
  "serveAPI now b r s =
     ((if rqMethod r = ''OPTIONS'' then s else fst (serveMux now b r (s, freshWriter))),
      recoveryMiddleware (\<lambda>r w. Inr (snd (serveMux now b r (s, w)))) r freshWriter)"

section \<open>The token bucket\<close>

text \<open>A run of the limiter over the times of the calls: the limiter at the end, and how many were allowed.\<close>

fun allowAll :: "rat list \<Rightarrow> RateLimiter \<Rightarrow> RateLimiter" where
  "allowAll [] l = l"
| "allowAll (t # ts) l = allowAll ts (fst (Allow t l))"

fun allowed :: "rat list \<Rightarrow> RateLimiter \<Rightarrow> nat" where
  "allowed [] l = 0"
| "allowed (t # ts) l = (if snd (Allow t l) then 1 else 0) + allowed ts (fst (Allow t l))"

lemma Allow_frame [simp]:
  "rate (fst (Allow t l)) = rate l" "capacity (fst (Allow t l)) = capacity l" "lastRefilled (fst (Allow t l)) = t"
  by (simp_all add: Allow_def Let_def)

definition bucket_ok :: "RateLimiter \<Rightarrow> bool" where
  "bucket_ok l \<longleftrightarrow> 0 \<le> rate l \<and> 0 \<le> tokens l \<and> tokens l \<le> capacity l"

lemma Allow_bucket: "bucket_ok l \<Longrightarrow> lastRefilled l \<le> t \<Longrightarrow> bucket_ok (fst (Allow t l))"
  by (auto simp: bucket_ok_def Allow_def Let_def)

lemma allowAll_ok:
  "bucket_ok l \<Longrightarrow> sorted (lastRefilled l # ts) \<Longrightarrow>
   bucket_ok (allowAll ts l) \<and> rate (allowAll ts l) = rate l \<and> capacity (allowAll ts l) = capacity l \<and>
   lastRefilled (allowAll ts l) = last (lastRefilled l # ts)"
  by (induction ts arbitrary: l) (auto simp: Allow_bucket)

text \<open>One call: what is allowed is paid for by tokens and by the time that has passed.\<close>

lemma Allow_pays:
  "(if snd (Allow t l) then 1 else 0) + tokens (fst (Allow t l)) \<le> tokens l + rate l * (t - lastRefilled l)"
  "(if snd (Allow t l) then 1 else 0) + tokens (fst (Allow t l)) \<le> capacity l"
  by (auto simp: Allow_def Let_def algebra_simps)

lemma allowed_bound:
  "bucket_ok l \<Longrightarrow> sorted (lastRefilled l # ts) \<Longrightarrow>
   of_nat (allowed ts l) + tokens (allowAll ts l) \<le> tokens l + rate l * (last (lastRefilled l # ts) - lastRefilled l)"
proof (induction ts arbitrary: l)
  case (Cons t ts)
  let ?l = "fst (Allow t l)"
  have "of_nat (allowed ts ?l) + tokens (allowAll ts ?l) \<le> tokens ?l + rate l * (last (t # ts) - t)"
    using Cons.IH [of ?l] Cons.prems by (simp add: Allow_bucket)
  moreover note Allow_pays(1) [of t l]
  moreover have "rate l * (last (t # ts) - t) + rate l * (t - lastRefilled l) = rate l * (last (t # ts) - lastRefilled l)"
    by (simp add: algebra_simps)
  ultimately show ?case by (cases "ts = []"; cases "snd (Allow t l)") simp_all
qed simp

text \<open>A window of calls that begins at time \<open>t\<close>: at most the capacity and what flows in meanwhile.\<close>

lemma allowed_within:
  assumes "bucket_ok l" "sorted (lastRefilled l # t # window)"
  shows "of_nat (allowed (t # window) l) \<le> capacity l + rate l * (last (t # window) - t)"
proof -
  let ?l = "fst (Allow t l)"
  have b: "bucket_ok ?l" using assms by (simp add: Allow_bucket)
  moreover have "sorted (lastRefilled ?l # window)" using assms(2) by simp
  ultimately have "of_nat (allowed window ?l) \<le> tokens ?l + rate l * (last (t # window) - t)"
    using allowed_bound [of ?l window] allowAll_ok [of ?l window] by (simp add: bucket_ok_def)
  then show ?thesis using Allow_pays(2) [of t l] by (simp split: if_splits)
qed

section \<open>Properties\<close>

text \<open>
  C25. The rate limit holds over every window: whatever calls came before, of the calls of a
  window that begins at time \<open>t\<close> at most \<open>capacity + rate * (length of the window)\<close> are allowed.
\<close>

theorem rate_limit_window:
  assumes "0 \<le> rt" "0 \<le> cap" "sorted (t0 # before @ t # window)"
  shows "of_nat (allowed (t # window) (allowAll before (NewRateLimiter rt cap t0)))
    \<le> cap + rt * (last (t # window) - t)"
proof -
  let ?n = "NewRateLimiter rt cap t0"
  let ?l = "allowAll before ?n"
  have "bucket_ok ?n" using assms(1,2) by (simp add: bucket_ok_def NewRateLimiter_def)
  moreover have "sorted (lastRefilled ?n # before)"
    using assms(3) by (simp add: NewRateLimiter_def sorted_append)
  ultimately have l: "bucket_ok ?l" "rate ?l = rt" "capacity ?l = cap" "lastRefilled ?l = last (t0 # before)"
    using allowAll_ok [of ?n before] by (auto simp: NewRateLimiter_def)
  moreover have "last (t0 # before) \<le> t" using assms(3) by (auto simp: sorted_append)
  ultimately show ?thesis using allowed_within [of ?l t window] assms(3) by (simp add: sorted_append)
qed

theorem rate_limit_window_witness:
  "of_nat (allowed [1, 1, 3] (allowAll [0, 1] (NewRateLimiter 1 2 0))) \<le> (2 :: rat) + 1 * (3 - 1)"
  using rate_limit_window [of 1 2 0 "[0, 1]" 1 "[1, 3]"] by simp


lemma checkBearer_iff: "checkBearer h token msg = None \<longleftrightarrow> h = ''Bearer '' @ token"
proof -
  have "checkBearer h token msg = None \<longleftrightarrow> h \<noteq> [] \<and> HasPrefix h ''Bearer '' \<and> TrimPrefix h ''Bearer '' = token"
    unfolding checkBearer_def by simp
  also have "\<dots> \<longleftrightarrow> h \<noteq> [] \<and> h = ''Bearer '' @ token" unfolding TrimPrefix_iff ..
  finally show ?thesis by auto
qed

lemma authenticate_iff:
  "authenticate s r = None \<longleftrightarrow> rqMethod r = ''GET'' \<and> allowUnauthenticatedReads s \<or> authToken s = [] \<or>
     Header_Get (rqHeader r) ''Authorization'' = ''Bearer '' @ authToken s"
  unfolding authenticate_def by (simp only: checkBearer_iff split: if_split) blast

lemma authenticateAdmin_iff:
  "authenticateAdmin s r = None \<longleftrightarrow> adminToken s = [] \<and> authToken s = [] \<or>
     Header_Get (rqHeader r) ''Authorization'' =
       ''Bearer '' @ (if adminToken s = [] then authToken s else adminToken s)"
  unfolding authenticateAdmin_def Let_def by (simp only: checkBearer_iff split: if_split) blast

text \<open>A request without the right token ends before the node is asked anything.\<close>

definition refused :: "(backend \<Rightarrow> writer \<Rightarrow> writer) \<Rightarrow> bool" where
  "refused f \<longleftrightarrow> (\<exists>msg code. 400 \<le> code \<and> (\<forall>b w. f b w = http_Error msg code w))"

lemma refused_error [simp]: "400 \<le> code \<Longrightarrow> refused (\<lambda>b. http_Error msg code)"
  by (auto simp: refused_def)

lemma refused_if: "(c \<Longrightarrow> refused f) \<Longrightarrow> (\<not> c \<Longrightarrow> refused g) \<Longrightarrow> refused (\<lambda>b w. if c then f b w else g b w)"
  by (cases c) simp_all

lemma serveKey_refused: "authenticate s r \<noteq> None \<Longrightarrow> refused (\<lambda>b w. serveKey s b r w)"
  unfolding serveKey_def Let_def by (intro refused_if) auto

lemma admin_refused:
  assumes "authenticateAdmin s r \<noteq> None"
  shows "refused (\<lambda>b w. handleAddNode s b r w)" "refused (\<lambda>b w. handleRemoveNode s b r w)"
  using assms unfolding handleAddNode_def handleRemoveNode_def by (intro refused_if; auto)+

lemma handleKV_eq:
  "handleKV now b r (s, w) =
     (let s1 = s\<lparr>limiter := fst (Allow now (limiter s))\<rparr>
      in (s1, if \<not> snd (Allow now (limiter s))
              then http_Error ''{\"error\": \"too many requests, rate limit exceeded\"}'' 429 w
              else serveKey s1 b r w))"
  unfolding handleKV_def by (simp add: Let_def split: prod.split)

lemma corsHeaders_sent [simp]: "wSent (corsHeaders w) = wSent w"
  by (simp add: corsHeaders_def)

text \<open>
  C21. Access control: when a token is set, a key-value request other than an open read whose
  Authorization header is not exactly the bearer token, and an administration request whose
  header is not exactly the administration token (or the general one if there is no other),
  never reach the Raft node: the answer is the same whatever the node would say, and it is
  an error.
\<close>

theorem access_control:
  assumes "rqMethod r \<noteq> ''OPTIONS''"
    and "HasPrefix (rqPath r) ''/kv/'' \<and> authToken s \<noteq> [] \<and>
        \<not> (rqMethod r = ''GET'' \<and> allowUnauthenticatedReads s) \<and>
        Header_Get (rqHeader r) ''Authorization'' \<noteq> ''Bearer '' @ authToken s \<or>
      rqPath r \<in> {''/admin/addnode'', ''/admin/removenode''} \<and> (adminToken s \<noteq> [] \<or> authToken s \<noteq> []) \<and>
        Header_Get (rqHeader r) ''Authorization'' \<noteq>
          ''Bearer '' @ (if adminToken s = [] then authToken s else adminToken s)"
  shows "serveAPI now b r s = serveAPI now b' r s \<and> 400 \<le> statusOf (snd (serveAPI now b r s))"
proof -
  let ?w = "corsHeaders freshWriter"
  have fresh: "wSent ?w = None" by (simp add: freshWriter_def)
  let ?auth = "Header_Get (rqHeader r) ''Authorization''"
  from assms(2) consider
    (kv) "HasPrefix (rqPath r) ''/kv/''" "authToken s \<noteq> []"
      "\<not> (rqMethod r = ''GET'' \<and> allowUnauthenticatedReads s)" "?auth \<noteq> ''Bearer '' @ authToken s"
    | (admin) "rqPath r \<in> {''/admin/addnode'', ''/admin/removenode''}" "authenticateAdmin s r \<noteq> None"
    unfolding authenticateAdmin_iff by blast
  then have "\<exists>s'. (\<forall>b w. fst (serveMux now b r (s, w)) = s') \<and> refused (\<lambda>b w. snd (serveMux now b r (s, w)))"
  proof cases
    case kv
    then have "authenticate (s\<lparr>limiter := l\<rparr>) r \<noteq> None" for l
      using authenticate_iff [of "s\<lparr>limiter := l\<rparr>" r] by simp
    then have key: "refused (\<lambda>b w. serveKey (s\<lparr>limiter := l\<rparr>) b r w)" for l by (rule serveKey_refused)
    have "serveMux now b r (s, w) = handleKV now b r (s, w)" for b w
      using kv(1) by (auto simp: serveMux_def HasPrefix_def)
    moreover have "refused (\<lambda>b w. snd (handleKV now b r (s, w)))"
      unfolding handleKV_eq Let_def snd_conv by (intro refused_if refused_error key) simp
    ultimately show ?thesis by (simp add: handleKV_eq Let_def)
  next
    case admin
    with admin_refused show ?thesis by (auto simp: serveMux_def)
  qed
  then obtain s' msg code where e: "400 \<le> code" "\<And>b w. fst (serveMux now b r (s, w)) = s'"
    "\<And>b w. snd (serveMux now b r (s, w)) = http_Error msg code w"
    unfolding refused_def by blast
  then show ?thesis
    using assms(1) fresh by (simp add: serveAPI_def recoveryMiddleware_def Let_def)
qed


definition demo_server :: Server where
  "demo_server = NewServer ''secret'' [] True 0"

definition demo_put :: request where
  "demo_put = \<lparr>rqMethod = ''PUT'', rqPath = ''/kv/k'', rqQuery = [], rqRawQuery = [],
     rqHeader = [(''Authorization'', [''Bearer guess''])], rqBody = (''v'', None), rqRemoteAddr = ''h:1''\<rparr>"

theorem access_control_witness:
  "\<forall>b b'. serveAPI 1 b demo_put demo_server = serveAPI 1 b' demo_put demo_server \<and>
     400 \<le> statusOf (snd (serveAPI 1 b demo_put demo_server))"
proof -
  have "HasPrefix (rqPath demo_put) ''/kv/'' \<and> authToken demo_server \<noteq> [] \<and>
      \<not> (rqMethod demo_put = ''GET'' \<and> allowUnauthenticatedReads demo_server) \<and>
      Header_Get (rqHeader demo_put) ''Authorization'' \<noteq> ''Bearer '' @ authToken demo_server"
    by code_simp
  then show ?thesis
    using access_control [of demo_put demo_server 1] by (simp add: demo_put_def)
qed

end
