(* ===== verification/Gateway.thy ===== *)
theory Gateway
  imports Api
begin

text \<open>
  The gateway in front of a cluster (\<^verbatim>\<open>src/gateway/gateway.go\<close>): it polls the nodes for their
  status, keeps track of the leader, forwards key-value and administration requests to it,
  merges the metrics of the nodes, and pushes the state of the cluster to its event streams.

  The HTTP client is a parameter: a record of what its calls return. A handler returns the
  gateway, the response writer and the list of the requests that it has sent to nodes. A time
  stamp is its JSON text. The files of the frontend are a parameter as well.
\<close>

section \<open>State\<close>

text \<open>A slice that may be nil is an option, since JSON tells nil and empty apart.\<close>

record NodeStatus =
  nsNodeID :: string
  nsRole :: string
  nsCurrentTerm :: int
  nsCommitIndex :: int
  nsLastApplied :: int
  nsLogLength :: int
  nsVotedFor :: string
  nsClusterMembers :: "string list option"
  nsClusterSize :: int
  nsJointConsensus :: bool
  nsPendingConfigChange :: bool

definition zeroStatus :: NodeStatus where
  "zeroStatus = \<lparr>nsNodeID = [], nsRole = [], nsCurrentTerm = 0, nsCommitIndex = 0, nsLastApplied = 0,
     nsLogLength = 0, nsVotedFor = [], nsClusterMembers = None, nsClusterSize = 0,
     nsJointConsensus = False, nsPendingConfigChange = False\<rparr>"

text \<open>The nodes of an overview are appended one by one, so the slice is nil exactly if it is empty.\<close>

record ClusterOverview =
  ovNodes :: "NodeStatus list"
  ovLeaderID :: string
  ovLeaderURL :: string
  ovUpdatedAt :: string

definition zeroOverview :: ClusterOverview where
  "zeroOverview = \<lparr>ovNodes = [], ovLeaderID = [], ovLeaderURL = [], ovUpdatedAt = ''0001-01-01T00:00:00Z''\<rparr>"

record ClusterEvent =
  evType :: string
  evPayload :: ClusterOverview
  evTimestamp :: string

record gwConfig =
  NodeAddrs :: "string list"
  GatewayToken :: string
  ClusterToken :: string
  FrontendDir :: string
  PollInterval :: int

text \<open>
  An event stream is a number for its channel together with the events that are queued in
  it. The field \<^verbatim>\<open>nodeStatuses\<close> is never written.
\<close>

record Gateway =
  gwCfg :: gwConfig
  nodeStatuses :: "(string, NodeStatus) gomap"
  leaderAddr :: string
  gwLeaderID :: string
  gwOverview :: ClusterOverview
  sseClients :: "(nat, ClusterEvent list) gomap"
  reqIDCounter :: "64 word"

definition NewGateway :: "gwConfig \<Rightarrow> Gateway" where
  "NewGateway cfg =
     \<lparr>gwCfg = (if PollInterval cfg = 0 then cfg\<lparr>PollInterval := 1000000000\<rparr> else cfg),
      nodeStatuses = [], leaderAddr = [], gwLeaderID = [], gwOverview = zeroOverview, sseClients = [],
      reqIDCounter = 0\<rparr>"

text \<open>What the HTTP client returns: for a GET of a URL, and for a request to a node.\<close>

record response =
  rsStatusCode :: nat
  rsHeader :: header
  rsBody :: "bytes \<times> string option"

record client =
  clGet :: "string \<Rightarrow> response result"
  clBuild :: "string \<Rightarrow> bool"
  clDo :: "string \<Rightarrow> request \<Rightarrow> response result"

section \<open>Polling\<close>

text \<open>
  Decoding into a status. A member that is repeated decodes into the slice that is already
  there; that a null inside such a later array keeps the earlier element is not modelled.
\<close>

definition setStrs :: "json \<Rightarrow> string list option option" where
  "setStrs v =
     (case v of
        JNull \<Rightarrow> Some None
      | JArr vs \<Rightarrow> map_option Some (those (map (\<lambda>v. setStr v []) vs))
      | _ \<Rightarrow> None)"

definition setStatusField :: "string \<Rightarrow> json \<Rightarrow> NodeStatus \<Rightarrow> NodeStatus option" where
  "setStatusField n v s =
     (if n = ''node_id'' then map_option (\<lambda>x. s\<lparr>nsNodeID := x\<rparr>) (setStr v (nsNodeID s))
      else if n = ''role'' then map_option (\<lambda>x. s\<lparr>nsRole := x\<rparr>) (setStr v (nsRole s))
      else if n = ''current_term'' then map_option (\<lambda>x. s\<lparr>nsCurrentTerm := x\<rparr>) (setInt v (nsCurrentTerm s))
      else if n = ''commit_index'' then map_option (\<lambda>x. s\<lparr>nsCommitIndex := x\<rparr>) (setInt v (nsCommitIndex s))
      else if n = ''last_applied'' then map_option (\<lambda>x. s\<lparr>nsLastApplied := x\<rparr>) (setInt v (nsLastApplied s))
      else if n = ''log_length'' then map_option (\<lambda>x. s\<lparr>nsLogLength := x\<rparr>) (setInt v (nsLogLength s))
      else if n = ''voted_for'' then map_option (\<lambda>x. s\<lparr>nsVotedFor := x\<rparr>) (setStr v (nsVotedFor s))
      else if n = ''cluster_members'' then map_option (\<lambda>x. s\<lparr>nsClusterMembers := x\<rparr>) (setStrs v)
      else if n = ''cluster_size'' then map_option (\<lambda>x. s\<lparr>nsClusterSize := x\<rparr>) (setInt v (nsClusterSize s))
      else if n = ''joint_consensus'' then map_option (\<lambda>x. s\<lparr>nsJointConsensus := x\<rparr>) (setBool v (nsJointConsensus s))
      else map_option (\<lambda>x. s\<lparr>nsPendingConfigChange := x\<rparr>) (setBool v (nsPendingConfigChange s)))"

abbreviation statusFields :: "string list" where
  "statusFields \<equiv> [''node_id'', ''role'', ''current_term'', ''commit_index'', ''last_applied'', ''log_length'',
     ''voted_for'', ''cluster_members'', ''cluster_size'', ''joint_consensus'', ''pending_config_change'']"

definition fetchNodeStatus :: "client \<Rightarrow> string \<Rightarrow> NodeStatus result" where
  "fetchNodeStatus cl addr =
     (case clGet cl (''http://'' @ addr @ ''/status'') of
        Inl e \<Rightarrow> Inl e
      | Inr resp \<Rightarrow>
          (case DecodeBody (rsBody resp) of
             None \<Rightarrow> Inl ''json: cannot decode''
           | Some v \<Rightarrow>
               (case decodeStruct statusFields setStatusField v zeroStatus of
                  None \<Rightarrow> Inl ''json: cannot decode''
                | Some st \<Rightarrow> Inr st)))"

definition offlineStatus :: "nat \<Rightarrow> NodeStatus" where
  "offlineStatus i = zeroStatus\<lparr>nsNodeID := ''node'' @ show_nat (i + 1) @ ''(offline)''\<rparr>"

text \<open>The loop over the addresses: the statuses for the overview, and the leader's address and name.\<close>

fun scanNodes :: "nat \<Rightarrow> (string \<times> NodeStatus result) list \<Rightarrow> NodeStatus list \<times> string \<times> string \<Rightarrow>
  NodeStatus list \<times> string \<times> string" where
  "scanNodes i [] acc = acc"
| "scanNodes i ((addr, res) # rest) (nodes, lAddr, lID) =
     (let st = (case res of Inl _ \<Rightarrow> offlineStatus i | Inr st \<Rightarrow> st)
      in scanNodes (Suc i) rest
           (nodes @ [st],
            if nsRole st = ''leader'' then addr else lAddr,
            if nsRole st = ''leader'' then nsNodeID st else lID))"

section \<open>Event streams\<close>

text \<open>A channel has room for eight events; an event for a full channel is dropped.\<close>

definition broadcastSSE :: "ClusterEvent \<Rightarrow> Gateway \<Rightarrow> Gateway" where
  "broadcastSSE ev g =
     g\<lparr>sseClients := map (\<lambda>(ch, q). (ch, if length q < 8 then q @ [ev] else q)) (sseClients g)\<rparr>"

definition pollAllNodes :: "client \<Rightarrow> string \<Rightarrow> string \<Rightarrow> Gateway \<Rightarrow> Gateway" where
  "pollAllNodes cl now1 now2 g =
     (let addrs = NodeAddrs (gwCfg g)
      in case scanNodes 0 (zip addrs (map (fetchNodeStatus cl) addrs)) ([], [], []) of
           (nodes, lAddr, lID) \<Rightarrow>
             let ov = \<lparr>ovNodes = nodes, ovLeaderID = lID, ovLeaderURL = lAddr, ovUpdatedAt = now1\<rparr>;
                 changed = (gwLeaderID g \<noteq> lID \<or>
                   (nodes \<noteq> [] \<and> ovNodes (gwOverview g) \<noteq> [] \<and>
                    nsCurrentTerm (hd nodes) \<noteq> nsCurrentTerm (hd (ovNodes (gwOverview g)))));
                 g1 = g\<lparr>leaderAddr := lAddr, gwLeaderID := lID, gwOverview := ov\<rparr>
             in if changed \<or> sseClients g1 \<noteq> []
                then broadcastSSE \<lparr>evType = ''state_update'', evPayload = ov, evTimestamp = now2\<rparr> g1
                else g1)"

definition jsonNodeStatus :: "NodeStatus \<Rightarrow> json" where
  "jsonNodeStatus s = JObj
     [(''node_id'', JStr (nsNodeID s)), (''role'', JStr (nsRole s)),
      (''current_term'', JNum (FormatInt (nsCurrentTerm s))), (''commit_index'', JNum (FormatInt (nsCommitIndex s))),
      (''last_applied'', JNum (FormatInt (nsLastApplied s))), (''log_length'', JNum (FormatInt (nsLogLength s))),
      (''voted_for'', JStr (nsVotedFor s)),
      (''cluster_members'', case nsClusterMembers s of None \<Rightarrow> JNull | Some ms \<Rightarrow> JArr (map JStr ms)),
      (''cluster_size'', JNum (FormatInt (nsClusterSize s))), (''joint_consensus'', JBool (nsJointConsensus s)),
      (''pending_config_change'', JBool (nsPendingConfigChange s))]"

definition jsonOverview :: "ClusterOverview \<Rightarrow> json" where
  "jsonOverview ov = JObj
     [(''nodes'', if ovNodes ov = [] then JNull else JArr (map jsonNodeStatus (ovNodes ov))),
      (''leader_id'', JStr (ovLeaderID ov)), (''leader_url'', JStr (ovLeaderURL ov)),
      (''updated_at'', JStr (ovUpdatedAt ov))]"

definition jsonEvent :: "ClusterEvent \<Rightarrow> json" where
  "jsonEvent ev = JObj [(''type'', JStr (evType ev)), (''payload'', jsonOverview (evPayload ev)),
     (''timestamp'', JStr (evTimestamp ev))]"

definition sendSSEEvent :: "ClusterEvent \<Rightarrow> writer \<Rightarrow> writer" where
  "sendSSEEvent ev w =
     Write (''event: '' @ evType ev @ [CHR 0x0A] @ ''data: '' @ json_print (jsonEvent ev) @ [CHR 0x0A, CHR 0x0A]) w"

text \<open>
  The handler of a stream, step by step: it registers channel \<open>ch\<close> and sends the current
  state; then it sends the next queued event or a heartbeat until the client has gone.
\<close>

definition openSSE :: "bool \<Rightarrow> nat \<Rightarrow> string \<Rightarrow> Gateway \<times> writer \<Rightarrow> Gateway \<times> writer" where
  "openSSE canFlush ch now gw =
     (case gw of (g, w) \<Rightarrow>
        if \<not> canFlush then (g, http_Error ''SSE not supported'' 500 w)
        else
          let w1 = SetHeader ''X-Accel-Buffering'' ''no'' (SetHeader ''Connection'' ''keep-alive''
                (SetHeader ''Cache-Control'' ''no-cache'' (SetHeader ''Content-Type'' ''text/event-stream'' w)));
              g1 = g\<lparr>sseClients := AList.update ch [] (sseClients g)\<rparr>
          in (g1, sendSSEEvent \<lparr>evType = ''state_update'', evPayload = gwOverview g1, evTimestamp = now\<rparr> w1))"

datatype sseEvent = SSEReceive | SSEHeartbeat | SSEDone

definition stepSSE :: "nat \<Rightarrow> sseEvent \<Rightarrow> Gateway \<times> writer \<Rightarrow> (Gateway \<times> writer) \<times> bool" where
  "stepSSE ch e gw =
     (case gw of (g, w) \<Rightarrow>
        (case e of
           SSEDone \<Rightarrow> ((g\<lparr>sseClients := AList.delete ch (sseClients g)\<rparr>, w), False)
         | SSEHeartbeat \<Rightarrow> ((g, Write ('': heartbeat'' @ [CHR 0x0A, CHR 0x0A]) w), True)
         | SSEReceive \<Rightarrow>
             (case map_of (sseClients g) ch of
                Some (ev # q) \<Rightarrow> ((g\<lparr>sseClients := AList.update ch q (sseClients g)\<rparr>, sendSSEEvent ev w), True)
              | _ \<Rightarrow> ((g, w), True))))"

section \<open>Plain handlers\<close>

definition handleOverview :: "Gateway \<Rightarrow> writer \<Rightarrow> writer" where
  "handleOverview g w = EncodeTo (jsonOverview (gwOverview g)) (SetHeader ''Content-Type'' ''application/json'' w)"

definition gwHealthz :: "writer \<Rightarrow> writer" where
  "gwHealthz w = Write ''{\"status\":\"healthy\",\"service\":\"raft-kv-gateway\"}''
     (SetHeader ''Content-Type'' ''application/json'' w)"

text \<open>The text for one line of a node's metrics; a line without a space or a brace is dropped.\<close>

definition labelLine :: "string \<Rightarrow> string \<Rightarrow> string" where
  "labelLine addr line =
     (if HasPrefix line ''#'' \<or> line = [] then line @ [CHR 0x0A]
      else
        let nodeLabel = ''node=\"'' @ addr @ ''\"''
        in (case cutFirst (CHR ''{'') line of
              Some (before, after) \<Rightarrow> before @ ''{'' @ '','' @ nodeLabel @ after @ [CHR 0x0A]
            | None \<Rightarrow>
                (case cutFirst (CHR '' '') line of
                   Some (before, after) \<Rightarrow> before @ ''{'' @ nodeLabel @ ''} '' @ after @ [CHR 0x0A]
                 | None \<Rightarrow> [])))"

definition writeLine :: "writer \<Rightarrow> string \<Rightarrow> writer" where
  "writeLine w txt = (if txt = [] then w else Write txt w)"

definition nodeMetrics :: "client \<Rightarrow> writer \<Rightarrow> string \<Rightarrow> writer" where
  "nodeMetrics cl w addr =
     (case clGet cl (''http://'' @ addr @ ''/metrics'') of
        Inl e \<Rightarrow> writeLine w (''# ERROR fetching metrics from '' @ addr @ '': '' @ e @ [CHR 0x0A])
      | Inr resp \<Rightarrow>
          foldl writeLine w (map (labelLine addr) (splitOn (CHR 0x0A) (fst (readAll (rsBody resp))))))"

definition handleAggregateMetrics :: "client \<Rightarrow> Gateway \<Rightarrow> writer \<Rightarrow> writer" where
  "handleAggregateMetrics cl g w =
     foldl (nodeMetrics cl) (SetHeader ''Content-Type'' ''text/plain; version=0.0.4'' w) (NodeAddrs (gwCfg g))"

section \<open>Forwarding\<close>

text \<open>\<open>None\<close> is accepted, \<open>Some\<close> is the body of the refusal.\<close>

definition gwAuthenticate :: "Gateway \<Rightarrow> request \<Rightarrow> string option" where
  "gwAuthenticate g r =
     (if GatewayToken (gwCfg g) = [] then None
      else
        let auth = Header_Get (rqHeader r) ''Authorization''
        in if \<not> HasPrefix auth ''Bearer '' then Some ''{\"error\":\"missing or invalid Authorization header\"}''
           else if TrimPrefix auth ''Bearer '' \<noteq> GatewayToken (gwCfg g) then Some ''{\"error\":\"invalid gateway token\"}''
           else None)"

definition answerUnauthorized :: "string \<Rightarrow> writer \<Rightarrow> writer" where
  "answerUnauthorized msg w = Write msg (WriteHeader 401 (SetHeader ''Content-Type'' ''application/json'' w))"

definition sessionID :: "request \<Rightarrow> string" where
  "sessionID r = ''gw-'' @ (case cutLast (CHR '':'') (rqRemoteAddr r) of Some ip \<Rightarrow> ip | None \<Rightarrow> rqRemoteAddr r)"

definition copyHeader :: "request \<Rightarrow> header \<Rightarrow> string \<Rightarrow> header" where
  "copyHeader r h name = (let v = Header_Get (rqHeader r) name in if v \<noteq> [] then Header_Set name v h else h)"

definition proxyHeader :: "Gateway \<Rightarrow> request \<Rightarrow> Gateway \<times> header" where
  "proxyHeader g r =
     (let h1 = foldl (copyHeader r) [] [''Content-Type'', ''X-Client-ID'', ''X-Request-ID''];
          h2 = (if Header_Get h1 ''X-Client-ID'' = [] then Header_Set ''X-Client-ID'' (sessionID r) h1 else h1);
          fresh = (Header_Get h2 ''X-Request-ID'' = []);
          g1 = (if fresh then g\<lparr>reqIDCounter := reqIDCounter g + 1\<rparr> else g);
          h3 = (if fresh then Header_Set ''X-Request-ID'' (FormatInt (sint (reqIDCounter g1))) h2 else h2);
          h4 = (if ClusterToken (gwCfg g) \<noteq> []
                then Header_Set ''Authorization'' (''Bearer '' @ ClusterToken (gwCfg g)) h3 else h3)
      in (g1, h4))"

definition addAllHeaders :: "header \<Rightarrow> writer \<Rightarrow> writer" where
  "addAllHeaders h w =
     foldl (\<lambda>w (k, vs). foldl (\<lambda>w v. w\<lparr>wHeader := Header_Add k v (wHeader w)\<rparr>) w vs) w h"

text \<open>
  The request for the node carries the headers that the gateway sets; those that the HTTP
  client adds on its own (host, length, user agent) are of no concern to a node. When the node
  cannot be reached, a poll of all nodes is started in the background.
\<close>

definition proxyRequest :: "client \<Rightarrow> request \<Rightarrow> string \<Rightarrow> Gateway \<times> writer \<Rightarrow>
  (Gateway \<times> writer) \<times> (string \<times> request) list" where
  "proxyRequest cl r nodeAddr gw =
     (case gw of (g, w) \<Rightarrow>
        (case readAll (rqBody r) of
           (body, Some e) \<Rightarrow> ((g, http_Error ''{\"error\":\"failed to read request body\"}'' 400 w), [])
         | (body, None) \<Rightarrow>
             if \<not> clBuild cl nodeAddr
             then ((g, http_Error ''{\"error\":\"failed to build proxy request\"}'' 500 w), [])
             else (case proxyHeader g r of (g1, h) \<Rightarrow>
               let req = \<lparr>rqMethod = rqMethod r, rqPath = rqPath r, rqQuery = rqQuery r,
                     rqRawQuery = rqRawQuery r, rqHeader = h, rqBody = (body, None), rqRemoteAddr = []\<rparr>
               in case clDo cl nodeAddr req of
                    Inl e \<Rightarrow> ((g1, http_Error ''{\"error\":\"upstream node unreachable\"}'' 502 w), [(nodeAddr, req)])
                  | Inr resp \<Rightarrow>
                      ((g1, Write (fst (rsBody resp)) (WriteHeader (rsStatusCode resp) (addAllHeaders (rsHeader resp) w))),
                       [(nodeAddr, req)]))))"

definition handleKVProxy :: "client \<Rightarrow> request \<Rightarrow> Gateway \<times> writer \<Rightarrow> (Gateway \<times> writer) \<times> (string \<times> request) list" where
  "handleKVProxy cl r gw =
     (case gw of (g, w) \<Rightarrow>
        (case (if rqMethod r \<noteq> ''GET'' then gwAuthenticate g r else None) of
           Some msg \<Rightarrow> ((g, answerUnauthorized msg w), [])
         | None \<Rightarrow>
             if leaderAddr g = []
             then ((g, Write ''{\"error\":\"no leader elected, cluster may be in election\"}''
                     (WriteHeader 503 (SetHeader ''Content-Type'' ''application/json'' w))), [])
             else proxyRequest cl r (leaderAddr g) (g, w)))"

definition handleAdminProxy :: "client \<Rightarrow> request \<Rightarrow> Gateway \<times> writer \<Rightarrow> (Gateway \<times> writer) \<times> (string \<times> request) list" where
  "handleAdminProxy cl r gw =
     (case gw of (g, w) \<Rightarrow>
        (case gwAuthenticate g r of
           Some msg \<Rightarrow> ((g, answerUnauthorized msg w), [])
         | None \<Rightarrow>
             if leaderAddr g = [] then ((g, Write ''{\"error\":\"no leader\"}'' (WriteHeader 503 w)), [])
             else proxyRequest cl r (leaderAddr g) (g, w)))"

section \<open>Routing\<close>

text \<open>
  The dispatch of the handler; \<open>files\<close> answers for the frontend. The event stream is opened
  here, its later steps are \<open>stepSSE\<close>. The paths that the library itself answers with a
  redirect (\<^verbatim>\<open>/kv\<close>, \<^verbatim>\<open>/admin\<close>, and paths with empty or dot segments) are left out.
\<close>

definition gwMux :: "client \<Rightarrow> (request \<Rightarrow> writer \<Rightarrow> writer) \<Rightarrow> nat \<Rightarrow> string \<Rightarrow> request \<Rightarrow> Gateway \<times> writer \<Rightarrow>
  (Gateway \<times> writer) \<times> (string \<times> request) list" where
  "gwMux cl files ch now r gw =
     (case gw of (g, w) \<Rightarrow>
        if rqPath r = ''/cluster/overview'' then ((g, handleOverview g w), [])
        else if rqPath r = ''/cluster/events'' then (openSSE True ch now (g, w), [])
        else if rqPath r = ''/metrics/aggregate'' then ((g, handleAggregateMetrics cl g w), [])
        else if rqPath r = ''/healthz'' then ((g, gwHealthz w), [])
        else if HasPrefix (rqPath r) ''/kv/'' then handleKVProxy cl r (g, w)
        else if HasPrefix (rqPath r) ''/admin/'' then handleAdminProxy cl r (g, w)
        else if FrontendDir (gwCfg g) \<noteq> [] then ((g, files r w), [])
        else ((g, http_Error ''404 page not found'' 404 w), []))"

definition corsMiddleware :: "(request \<Rightarrow> Gateway \<times> writer \<Rightarrow> (Gateway \<times> writer) \<times> (string \<times> request) list) \<Rightarrow>
  request \<Rightarrow> Gateway \<times> writer \<Rightarrow> (Gateway \<times> writer) \<times> (string \<times> request) list" where
  "corsMiddleware handler r gw =
     (case gw of (g, w) \<Rightarrow>
        let w1 = SetHeader ''Access-Control-Allow-Headers'' ''Content-Type, Authorization, X-Client-ID, X-Request-ID''
              (SetHeader ''Access-Control-Allow-Methods'' ''GET, POST, PUT, DELETE, OPTIONS''
                (SetHeader ''Access-Control-Allow-Origin'' ''*'' w))
        in if rqMethod r = ''OPTIONS'' then ((g, WriteHeader 200 w1), []) else handler r (g, w1))"

definition serveGateway :: "client \<Rightarrow> (request \<Rightarrow> writer \<Rightarrow> writer) \<Rightarrow> nat \<Rightarrow> string \<Rightarrow> request \<Rightarrow> Gateway \<Rightarrow>
  (Gateway \<times> writer) \<times> (string \<times> request) list" where
  "serveGateway cl files ch now r g = corsMiddleware (gwMux cl files ch now) r (g, freshWriter)"

section \<open>The labels of merged metrics\<close>

text \<open>
  A line that already has labels gets a comma right behind the brace, which is no longer the
  text form of a metric; a line without labels is rewritten correctly.
\<close>

lemma labelLine_labelled:
  assumes "CHR ''{'' \<notin> set name" "name \<noteq> []" "hd name \<noteq> CHR ''#''"
  shows "labelLine addr (name @ ''{'' @ rest) = name @ ''{,node=\"'' @ addr @ ''\"'' @ rest @ [CHR 0x0A]"
  using assms cutFirst_append [of "CHR ''{''" name rest] by (cases name) (simp_all add: labelLine_def HasPrefix_def)

lemma labelLine_plain:
  assumes "CHR ''{'' \<notin> set (name @ rest)" "CHR '' '' \<notin> set name" "name \<noteq> []" "hd name \<noteq> CHR ''#''"
  shows "labelLine addr (name @ '' '' @ rest) = name @ ''{node=\"'' @ addr @ ''\"} '' @ rest @ [CHR 0x0A]"
proof -
  have "cutFirst (CHR ''{'') (name @ '' '' @ rest) = None" using assms(1) by (simp add: cutFirst_def)
  then show ?thesis
    using assms(3,4) cutFirst_append [OF assms(2), of rest] by (cases name) (simp_all add: labelLine_def HasPrefix_def)
qed

section \<open>Headers of a forwarded request\<close>

lemma Header_Get_Set [simp]:
  "Header_Get (Header_Set n v h) m = (if canonical m = canonical n then v else Header_Get h m)"
  by (simp add: Header_Get_def Header_Set_def update_conv')

lemma map_of_Header_Set [simp]:
  "map_of (Header_Set n v h) k = (if k = canonical n then Some [v] else map_of h k)"
  by (auto simp: Header_Set_def update_conv')

lemma canonical_names [simp]:
  "canonical ''Authorization'' = ''Authorization''" "canonical ''Content-Type'' = ''Content-Type''"
  "canonical ''X-Client-ID'' = ''X-Client-Id''" "canonical ''X-Request-ID'' = ''X-Request-Id''"
  "canonical ''Access-Control-Allow-Origin'' = ''Access-Control-Allow-Origin''"
  "canonical ''Access-Control-Allow-Methods'' = ''Access-Control-Allow-Methods''"
  "canonical ''Access-Control-Allow-Headers'' = ''Access-Control-Allow-Headers''"
  by code_simp+

lemma FormatInt_nonempty [simp]: "FormatInt i \<noteq> []"
  by (simp add: FormatInt_def)

lemma proxyHeader_fields:
  assumes "proxyHeader g r = (g1, h)"
  shows "map_of h ''Authorization'' = (if ClusterToken (gwCfg g) = [] then None else Some [''Bearer '' @ ClusterToken (gwCfg g)])"
    "Header_Get h ''X-Client-ID'' = (let c = Header_Get (rqHeader r) ''X-Client-ID'' in if c = [] then sessionID r else c)"
    "Header_Get h ''X-Request-ID'' = (let i = Header_Get (rqHeader r) ''X-Request-ID''
       in if i = [] then FormatInt (sint (reqIDCounter g + 1)) else i)"
    "g1 = (if Header_Get (rqHeader r) ''X-Request-ID'' = [] then g\<lparr>reqIDCounter := reqIDCounter g + 1\<rparr> else g)"
  using assms by (auto simp: proxyHeader_def copyHeader_def Let_def Header_Get_def [of "[]"] split: if_splits)

lemma proxyRequest_cases:
  assumes "proxyRequest cl r a (g, w) = ((g', w'), sent)"
  shows "sent = [] \<or> (\<exists>h. proxyHeader g r = (g', h) \<and>
    sent = [(a, \<lparr>rqMethod = rqMethod r, rqPath = rqPath r, rqQuery = rqQuery r, rqRawQuery = rqRawQuery r,
              rqHeader = h, rqBody = rqBody r, rqRemoteAddr = []\<rparr>)])"
  using assms
  by (auto simp: proxyRequest_def readAll_def Let_def split: prod.splits option.splits if_splits sum.splits)

lemma gwAuthenticate_iff:
  "gwAuthenticate g r = None \<longleftrightarrow> GatewayToken (gwCfg g) = [] \<or>
     Header_Get (rqHeader r) ''Authorization'' = ''Bearer '' @ GatewayToken (gwCfg g)"
proof -
  let ?h = "Header_Get (rqHeader r) ''Authorization''" and ?t = "GatewayToken (gwCfg g)"
  have "gwAuthenticate g r = None \<longleftrightarrow> ?t = [] \<or> HasPrefix ?h ''Bearer '' \<and> TrimPrefix ?h ''Bearer '' = ?t"
    by (simp add: gwAuthenticate_def Let_def)
  then show ?thesis unfolding TrimPrefix_iff .
qed

text \<open>Whether a request needs the gateway's token.\<close>

definition guarded :: "request \<Rightarrow> bool" where
  "guarded r \<longleftrightarrow> rqMethod r \<noteq> ''GET'' \<and> HasPrefix (rqPath r) ''/kv/'' \<or> HasPrefix (rqPath r) ''/admin/''"

lemma kv_not_admin: "HasPrefix p ''/kv/'' \<Longrightarrow> \<not> HasPrefix p ''/admin/''"
  by (cases p; cases "tl p") (auto simp: HasPrefix_def)

lemma gwMux_sent:
  assumes "gwMux cl files ch now r (g, w) = ((g', w'), sent)" "sent \<noteq> []"
  shows "proxyRequest cl r (leaderAddr g) (g, w) = ((g', w'), sent)" "leaderAddr g \<noteq> []"
    "guarded r \<longrightarrow> gwAuthenticate g r = None"
proof -
  from assms consider "HasPrefix (rqPath r) ''/kv/''" "handleKVProxy cl r (g, w) = ((g', w'), sent)"
    | "\<not> HasPrefix (rqPath r) ''/kv/''" "handleAdminProxy cl r (g, w) = ((g', w'), sent)"
    by (simp add: gwMux_def split: if_splits)
  then have "proxyRequest cl r (leaderAddr g) (g, w) = ((g', w'), sent) \<and> leaderAddr g \<noteq> [] \<and>
    (guarded r \<longrightarrow> gwAuthenticate g r = None)"
  proof cases
    case 1
    with assms(2) kv_not_admin show ?thesis
      by (auto simp: handleKVProxy_def guarded_def split: if_splits option.splits)
  next
    case 2
    with assms(2) show ?thesis by (auto simp: handleAdminProxy_def split: if_splits option.splits)
  qed
  then show "proxyRequest cl r (leaderAddr g) (g, w) = ((g', w'), sent)" "leaderAddr g \<noteq> []"
    "guarded r \<longrightarrow> gwAuthenticate g r = None" by blast+
qed

lemma gwMux_refused:
  assumes "guarded r" "gwAuthenticate g r = Some msg"
  shows "gwMux cl files ch now r (g, w) = ((g, answerUnauthorized msg w), [])"
proof -
  have "HasPrefix (rqPath r) ''/kv/'' \<and> rqMethod r \<noteq> ''GET'' \<or> \<not> HasPrefix (rqPath r) ''/kv/'' \<and> HasPrefix (rqPath r) ''/admin/''"
    using assms(1) kv_not_admin by (auto simp: guarded_def)
  moreover have "rqPath r \<notin> {''/cluster/overview'', ''/cluster/events'', ''/metrics/aggregate'', ''/healthz''}"
    using assms(1) by (auto simp: guarded_def HasPrefix_def)
  ultimately show ?thesis using assms(2) by (auto simp: gwMux_def handleKVProxy_def handleAdminProxy_def)
qed

section \<open>Polling a node's API\<close>

text \<open>The response that an HTTP client sees of what a handler has written.\<close>

definition asResponse :: "writer \<Rightarrow> response" where
  "asResponse w = (case wSent w of
     Some (code, h) \<Rightarrow> \<lparr>rsStatusCode = code, rsHeader = h, rsBody = (wBody w, None)\<rparr>
   | None \<Rightarrow> \<lparr>rsStatusCode = 200, rsHeader = wHeader w, rsBody = (wBody w, None)\<rparr>)"

definition statusView :: "status \<Rightarrow> NodeStatus" where
  "statusView st = \<lparr>nsNodeID = stNodeId st, nsRole = stRole st, nsCurrentTerm = stTerm st,
     nsCommitIndex = stCommitIndex st, nsLastApplied = stLastApplied st, nsLogLength = stLogLength st,
     nsVotedFor = stVotedFor st, nsClusterMembers = Some (stMembers st), nsClusterSize = int (stSize st),
     nsJointConsensus = stJoint st, nsPendingConfigChange = stPending st\<rparr>"

definition clean_status :: "status \<Rightarrow> bool" where
  "clean_status st \<longleftrightarrow> clean (stNodeId st) \<and> clean (stRole st) \<and> clean (stVotedFor st) \<and>
     (\<forall>m \<in> set (stMembers st). clean m) \<and> int64 (stTerm st) \<and> int64 (stCommitIndex st) \<and>
     int64 (stLastApplied st) \<and> int64 (stLogLength st) \<and> int64 (int (stSize st))"

definition statusRequest :: request where
  "statusRequest = \<lparr>rqMethod = ''GET'', rqPath = ''/status'', rqQuery = [], rqRawQuery = [], rqHeader = [],
     rqBody = ([], None), rqRemoteAddr = []\<rparr>"

lemma DecodeFirst_object:
  "wf_json (JObj ms) \<Longrightarrow> DecodeFirst (json_print (JObj ms) @ [CHR 0x0A]) = Some (sanitize_json (JObj ms))"
  using parseValue_print [of "JObj ms" "[CHR 0x0A]" "Suc (2 * length (json_print (JObj ms) @ [CHR 0x0A]))"]
  by (simp add: DecodeFirst_def del: parseValue.simps json_print.simps sanitize_json.simps)

lemma setStrs_strings: "setStrs (JArr (map JStr ms)) = Some (Some ms)"
  by (induction ms) (auto simp: setStrs_def)

lemma sanitize_statusFields [simp]: "list_all (\<lambda>n. sanitize n = n) statusFields"
  by code_simp

text \<open>The members of a node's status in the order in which the library writes them.\<close>

lemma jsonStatus_sorted:
  "jsonStatus st = JObj
     [(''cluster_members'', JArr (map JStr (stMembers st))), (''cluster_size'', JNum (FormatInt (int (stSize st)))),
      (''commit_index'', JNum (FormatInt (stCommitIndex st))), (''current_term'', JNum (FormatInt (stTerm st))),
      (''joint_consensus'', JBool (stJoint st)), (''last_applied'', JNum (FormatInt (stLastApplied st))),
      (''log_length'', JNum (FormatInt (stLogLength st))), (''node_id'', JStr (stNodeId st)),
      (''pending_config_change'', JBool (stPending st)), (''role'', JStr (stRole st)),
      (''voted_for'', JStr (stVotedFor st))]"
  by (simp add: jsonStatus_def encMap_def less_char_def less_eq_char_def)

lemma decode_jsonStatus:
  assumes "clean_status st"
  shows "decodeStruct statusFields setStatusField (sanitize_json (jsonStatus st)) zeroStatus = Some (statusView st)"
proof -
  have "map (sanitize_json \<circ> JStr) (stMembers st) = map JStr (stMembers st)"
    using assms by (simp add: clean_status_def clean_def)
  then have ms: "setStrs (JArr (map (sanitize_json \<circ> JStr) (stMembers st))) = Some (Some (stMembers st))"
    by (simp only: setStrs_strings)
  show ?thesis
    using assms sanitize_statusFields
    by (simp add: ms jsonStatus_sorted decodeStruct_def decodeMember_def setStatusField_def zeroStatus_def
        statusView_def clean_status_def clean_def)
qed

lemma fetchNodeStatus_serveAPI:
  assumes "clean_status (bkStatus b)"
    and "clGet cl (''http://'' @ addr @ ''/status'') = Inr (asResponse (snd (serveAPI now b statusRequest s)))"
  shows "fetchNodeStatus cl addr = Inr (statusView (bkStatus b))"
proof -
  have "\<exists>h. wSent (snd (serveAPI now b statusRequest s)) = Some (200, h)"
    "wBody (snd (serveAPI now b statusRequest s)) = json_print (jsonStatus (bkStatus b)) @ [CHR 0x0A]"
    by (simp_all add: serveAPI_def statusRequest_def recoveryMiddleware_def serveMux_def handleStatus_def
        Let_def corsHeaders_def freshWriter_def EncodeTo_def)
  then have "rsBody (asResponse (snd (serveAPI now b statusRequest s))) = (json_print (jsonStatus (bkStatus b)) @ [CHR 0x0A], None)"
    by (auto simp: asResponse_def)
  moreover have "\<exists>ms. jsonStatus (bkStatus b) = JObj ms" "wf_json (jsonStatus (bkStatus b))"
    by (auto simp: jsonStatus_sorted)
  ultimately show ?thesis
    using assms decode_jsonStatus [OF assms(1)] DecodeFirst_object
    by (auto simp: fetchNodeStatus_def DecodeBody_def)
qed

text \<open>The loop over the polled nodes, in terms of the status that is used for each of them.\<close>

definition usedStatus :: "nat \<Rightarrow> NodeStatus result \<Rightarrow> NodeStatus" where
  "usedStatus i res = (case res of Inl _ \<Rightarrow> offlineStatus i | Inr st \<Rightarrow> st)"

lemma scanNodes_eq:
  "scanNodes i xs (nodes, la, li) =
     (nodes @ map (\<lambda>(i, a, res). usedStatus i res) (enumerate i xs),
      last (la # map fst (filter (\<lambda>(a, res). nsRole (usedStatus 0 res) = ''leader'') xs)),
      last (li # map (\<lambda>(a, res). nsNodeID (usedStatus 0 res)) (filter (\<lambda>(a, res). nsRole (usedStatus 0 res) = ''leader'') xs)))"
proof (induction xs arbitrary: i nodes la li)
  case (Cons x xs)
  obtain a res where x: "x = (a, res)" by fastforce
  show ?case
    by (cases res) (auto simp: x Cons.IH usedStatus_def offlineStatus_def zeroStatus_def Let_def)
qed simp

lemma broadcastSSE_frame [simp]:
  "gwOverview (broadcastSSE ev g) = gwOverview g" "leaderAddr (broadcastSSE ev g) = leaderAddr g"
  "gwLeaderID (broadcastSSE ev g) = gwLeaderID g"
  by (simp_all add: broadcastSSE_def)

lemma pollAllNodes_frame:
  assumes "scanNodes 0 (zip (NodeAddrs (gwCfg g)) (map (fetchNodeStatus cl) (NodeAddrs (gwCfg g)))) ([], [], []) = (ns, la, li)"
  shows "gwOverview (pollAllNodes cl t1 t2 g) = \<lparr>ovNodes = ns, ovLeaderID = li, ovLeaderURL = la, ovUpdatedAt = t1\<rparr>"
    "leaderAddr (pollAllNodes cl t1 t2 g) = la" "gwLeaderID (pollAllNodes cl t1 t2 g) = li"
  using assms by (simp_all add: pollAllNodes_def Let_def)

section \<open>Properties\<close>

text \<open>
  C22. What the gateway forwards: at most one request per request, with the same method, path
  and body, and only to the leader it knows; a write or an administration request only if
  its Authorization header is exactly the gateway's token (when one is set), and otherwise it
  is answered with 401. The client's own Authorization header never reaches a node: the
  forwarded request carries the cluster token or none. It always carries a client number and
  a request number.
\<close>

theorem gateway_forwarding:
  assumes "serveGateway cl files ch now r g = ((g', w'), sent)"
  shows "length sent \<le> 1 \<and>
    (\<forall>(addr, q) \<in> set sent.
       addr = leaderAddr g \<and> addr \<noteq> [] \<and> rqMethod q = rqMethod r \<and> rqPath q = rqPath r \<and> rqBody q = rqBody r \<and>
       (guarded r \<longrightarrow> GatewayToken (gwCfg g) = [] \<or>
          Header_Get (rqHeader r) ''Authorization'' = ''Bearer '' @ GatewayToken (gwCfg g)) \<and>
       map_of (rqHeader q) ''Authorization'' =
         (if ClusterToken (gwCfg g) = [] then None else Some [''Bearer '' @ ClusterToken (gwCfg g)]) \<and>
       Header_Get (rqHeader q) ''X-Client-ID'' \<noteq> [] \<and> Header_Get (rqHeader q) ''X-Request-ID'' \<noteq> []) \<and>
    (rqMethod r \<noteq> ''OPTIONS'' \<and> guarded r \<and> GatewayToken (gwCfg g) \<noteq> [] \<and>
       Header_Get (rqHeader r) ''Authorization'' \<noteq> ''Bearer '' @ GatewayToken (gwCfg g) \<longrightarrow>
     sent = [] \<and> statusOf w' = 401)"
proof (cases "rqMethod r = ''OPTIONS''")
  case True
  with assms show ?thesis by (simp add: serveGateway_def corsMiddleware_def Let_def)
next
  case False
  then obtain w where w: "gwMux cl files ch now r (g, w) = ((g', w'), sent)" "wSent w = None"
    using assms by (auto simp: serveGateway_def corsMiddleware_def Let_def freshWriter_def)
  have refused: "sent = [] \<and> statusOf w' = 401" if "guarded r" "gwAuthenticate g r \<noteq> None"
  proof -
    from that obtain msg where "gwAuthenticate g r = Some msg" by blast
    with gwMux_refused [OF that(1) this] w(1) have "w' = answerUnauthorized msg w" "sent = []" by simp_all
    with w(2) show ?thesis by (simp add: answerUnauthorized_def statusOf_def)
  qed
  have sent: "length sent \<le> 1 \<and> (\<forall>(addr, q) \<in> set sent.
       addr = leaderAddr g \<and> addr \<noteq> [] \<and> rqMethod q = rqMethod r \<and> rqPath q = rqPath r \<and> rqBody q = rqBody r \<and>
       map_of (rqHeader q) ''Authorization'' =
         (if ClusterToken (gwCfg g) = [] then None else Some [''Bearer '' @ ClusterToken (gwCfg g)]) \<and>
       Header_Get (rqHeader q) ''X-Client-ID'' \<noteq> [] \<and> Header_Get (rqHeader q) ''X-Request-ID'' \<noteq> [])"
    if "sent \<noteq> []"
    using proxyRequest_cases [OF gwMux_sent(1) [OF w(1) that]] gwMux_sent(2) [OF w(1) that] that
    by (auto simp: proxyHeader_fields Let_def sessionID_def split: if_splits)
  show ?thesis
  proof (cases "sent = []")
    case True
    then show ?thesis using refused by (auto simp: gwAuthenticate_iff)
  next
    case False
    then show ?thesis using sent gwMux_sent(3) [OF w(1)] refused by (auto simp: gwAuthenticate_iff)
  qed
qed

definition demo_gateway :: Gateway where
  "demo_gateway = (NewGateway \<lparr>NodeAddrs = [''a:1''], GatewayToken = ''gw'', ClusterToken = ''cl'', FrontendDir = [],
     PollInterval = 0\<rparr>)\<lparr>leaderAddr := ''a:1''\<rparr>"

definition demo_client :: client where
  "demo_client = \<lparr>clGet = (\<lambda>_. Inl ''down''), clBuild = (\<lambda>_. True), clDo = (\<lambda>_ _. Inl ''down'')\<rparr>"

definition demo_write :: "string \<Rightarrow> request" where
  "demo_write auth = \<lparr>rqMethod = ''PUT'', rqPath = ''/kv/k'', rqQuery = [], rqRawQuery = [],
     rqHeader = [(''Authorization'', [auth])], rqBody = (''v'', None), rqRemoteAddr = ''10.0.0.1:5000''\<rparr>"

theorem gateway_forwarding_witness:
  "(case serveGateway demo_client (\<lambda>r w. w) 0 ''t'' (demo_write ''Bearer gw'') demo_gateway of
      ((g', w'), sent) \<Rightarrow> length sent = 1 \<and>
        (\<forall>(addr, q) \<in> set sent. addr = ''a:1'' \<and> map_of (rqHeader q) ''Authorization'' = Some [''Bearer cl''])) \<and>
   (case serveGateway demo_client (\<lambda>r w. w) 0 ''t'' (demo_write ''Bearer cl'') demo_gateway of
      ((g', w'), sent) \<Rightarrow> sent = [] \<and> statusOf w' = 401)"
proof -
  let ?run = "\<lambda>auth. serveGateway demo_client (\<lambda>r w. w) 0 ''t'' (demo_write auth) demo_gateway"
  obtain g1 w1 s1 where ok: "?run ''Bearer gw'' = ((g1, w1), s1)" by (metis prod.exhaust)
  obtain g2 w2 s2 where bad: "?run ''Bearer cl'' = ((g2, w2), s2)" by (metis prod.exhaust)
  have "length (snd (?run ''Bearer gw'')) = 1" by code_simp
  moreover have "leaderAddr demo_gateway = ''a:1''" "ClusterToken (gwCfg demo_gateway) = ''cl''"
    "GatewayToken (gwCfg demo_gateway) = ''gw''"
    by (simp_all add: demo_gateway_def NewGateway_def)
  moreover have "guarded (demo_write ''Bearer cl'')" "rqMethod (demo_write ''Bearer cl'') = ''PUT''"
    "Header_Get (rqHeader (demo_write ''Bearer cl'')) ''Authorization'' = ''Bearer cl''"
    by (simp_all add: guarded_def demo_write_def HasPrefix_def Header_Get_def)
  ultimately show ?thesis
    using gateway_forwarding [OF ok] gateway_forwarding [OF bad] unfolding ok bad by auto
qed

text \<open>
  C30. Polling tracks the cluster: when every configured address either cannot be reached or
  is answered by the HTTP interface of a node, the overview after a poll holds exactly the
  status of each node in the configured order, with a placeholder for those that cannot be
  reached, and the leader to which requests are forwarded is the last configured address
  whose node says that it leads, or none.
\<close>

theorem gateway_tracks_leader:
  assumes "\<forall>a \<in> set (NodeAddrs (gwCfg g)).
      (\<exists>e. view a = None \<and> clGet cl (''http://'' @ a @ ''/status'') = Inl e) \<or>
      (\<exists>now b s. view a = Some (bkStatus b) \<and> clean_status (bkStatus b) \<and>
         clGet cl (''http://'' @ a @ ''/status'') = Inr (asResponse (snd (serveAPI now b statusRequest s))))"
  shows "let g' = pollAllNodes cl t1 t2 g; addrs = NodeAddrs (gwCfg g);
             leads = (\<lambda>a. \<exists>st. view a = Some st \<and> stRole st = ''leader'')
    in ovNodes (gwOverview g') =
         map (\<lambda>(i, a). case view a of Some st \<Rightarrow> statusView st | None \<Rightarrow> offlineStatus i) (enumerate 0 addrs) \<and>
       leaderAddr g' = last ([] # filter leads addrs) \<and> ovLeaderURL (gwOverview g') = leaderAddr g' \<and>
       gwLeaderID g' = last ([] # map (\<lambda>a. stNodeId (the (view a))) (filter leads addrs))"
proof -
  let ?addrs = "NodeAddrs (gwCfg g)" and ?f = "fetchNodeStatus cl"
  have f: "usedStatus i (?f a) = (case view a of Some st \<Rightarrow> statusView st | None \<Rightarrow> offlineStatus i)"
    if "a \<in> set ?addrs" for a i
    using assms that fetchNodeStatus_serveAPI by (fastforce simp: usedStatus_def fetchNodeStatus_def)
  then have leads: "nsRole (usedStatus 0 (?f a)) = ''leader'' \<longleftrightarrow> (\<exists>st. view a = Some st \<and> stRole st = ''leader'')"
    "\<exists>st. view a = Some st \<and> stRole st = ''leader'' \<Longrightarrow> nsNodeID (usedStatus 0 (?f a)) = stNodeId (the (view a))"
    if "a \<in> set ?addrs" for a
    using that by (auto simp: statusView_def offlineStatus_def zeroStatus_def split: option.splits)
  have z: "zip as (map ?f as) = map (\<lambda>a. (a, ?f a)) as" for as by (induction as) auto
  have "enumerate i (map (\<lambda>a. (a, ?f a)) as) = map (\<lambda>(i, a). (i, a, ?f a)) (enumerate i as)" for i as
    by (induction as arbitrary: i) auto
  then have nodes: "map (\<lambda>(i, a, res). usedStatus i res) (enumerate 0 (map (\<lambda>a. (a, ?f a)) ?addrs)) =
      map (\<lambda>(i, a). case view a of Some st \<Rightarrow> statusView st | None \<Rightarrow> offlineStatus i) (enumerate 0 ?addrs)"
    using f by (auto simp: in_set_enumerate_eq)
  have fl: "filter (\<lambda>(a, res). nsRole (usedStatus 0 res) = ''leader'') (map (\<lambda>a. (a, ?f a)) ?addrs) =
      map (\<lambda>a. (a, ?f a)) (filter (\<lambda>a. \<exists>st. view a = Some st \<and> stRole st = ''leader'') ?addrs)"
    using leads(1) by (simp add: filter_map o_def cong: filter_cong)
  have ids: "map (\<lambda>a. nsNodeID (usedStatus 0 (?f a))) (filter (\<lambda>a. \<exists>st. view a = Some st \<and> stRole st = ''leader'') ?addrs) =
      map (\<lambda>a. stNodeId (the (view a))) (filter (\<lambda>a. \<exists>st. view a = Some st \<and> stRole st = ''leader'') ?addrs)"
    using leads(2) by auto
  show ?thesis
    using pollAllNodes_frame [where cl = cl and g = g and ?t1.0 = t1 and ?t2.0 = t2,
        OF scanNodes_eq [where xs = "zip ?addrs (map ?f ?addrs)"]]
    by (simp add: Let_def z nodes fl o_def ids)
qed

definition demo_status :: status where
  "demo_status = \<lparr>stNodeId = ''n2'', stRole = ''leader'', stTerm = 3, stCommitIndex = 5, stLastApplied = 5,
     stLogLength = 6, stVotedFor = ''n2'', stMembers = [''n1'', ''n2''], stSize = 2, stJoint = False, stPending = False\<rparr>"

definition demo_backend :: backend where
  "demo_backend = \<lparr>bkIsLeader = (True, ''n2''), bkPeerHTTP = [], bkGet = (\<lambda>_. ([], False, True)),
     bkPropose = (\<lambda>_ _ _ _ _. (True, None)), bkProposeConfig = (\<lambda>_. (True, None)), bkIsLeaderAfter = (True, ''n2''),
     bkStatus = demo_status, bkMetrics = []\<rparr>"

definition demo_polled :: client where
  "demo_polled = demo_client\<lparr>clGet := (\<lambda>u. if u = ''http://b:2/status''
     then Inr (asResponse (snd (serveAPI 0 demo_backend statusRequest (NewServer [] [] False 0)))) else Inl ''down'')\<rparr>"

theorem gateway_tracks_leader_witness:
  "let g = NewGateway \<lparr>NodeAddrs = [''a:1'', ''b:2''], GatewayToken = [], ClusterToken = [], FrontendDir = [], PollInterval = 0\<rparr>;
       g' = pollAllNodes demo_polled ''t1'' ''t2'' g
   in leaderAddr g' = ''b:2'' \<and> gwLeaderID g' = ''n2'' \<and>
      ovNodes (gwOverview g') = [offlineStatus 0, statusView demo_status]"
proof -
  let ?g = "NewGateway \<lparr>NodeAddrs = [''a:1'', ''b:2''], GatewayToken = [], ClusterToken = [], FrontendDir = [], PollInterval = 0\<rparr>"
  let ?view = "\<lambda>a. if a = ''b:2'' then Some demo_status else None"
  have c: "clean_status demo_status"
    unfolding clean_status_def clean_def int64_def by code_simp
  have addrs: "NodeAddrs (gwCfg ?g) = [''a:1'', ''b:2'']" by (simp add: NewGateway_def)
  have b: "bkStatus demo_backend = demo_status" "stRole demo_status = ''leader''" "stNodeId demo_status = ''n2''"
    by (simp_all add: demo_backend_def demo_status_def)
  have a: "\<exists>e. ?view ''a:1'' = None \<and> clGet demo_polled (''http://'' @ ''a:1'' @ ''/status'') = Inl e"
    by (simp add: demo_polled_def)
  have "\<exists>now b s. ?view ''b:2'' = Some (bkStatus b) \<and> clean_status (bkStatus b) \<and>
      clGet demo_polled (''http://'' @ ''b:2'' @ ''/status'') = Inr (asResponse (snd (serveAPI now b statusRequest s)))"
    by (rule exI [of _ 0], rule exI [of _ demo_backend], rule exI [of _ "NewServer [] [] False 0"])
      (simp add: demo_polled_def b c)
  with a have "\<forall>a \<in> set (NodeAddrs (gwCfg ?g)).
      (\<exists>e. ?view a = None \<and> clGet demo_polled (''http://'' @ a @ ''/status'') = Inl e) \<or>
      (\<exists>now b s. ?view a = Some (bkStatus b) \<and> clean_status (bkStatus b) \<and>
         clGet demo_polled (''http://'' @ a @ ''/status'') = Inr (asResponse (snd (serveAPI now b statusRequest s))))"
    unfolding addrs by auto
  from gateway_tracks_leader [OF this, of "''t1''" "''t2''"] show ?thesis
    by (simp add: addrs b Let_def)
qed

end
