(* ===== verification/Clients.thy ===== *)
theory Clients
  imports NodeInv "HOL-Library.Multiset"
begin

text \<open>
  Waiting clients: every request that a node accepts holds a response channel; a channel is
  either still waiting in \<^verbatim>\<open>proposals\<close> or has been answered, and it is answered only once.
\<close>

section \<open>Channels\<close>

fun answered :: "effect list \<Rightarrow> nat list" where
  "answered [] = []"
| "answered (Respond ch c # es) = ch # answered es"
| "answered (e # es) = answered es"

lemma answered_append [simp]: "answered (xs @ ys) = answered xs @ answered ys"
  by (induction xs rule: answered.induct) simp_all

lemma answered_map_Respond: "answered (map (\<lambda>p. Respond (f p) (g p)) ps) = map f ps"
  by (induction ps) simp_all

text \<open>Every channel that the node knows of, waiting or answered, with its multiplicity.\<close>

definition chans :: "raft \<Rightarrow> nat multiset" where
  "chans r = mset (map respCh (proposals r)) + mset (answered (outbox r))"

lemma chans_cong: "proposals r' = proposals r \<Longrightarrow> outbox r' = outbox r \<Longrightarrow> chans r' = chans r"
  by (simp add: chans_def)

lemma chans_emit: "answered es = [] \<Longrightarrow> chans (emit es r) = chans r"
  by (simp add: chans_def emit_def)

lemma answered_none: "(\<And>e. e \<in> set es \<Longrightarrow> answered [e] = []) \<Longrightarrow> answered es = []"
proof (induction es)
  case (Cons e es)
  then show ?case using answered_append [of "[e]" es] by simp
qed simp

lemma answered_sends [simp]:
  "answered (map (GoReplicateToPeer \<circ> f) ps) = []"
  "answered (map (\<lambda>p. GoSendRequestVote (f p) a b c) ps) = []"
  "answered (map (\<lambda>p. GoSendPreVote (f p) a b c) ps) = []"
  by (rule answered_none; auto)+

lemma chans_broadcast [simp]: "chans (broadcastHeartbeats r) = chans r"
  unfolding broadcastHeartbeats_def by (rule chans_emit) simp

lemma chans_follower [simp]: "chans (transitionToFollower t r) = chans r"
  by (simp add: chans_def node_defs Let_def failProposals_def answered_map_Respond)

lemma chans_respond [simp]: "chans (respond ch ok e r) = chans r + {#ch#}"
  by (simp add: chans_def node_defs)

lemma chans_complete: "chans (completeProposals r) = chans r"
proof -
  have a: "answered (concat (map (completeProposal r) ps)) =
      map respCh (filter (\<lambda>p. prIndex p \<le> commitIndex r) ps)" for ps
    by (induction ps) (simp_all add: completeProposal_def)
  have "mset (map respCh (filter P ps)) + mset (map respCh (filter (\<lambda>p. \<not> P p) ps)) = mset (map respCh ps)" for P ps
    by (induction ps) simp_all
  from this [of "\<lambda>p. prIndex p \<le> commitIndex r" "proposals r"] show ?thesis
    by (simp add: chans_def completeProposals_def emit_def a add_ac)
qed

section \<open>Applying\<close>

lemma chans_beginApply [simp]: "chans (beginApply r) = chans r"
  by (simp add: chans_def node_defs)

lemma chans_applyEnvelope: "chans (applyEnvelope v r) = chans r"
proof -
  have j: "chans (proposeSecondPhaseConfig c s) = chans s" for c s
    by (simp add: proposeSecondPhaseConfig_def EncodeConfigChangeEntry_def Let_def chans_def node_defs
        split: option.split)
  have c: "chans (applyConfigEntry c s) = chans s" "chans (applyCommand d s) = chans s" for c d s
    by (simp_all add: chans_def applyConfigEntry_def applyCommand_def split: option.split prod.split)
  have "chans (applyFinalConfig c s) = chans s" for c s
    by (simp add: applyFinalConfig_def Let_def disconnectRemovedPeers_def setPeerMaps_def)
      (simp add: chans_def node_defs Let_def)
  then show ?thesis
    by (simp add: applyEnvelope_def applyJointConfig_def c j split: option.split)
qed

lemma chans_applyNext: "chans (applyNext r) = chans r"
  using applyNext_cases [of r] chans_applyEnvelope by force

lemma chans_applyLogs [simp]: "chans (applyLogs r) = chans r"
proof -
  have "chans (applyLoop r) = chans r" by (rule applyLoop_keep) (rule chans_applyNext)
  moreover have "chans (compact s) = chans s" for s by (rule chans_cong) simp_all
  ultimately show ?thesis by (simp add: applyLogs_def chans_complete)
qed

section \<open>Handlers\<close>

lemma chans_frames [simp]:
  "chans (foldl appendOne r es) = chans r" "chans (restoreSnapshot snap r) = chans r"
proof -
  have "outbox (foldl appendOne r es) = outbox r" by (induction es arbitrary: r) simp_all
  then show "chans (foldl appendOne r es) = chans r" by (simp add: chans_def)
  have "outbox (restoreSnapshot snap r) = outbox r"
    by (simp add: restoreSnapshot_def restoreConfig_def node_defs Let_def split: option.split)
  then show "chans (restoreSnapshot snap r) = chans r" by (simp add: chans_def)
qed

lemma chans_updates [simp]:
  "chans (r\<lparr>commitIndex := i\<rparr>) = chans r" "chans (r\<lparr>votesReceived := v\<rparr>) = chans r"
  "chans (r\<lparr>preVoteVotesReceived := v\<rparr>) = chans r" "chans (r\<lparr>snapshotBuf := b\<rparr>) = chans r"
  "chans (r\<lparr>votedFor := c\<rparr>) = chans r" "chans (r\<lparr>electionTimer := t\<rparr>) = chans r"
  "chans (r\<lparr>nextIndex := m\<rparr>) = chans r" "chans (r\<lparr>matchIndex := m\<rparr>) = chans r"
  "chans (resetElectionTimer r) = chans r" "chans (fst (walState r)) = chans r"
  "chans (fst (appendLog e r)) = chans r"
  by (simp_all add: chans_def node_defs)

lemma chans_followLeader [simp]: "chans (followLeader t l r) = chans r"
  by (simp add: followLeader_def stepDownFor_def Let_def)

lemma chans_requests [simp]:
  "chans (fst (processRequestVote req r)) = chans r"
  "chans (fst (processAppendEntries areq r)) = chans r"
  "chans (fst (processInstallSnapshot sreq r)) = chans r"
  by (simp_all add: processRequestVote_def processAppendEntries_def processInstallSnapshot_def
      advanceCommit_def Let_def split: option.split)

lemma chans_transitionToLeader [simp]: "chans (transitionToLeader r) = chans r"
  by (simp add: transitionToLeader_def EncodeNoopEntry_def Let_def chans_emit split: option.split)
    (simp add: chans_def node_defs Let_def)

lemma chans_transitionToCandidate [simp]: "chans (transitionToCandidate r) = chans r"
proof -
  have "chans (asCandidate r) = chans r" by (simp add: chans_def asCandidate_def node_defs)
  moreover have "chans (startElection s) = chans s" for s
    by (simp add: startElection_def Let_def chans_emit)
  ultimately show ?thesis by (simp add: transitionToCandidate_eq)
qed

lemma chans_commitLoop [simp]: "chans (foldl commitStep r ns) = chans r"
  by (induction ns arbitrary: r) (simp_all add: commitStep_def)

lemma chans_responses [simp]:
  "chans (processPreVoteResponse p m r) = chans r" "chans (processRequestVoteResponse p m r) = chans r"
  "chans (processInstallSnapshotResponse p sm r) = chans r"
  "chans (processAppendEntriesResponse p am r) = chans r"
proof -
  have "chans (trimProposalTime s) = chans s" for s by (simp add: trimProposalTime_def chans_def)
  moreover have "chans (observeLag q a b s) = chans s" for q a b s
    unfolding observeLag_def by (rule chans_emit, rule answered_none) (auto split: option.splits)
  ultimately show "chans (processAppendEntriesResponse p am r) = chans r"
    by (simp add: processAppendEntriesResponse_def Let_def chans_emit)
  show "chans (processPreVoteResponse p m r) = chans r" "chans (processRequestVoteResponse p m r) = chans r"
    "chans (processInstallSnapshotResponse p sm r) = chans r"
    by (simp_all add: processPreVoteResponse_def processRequestVoteResponse_def
        processInstallSnapshotResponse_def Let_def chans_emit)
qed

lemma chans_client:
  "chans (handleClientCommand cmd ch r) = chans r + {#ch#}"
  "chans (handleConfigChange req ch r) = chans r + {#ch#}"
proof -
  have "chans (clientAppended cmd ch r) = chans r + {#ch#}"
    by (simp add: clientAppended_def Let_def) (simp add: chans_def node_defs)
  then show "chans (handleClientCommand cmd ch r) = chans r + {#ch#}"
    by (simp add: handleClientCommand_cases Let_def split: option.split)
  have "chans (configAppended j ch r) = chans r + {#ch#}" for j
    by (simp add: configAppended_def Let_def) (simp add: chans_def node_defs)
  then show "chans (handleConfigChange req ch r) = chans r + {#ch#}"
    by (simp add: handleConfigChange_cases split: sum.split option.split)
qed

section \<open>Properties\<close>

text \<open>The channel that an event brings with it.\<close>

fun newChan :: "event \<Rightarrow> nat multiset" where
  "newChan (ClientCmd cmd ch) = {#ch#}"
| "newChan (ConfigChange req ch) = {#ch#}"
| "newChan _ = {#}"

text \<open>
  C18. No client is forgotten and none is answered twice: after any sequence of events, the
  channels still waiting together with those that have been answered are exactly those that
  were there before and those that the requests of the sequence brought, each as often as
  it came.
\<close>

theorem every_request_answered_once:
  "mset (map respCh (proposals (foldl (\<lambda>s ev. handleEvent ev s) r evs))) +
     mset (answered (outbox (foldl (\<lambda>s ev. handleEvent ev s) r evs))) =
   mset (map respCh (proposals r)) + mset (answered (outbox r)) + sum_list (map newChan evs)"
proof -
  have "chans (handleEvent ev s) = chans s + newChan ev" for ev s
  proof -
    have "chans (fst (handleRPC m s)) = chans s" for m by (cases m) simp_all
    moreover have "chans (electionTimerFired s) = chans s"
      by (simp add: electionTimerFired_def startPreVote_def Let_def chans_emit)
    moreover have "chans (heartbeatTick s) = chans s" "chans (fst (replicateToPeer p s)) = chans s" for p
      by (simp_all add: heartbeatTick_def replicateToPeer_def Let_def chans_emit)
    ultimately show ?thesis by (cases ev) (simp_all add: chans_client)
  qed
  then have "chans (foldl (\<lambda>s ev. handleEvent ev s) r evs) = chans r + sum_list (map newChan evs)"
    by (induction evs arbitrary: r) (simp_all add: add_ac)
  then show ?thesis by (simp add: chans_def)
qed

end
