(* ===== verification/Service.thy ===== *)
theory Service
  imports Gateway Machine Clients
begin

text \<open>
  The components put together: the HTTP interface of a node before the node itself, and the
  gateway before the interface. The contract that the interface needs of a node is the locale
  \<open>kv_node\<close>; a leader that is alone in its cluster satisfies it.
\<close>

section \<open>Requests to a node\<close>

fun replies :: "nat \<Rightarrow> effect list \<Rightarrow> cmdResp list" where
  "replies ch [] = []"
| "replies ch (Respond c res # es) = (if c = ch then res # replies ch es else replies ch es)"
| "replies ch (e # es) = replies ch es"

text \<open>
  \<^verbatim>\<open>ProposeWithClient\<close> on a node whose event loop takes the request from the channel at once:
  the result, or \<open>None\<close> while the caller still waits on its channel \<open>ch\<close>, and the node.
\<close>

definition proposeNode ::
  "nat \<Rightarrow> string \<Rightarrow> string \<Rightarrow> string \<Rightarrow> string \<Rightarrow> int \<Rightarrow> raft \<Rightarrow> (bool \<times> string option) option \<times> raft" where
  "proposeNode ch op key val clientID requestID r =
     (case ProposeWithClient op key val clientID requestID of
        Inl e \<Rightarrow> (Some (False, Some e), r)
      | Inr cmd \<Rightarrow>
          let r' = handleClientCommand cmd ch r
          in (case replies ch (outbox r') of [] \<Rightarrow> None | res # _ \<Rightarrow> Some (awaitPropose True res), r'))"

text \<open>A read during which the node does nothing else and no peer answers.\<close>

definition getNode :: "string \<Rightarrow> raft \<Rightarrow> string \<times> bool \<times> bool" where
  "getNode key r = Get key r r [] [r] r"

text \<open>The answers of backend \<open>b\<close> are those of a node in state \<open>s\<close>.\<close>

definition talksTo ::
  "(string \<Rightarrow> string \<Rightarrow> string \<Rightarrow> string \<Rightarrow> int \<Rightarrow> 's \<Rightarrow> (bool \<times> string option) option \<times> 's) \<Rightarrow>
   (string \<Rightarrow> 's \<Rightarrow> string \<times> bool \<times> bool) \<Rightarrow> ('s \<Rightarrow> bool \<times> string) \<Rightarrow> backend \<Rightarrow> 's \<Rightarrow> bool" where
  "talksTo propose get leads b s \<longleftrightarrow> bkIsLeader b = leads s \<and> (\<forall>k. bkGet b k = get k s) \<and>
     (\<forall>op k v c i x. fst (propose op k v c i s) = Some x \<longrightarrow> bkPropose b op k v c i = x)"

definition kvRequest :: "string \<Rightarrow> string \<Rightarrow> bytes \<Rightarrow> request \<Rightarrow> bool" where
  "kvRequest meth key body q \<longleftrightarrow> rqMethod q = meth \<and> rqPath q = ''/kv/'' @ key \<and> rqBody q = (body, None) \<and>
     key \<noteq> [] \<and> length key \<le> MaxKeySize \<and> length body \<le> MaxValueSize"

text \<open>The rate limiter lets the request pass at time \<open>now\<close>, and its token is accepted.\<close>

definition admitted :: "rat \<Rightarrow> request \<Rightarrow> Server \<Rightarrow> bool" where
  "admitted now q s \<longleftrightarrow> snd (Allow now (limiter s)) \<and> authenticate s q = None"

lemma authenticate_limiter [simp]: "authenticate (s\<lparr>limiter := l\<rparr>) q = authenticate s q"
  by (simp add: authenticate_def)

lemma TrimPrefix_append [simp]: "TrimPrefix (p @ s) p = s" "HasPrefix (p @ s) p"
  by (simp_all add: TrimPrefix_def HasPrefix_def)

lemma serveAPI_key:
  assumes "kvRequest meth key body q" "admitted now q s" "meth \<noteq> ''OPTIONS''"
  shows "snd (serveAPI now b q s) = serveKey (s\<lparr>limiter := fst (Allow now (limiter s))\<rparr>) b q (corsHeaders freshWriter)"
proof -
  let ?w = "corsHeaders freshWriter"
  have "HasPrefix (rqPath q) ''/kv/''" using assms(1) by (simp add: kvRequest_def HasPrefix_def)
  moreover from this have "rqPath q \<notin> {''/healthz'', ''/status'', ''/admin/addnode'', ''/admin/removenode'', ''/metrics''}"
    by (auto simp: HasPrefix_def)
  ultimately have "serveMux now b q (s, ?w) = handleKV now b q (s, ?w)" by (simp add: serveMux_def)
  with assms show ?thesis
    by (simp add: serveAPI_def recoveryMiddleware_def Let_def handleKV_eq kvRequest_def admitted_def)
qed

lemma serveKey_leader:
  assumes "kvRequest meth key body q" "authenticate s q = None" "fst (bkIsLeader b)"
  shows "serveKey s b q w =
    (if meth = ''GET'' then handleGet b key w else if meth = ''PUT'' then handlePut b q key w
     else if meth = ''DELETE'' then handleDelete b q key w else http_Error ''{\"error\": \"method not allowed\"}'' 405 w)"
proof -
  have "TrimPrefix (rqPath q) ''/kv/'' = key" "rqMethod q = meth" "key \<noteq> []" "length key \<le> MaxKeySize"
    using assms(1) TrimPrefix_append(1) [of "''/kv/''" key] by (simp_all add: kvRequest_def)
  with assms(2,3) show ?thesis by (simp add: serveKey_def Let_def)
qed

lemma handlePut_body:
  assumes "kvRequest meth key body q" "extractClientMetadata q body = (cid, rid, val)"
  shows "handlePut b q key w = answerWrite (bkPropose b ''PUT'' key val cid rid) w"
  using assms by (simp add: handlePut_def kvRequest_def readLimited_def)

lemma handleDelete_body:
  assumes "kvRequest meth key body q" "extractClientMetadata q body = (cid, rid, val)"
  shows "handleDelete b q key w = answerWrite (bkPropose b ''DEL'' key [] cid rid) w"
  using assms by (simp add: handleDelete_def kvRequest_def readLimited_def)

lemma answerWrite_ok: "wSent w = None \<Longrightarrow> statusOf (answerWrite (True, None) w) = 200"
  by (simp add: answerWrite_def statusOf_def)

section \<open>The contract of a node\<close>

locale kv_node =
  fixes propose :: "string \<Rightarrow> string \<Rightarrow> string \<Rightarrow> string \<Rightarrow> int \<Rightarrow> 's \<Rightarrow> (bool \<times> string option) option \<times> 's"
    and get :: "string \<Rightarrow> 's \<Rightarrow> string \<times> bool \<times> bool"
    and leads :: "'s \<Rightarrow> bool \<times> string"
    and ready :: "string \<Rightarrow> string \<Rightarrow> string \<Rightarrow> string \<Rightarrow> int \<Rightarrow> 's \<Rightarrow> bool"
    and contents :: "'s \<Rightarrow> string \<Rightarrow> string option"
  assumes leading: "ready op k v c i s \<Longrightarrow> fst (leads s)" "ready op k v c i s \<Longrightarrow> fst (leads (snd (propose op k v c i s)))"
    and accepted: "ready op k v c i s \<Longrightarrow> fst (propose op k v c i s) = Some (True, None)"
    and reads: "ready op k v c i s \<Longrightarrow> get key (snd (propose op k v c i s)) =
      (case contents (snd (propose op k v c i s)) key of Some x \<Rightarrow> (x, True, True) | None \<Rightarrow> ([], False, True))"
begin

lemma put_answer:
  assumes "kvRequest ''PUT'' key body q" "admitted now q s" "extractClientMetadata q body = (cid, rid, val)"
    and "ready ''PUT'' key val cid rid st" "talksTo propose get leads b st"
  shows "statusOf (snd (serveAPI now b q s)) = 200"
proof -
  have "bkPropose b ''PUT'' key val cid rid = (True, None)" "fst (bkIsLeader b)"
    using assms(4,5) accepted leading by (auto simp: talksTo_def)
  moreover have "wSent (corsHeaders freshWriter) = None" by (simp add: freshWriter_def)
  ultimately show ?thesis
    using serveAPI_key [OF assms(1,2)] serveKey_leader [OF assms(1)] assms(2) handlePut_body [OF assms(1,3)]
    by (simp add: admitted_def answerWrite_ok)
qed

lemma delete_answer:
  assumes "kvRequest ''DELETE'' key body q" "admitted now q s" "extractClientMetadata q body = (cid, rid, val)"
    and "ready ''DEL'' key [] cid rid st" "talksTo propose get leads b st"
  shows "statusOf (snd (serveAPI now b q s)) = 200"
proof -
  have "bkPropose b ''DEL'' key [] cid rid = (True, None)" "fst (bkIsLeader b)"
    using assms(4,5) accepted leading by (auto simp: talksTo_def)
  moreover have "wSent (corsHeaders freshWriter) = None" by (simp add: freshWriter_def)
  ultimately show ?thesis
    using serveAPI_key [OF assms(1,2)] serveKey_leader [OF assms(1)] assms(2) handleDelete_body [OF assms(1,3)]
    by (simp add: admitted_def answerWrite_ok)
qed

lemma get_answer:
  assumes "kvRequest ''GET'' key body q" "admitted now q s" "ready op k v c i st"
    and "talksTo propose get leads b (snd (propose op k v c i st))"
  shows "case contents (snd (propose op k v c i st)) key of
      Some x \<Rightarrow> statusOf (snd (serveAPI now b q s)) = 200 \<and>
        wBody (snd (serveAPI now b q s)) = json_print (encMap JStr [(''key'', key), (''value'', x)]) @ [CHR 0x0A]
    | None \<Rightarrow> statusOf (snd (serveAPI now b q s)) = 404"
proof -
  have "fst (bkIsLeader b)" using assms(3,4) leading by (auto simp: talksTo_def)
  moreover have "bkGet b key = (case contents (snd (propose op k v c i st)) key of
      Some x \<Rightarrow> (x, True, True) | None \<Rightarrow> ([], False, True))"
    using assms(3,4) reads by (simp add: talksTo_def)
  moreover from calculation have "snd (serveAPI now b q s) = handleGet b key (corsHeaders freshWriter)"
    using serveAPI_key [OF assms(1,2)] serveKey_leader [OF assms(1)] assms(2) by (simp add: admitted_def)
  moreover have "wSent (corsHeaders freshWriter) = None" "wBody (corsHeaders freshWriter) = []"
    by (simp_all add: freshWriter_def corsHeaders_def)
  ultimately show ?thesis
    by (cases "contents (snd (propose op k v c i st)) key")
      (simp_all add: handleGet_def, simp add: statusOf_def EncodeTo_def)
qed

end

section \<open>A lone leader satisfies the contract\<close>

definition loneReady :: "nat \<Rightarrow> string \<Rightarrow> string \<Rightarrow> string \<Rightarrow> string \<Rightarrow> int \<Rightarrow> raft \<Rightarrow> bool" where
  "loneReady ch op key val cid rid r \<longleftrightarrow> state r = Leader \<and> node_inv r \<and> steady_node {raft_id r} r \<and>
     lastApplied r = lastLogIndex r \<and> int64 rid \<and> ch \<notin># chans r \<and>
     (\<forall>cmd. ProposeWithClient op key val cid rid = Inr cmd \<longrightarrow>
        snd (appendLog \<lparr>Index = lastLogIndex r + 1, Term = currentTerm r, Command = cmd\<rparr> r) = None)"

lemma replies_answered: "length (replies ch es) = count (mset (answered es)) ch"
  by (induction es rule: answered.induct) simp_all

lemma replies_iff: "res \<in> set (replies ch es) \<longleftrightarrow> Respond ch res \<in> set es"
  by (induction es rule: answered.induct) auto

text \<open>A fresh channel receives one answer only.\<close>

lemma replies_single:
  assumes "ch \<notin># chans r" "Respond ch res \<in> set (outbox (handleClientCommand cmd ch r))"
  shows "replies ch (outbox (handleClientCommand cmd ch r)) = [res]"
proof -
  let ?l = "replies ch (outbox (handleClientCommand cmd ch r))"
  have "count (chans (handleClientCommand cmd ch r)) ch = 1"
    using assms(1) by (simp add: chans_client not_in_iff)
  then have "length ?l \<le> 1" unfolding chans_def by (simp add: replies_answered)
  moreover have "res \<in> set ?l" using assms(2) by (simp add: replies_iff)
  ultimately show ?thesis by (cases ?l) auto
qed

lemma ProposeWithClient_ok: "int64 rid \<Longrightarrow> \<exists>cmd. ProposeWithClient op key val cid rid = Inr cmd"
  using DecodeLogEntry_command [of "\<lparr>Op = op, Key = key, Val = val, ClientID = cid, RequestID = rid\<rparr>"]
  by (auto simp: ProposeWithClient_def)

lemma Get_lone:
  assumes "state r = Leader" "steady_node {raft_id r} r" "commitIndex r \<le> lastApplied r"
  shows "getNode key r = (case map_of (kv r) key of Some x \<Rightarrow> (x, True, True) | None \<Rightarrow> ([], False, True))"
  using assms effectivePeers_lone [OF assms(2)]
  by (simp add: getNode_def Get_def confirmLeaderQuorum_def readKV_def Let_def split: option.split)

text \<open>The node behind a write.\<close>

lemma proposeNode_lone:
  assumes "loneReady ch op key val cid rid r"
  shows "fst (proposeNode ch op key val cid rid r) = Some (True, None)"
    "fst (IsLeader (snd (proposeNode ch op key val cid rid r)))"
    "getNode k (snd (proposeNode ch op key val cid rid r)) =
       (case map_of (kv (snd (proposeNode ch op key val cid rid r))) k of Some x \<Rightarrow> (x, True, True) | None \<Rightarrow> ([], False, True))"
    "(kv (snd (proposeNode ch op key val cid rid r)), dedupTable (snd (proposeNode ch op key val cid rid r))) =
       applyStore (sanitizeCommand \<lparr>Op = op, Key = key, Val = val, ClientID = cid, RequestID = rid\<rparr>) (kv r, dedupTable r)"
proof -
  have r: "state r = Leader" "node_inv r" "steady_node {raft_id r} r" "lastApplied r = lastLogIndex r"
    "int64 rid" "ch \<notin># chans r"
    using assms by (simp_all add: loneReady_def)
  from ProposeWithClient_ok [OF r(5)] obtain cmd where cmd: "ProposeWithClient op key val cid rid = Inr cmd" by blast
  with assms have "snd (appendLog \<lparr>Index = lastLogIndex r + 1, Term = currentTerm r, Command = cmd\<rparr> r) = None"
    by (simp add: loneReady_def)
  from lone_leader_write [OF cmd r(5,1,2,3) this] obtain a where
    a: "handleClientCommand cmd ch r = applyLogs a" "node_inv a" "plain_log (log a)" "state a = Leader"
      "steady_node {raft_id a} a" "Respond ch \<lparr>success = True, err = None\<rparr> \<in> set (outbox (applyLogs a))"
      "(kv (applyLogs a), dedupTable (applyLogs a)) =
         applyStore (sanitizeCommand \<lparr>Op = op, Key = key, Val = val, ClientID = cid, RequestID = rid\<rparr>)
           (applyAll (logCommands a (lastApplied r + 1) (lastLogIndex r)) (kv r, dedupTable r))" by metis
  let ?r' = "applyLogs a"
  have p: "proposeNode ch op key val cid rid r = (Some (True, None), ?r')"
    using replies_single [OF r(6), of _ cmd] a(1,6) by (simp add: proposeNode_def cmd Let_def awaitPropose_def)
  have st: "state ?r' = Leader" "steady_node {raft_id ?r'} ?r'" "commitIndex ?r' \<le> lastApplied ?r'"
    using applyLogs_plain [OF a(3)] a(4,5) steady_cong [of ?r' a "{raft_id a}"] by simp_all
  show "fst (proposeNode ch op key val cid rid r) = Some (True, None)"
    "fst (IsLeader (snd (proposeNode ch op key val cid rid r)))"
    using st by (simp_all add: p IsLeader_def)
  show "getNode k (snd (proposeNode ch op key val cid rid r)) =
       (case map_of (kv (snd (proposeNode ch op key val cid rid r))) k of Some x \<Rightarrow> (x, True, True) | None \<Rightarrow> ([], False, True))"
    using Get_lone [OF st] by (simp add: p)
  have "logCommands a (lastApplied r + 1) (lastLogIndex r) = []"
    by (simp add: logCommands_def entriesFromTo_def r(4) List.map_filter_simps)
  then show "(kv (snd (proposeNode ch op key val cid rid r)), dedupTable (snd (proposeNode ch op key val cid rid r))) =
       applyStore (sanitizeCommand \<lparr>Op = op, Key = key, Val = val, ClientID = cid, RequestID = rid\<rparr>) (kv r, dedupTable r)"
    using a(7) by (simp add: p applyAll_def)
qed

lemma loneReady_leads: "loneReady ch op key val cid rid r \<Longrightarrow> fst (IsLeader r)"
  by (simp add: loneReady_def IsLeader_def)

interpretation lone: kv_node "proposeNode ch" getNode IsLeader "loneReady ch" "\<lambda>r. map_of (kv r)" for ch
  by unfold_locales (simp_all add: proposeNode_lone loneReady_leads)

lemma demo_lone_loneReady:
  assumes "ProposeWithClient op key val cid rid = Inr cmd" "length cmd < 1000" "int64 rid"
  shows "loneReady ch op key val cid rid (demo_lone d)"
  using assms demo_lone_ready by (simp add: loneReady_def demo_lone_fields chans_def)

text \<open>A backend for the witnesses: the answers of a node in state \<open>r\<close>, for a request answered on channel \<open>ch\<close>.\<close>

definition demo_service :: "nat \<Rightarrow> raft \<Rightarrow> backend" where
  "demo_service ch r = demo_backend
     \<lparr>bkIsLeader := IsLeader r, bkGet := (\<lambda>k. getNode k r), bkStatus := GetStatus r,
      bkPropose := (\<lambda>op k v c i. case fst (proposeNode ch op k v c i r) of Some x \<Rightarrow> x | None \<Rightarrow> (False, None))\<rparr>"

lemma demo_service_talks: "talksTo (proposeNode ch) getNode IsLeader (demo_service ch r) r"
  by (simp add: talksTo_def demo_service_def)

section \<open>Properties\<close>


definition demo_get :: request where
  "demo_get = demo_put\<lparr>rqMethod := ''GET'', rqBody := ([], None)\<rparr>"


lemma asResponse_status [simp]: "rsStatusCode (asResponse w) = statusOf w"
  by (simp add: asResponse_def statusOf_def split: option.split)

lemma addAllHeaders_sent [simp]: "wSent (addAllHeaders h w) = wSent w"
proof -
  have vs: "wSent (foldl (\<lambda>w v. w\<lparr>wHeader := Header_Add k v (wHeader w)\<rparr>) w vs) = wSent w" for k vs w
    by (induction vs arbitrary: w) simp_all
  show ?thesis unfolding addAllHeaders_def by (induction h arbitrary: w) (auto simp: vs)
qed

text \<open>A request that passes the gateway's check, and the answer that it brings back.\<close>

lemma serveGateway_forwards:
  assumes "kvRequest meth key body q" "meth \<noteq> ''OPTIONS''" "gwAuthenticate g q = None" "leaderAddr g \<noteq> []"
    and "clBuild cl (leaderAddr g)" "proxyHeader g q = (g1, h)"
    and "fw = \<lparr>rqMethod = meth, rqPath = rqPath q, rqQuery = rqQuery q, rqRawQuery = rqRawQuery q, rqHeader = h,
           rqBody = (body, None), rqRemoteAddr = []\<rparr>"
    and "clDo cl (leaderAddr g) fw = Inr resp"
  obtains w' where "serveGateway cl files c t q g = ((g1, w'), [(leaderAddr g, fw)])" "statusOf w' = rsStatusCode resp"
proof -
  have "HasPrefix (rqPath q) ''/kv/''" using assms(1) by (simp add: kvRequest_def HasPrefix_def)
  moreover from this have "rqPath q \<notin> {''/cluster/overview'', ''/cluster/events'', ''/metrics/aggregate'', ''/healthz''}"
    by (auto simp: HasPrefix_def)
  ultimately have "gwMux cl files c t q (g, w) = proxyRequest cl q (leaderAddr g) (g, w)" for w
    using assms(3,4) by (simp add: gwMux_def handleKVProxy_def)
  then obtain w where w: "serveGateway cl files c t q g = proxyRequest cl q (leaderAddr g) (g, w)" "wSent w = None"
    using assms(1,2) by (auto simp: serveGateway_def corsMiddleware_def kvRequest_def Let_def freshWriter_def)
  let ?w' = "Write (fst (rsBody resp)) (WriteHeader (rsStatusCode resp) (addAllHeaders (rsHeader resp) w))"
  have "proxyRequest cl q (leaderAddr g) (g, w) = ((g1, ?w'), [(leaderAddr g, fw)])"
    using assms(1,5,6,7,8) by (simp add: proxyRequest_def readAll_def kvRequest_def Let_def)
  moreover have "statusOf ?w' = rsStatusCode resp" using w(2) by (simp add: statusOf_def)
  ultimately show thesis using that w(1) by simp
qed

text \<open>
  C37. A write that is lost behind a successful answer: the gateway numbers the requests of
  clients that send no number themselves, and starts with one again when it is restarted. When
  the node has executed a request of an earlier gateway for the same client address, the
  first write through the new gateway is answered with 200 but does not change the store.
\<close>

theorem gateway_restart_drops_write:
  assumes "kvRequest ''PUT'' key body q" "Header_Get (rqHeader q) ''X-Client-ID'' = []"
    and "Header_Get (rqHeader q) ''X-Request-ID'' = []" "body = [] \<or> UnmarshalPayload body = None"
    and "GatewayToken cfg = [] \<or> Header_Get (rqHeader q) ''Authorization'' = ''Bearer '' @ GatewayToken cfg"
    and "authToken s = [] \<or> authToken s = ClusterToken cfg" "snd (Allow now (limiter s))"
    and "addr \<noteq> []" "clBuild cl addr" "\<forall>fw. clDo cl addr fw = Inr (asResponse (snd (serveAPI now b fw s)))"
    and "talksTo (proposeNode ch) getNode IsLeader b r" "loneReady ch ''PUT'' key body (sessionID q) 1 r"
    and "1 \<le> lastId (dedupTable r) (sanitize (sessionID q))"
  shows "statusOf (snd (fst (serveGateway cl files c t q ((NewGateway cfg)\<lparr>leaderAddr := addr\<rparr>)))) = 200 \<and>
    kv (snd (proposeNode ch ''PUT'' key body (sessionID q) 1 r)) = kv r"
proof -
  let ?g = "(NewGateway cfg)\<lparr>leaderAddr := addr\<rparr>"
  have g: "GatewayToken (gwCfg ?g) = GatewayToken cfg" "ClusterToken (gwCfg ?g) = ClusterToken cfg"
    "reqIDCounter ?g = 0" "leaderAddr ?g = addr" by (simp_all add: NewGateway_def)
  obtain g1 h where h: "proxyHeader ?g q = (g1, h)" by fastforce
  let ?fw = "\<lparr>rqMethod = ''PUT'', rqPath = rqPath q, rqQuery = rqQuery q, rqRawQuery = rqRawQuery q, rqHeader = h,
      rqBody = (body, None), rqRemoteAddr = []\<rparr>"
  have fw: "kvRequest ''PUT'' key body ?fw" using assms(1) by (simp add: kvRequest_def)
  have "Header_Get h ''Authorization'' = (if ClusterToken cfg = [] then [] else ''Bearer '' @ ClusterToken cfg)"
    using proxyHeader_fields(1) [OF h] unfolding Header_Get_def g by simp
  then have adm: "admitted now ?fw s" using assms(6,7) by (auto simp: admitted_def authenticate_iff)
  have "FormatInt (sint (1 :: 64 word)) = ''1''" "Sscanf_d ''1'' 0 = 1" by code_simp+
  then have "Header_Get h ''X-Request-ID'' = ''1''" "Header_Get h ''X-Client-ID'' = sessionID q"
    using proxyHeader_fields(2,3) [OF h] assms(2,3) by (simp_all add: g Let_def)
  with \<open>Sscanf_d ''1'' 0 = 1\<close> assms(4) have meta: "extractClientMetadata ?fw body = (sessionID q, 1, body)"
    by (auto simp: extractClientMetadata_def Let_def sessionID_def)
  have "statusOf (snd (serveAPI now b ?fw s)) = 200"
    by (rule lone.put_answer [OF fw adm meta assms(12,11)])
  moreover have "gwAuthenticate ?g q = None" using assms(5) unfolding gwAuthenticate_iff g .
  from serveGateway_forwards [OF assms(1) _ this _ _ h refl, where cl = cl and files = files and c = c and t = t
      and resp = "asResponse (snd (serveAPI now b ?fw s))"] assms(8-10)
  obtain w' where "serveGateway cl files c t q ?g = ((g1, w'), [(addr, ?fw)])"
    "statusOf w' = statusOf (snd (serveAPI now b ?fw s))" unfolding g(4) by auto
  moreover have "kv (snd (proposeNode ch ''PUT'' key body (sessionID q) 1 r)) = kv r"
    using proposeNode_lone(4) [OF assms(12)] assms(13)
    by (simp add: applyStore_cases tagged_def sanitizeCommand_def sessionID_def)
  ultimately show ?thesis by simp
qed

definition demo_plain_put :: request where
  "demo_plain_put = demo_put\<lparr>rqHeader := [], rqRemoteAddr := ''h:1''\<rparr>"

definition demo_table :: dedup where
  "demo_table = snd (applyStore \<lparr>Op = ''PUT'', Key = ''x'', Val = ''y'', ClientID = ''gw-h'', RequestID = 1\<rparr> ([], []))"

theorem gateway_restart_drops_write_witness:
  "let r = demo_lone demo_table; cl = demo_client\<lparr>clDo := (\<lambda>_ fw. Inr (asResponse
         (snd (serveAPI 1 (demo_service 7 r) fw (NewServer [] [] False 0)))))\<rparr>;
       cfg = \<lparr>NodeAddrs = [''a:1''], GatewayToken = [], ClusterToken = [], FrontendDir = [], PollInterval = 0\<rparr>
   in statusOf (snd (fst (serveGateway cl (\<lambda>r w. w) 0 ''t'' demo_plain_put ((NewGateway cfg)\<lparr>leaderAddr := ''a:1''\<rparr>)))) = 200 \<and>
      map_of (kv (snd (proposeNode 7 ''PUT'' ''k'' ''v'' ''gw-h'' 1 r))) ''k'' = None"
proof -
  let ?r = "demo_lone demo_table" and ?s = "NewServer [] [] False 0"
  let ?cfg = "\<lparr>NodeAddrs = [''a:1''], GatewayToken = [], ClusterToken = [], FrontendDir = [], PollInterval = 0\<rparr>"
  let ?cl = "demo_client\<lparr>clDo := (\<lambda>_ fw. Inr (asResponse (snd (serveAPI 1 (demo_service 7 ?r) fw ?s))))\<rparr>"
  have q: "kvRequest ''PUT'' ''k'' ''v'' demo_plain_put"
    by (simp add: kvRequest_def demo_plain_put_def demo_put_def MaxKeySize_def MaxValueSize_def)
  have h: "Header_Get (rqHeader demo_plain_put) n = []" for n
    by (simp add: Header_Get_def demo_plain_put_def)
  have v: "UnmarshalPayload ''v'' = None" "snd (Allow 1 (limiter ?s))" "sessionID demo_plain_put = ''gw-h''"
    "1 \<le> lastId demo_table (sanitize ''gw-h'')"
    by code_simp+
  have "ProposeWithClient ''PUT'' ''k'' ''v'' ''gw-h'' 1 = Inr (case ProposeWithClient ''PUT'' ''k'' ''v'' ''gw-h'' 1 of Inr c \<Rightarrow> c)"
    "length (case ProposeWithClient ''PUT'' ''k'' ''v'' ''gw-h'' 1 of Inr c \<Rightarrow> c) < 1000"
    by code_simp+
  then have "loneReady 7 ''PUT'' ''k'' ''v'' (sessionID demo_plain_put) 1 ?r"
    unfolding v(3) by (rule demo_lone_loneReady) simp
  from gateway_restart_drops_write [where cfg = ?cfg and cl = ?cl and addr = "''a:1''",
      OF q h h _ _ _ v(2) _ _ _ demo_service_talks this] v
  show ?thesis by (simp add: Let_def demo_client_def NewServer_def demo_lone_fields)
qed

section \<open>Headers that are set twice\<close>

lemma canonicalFrom_idem: "canonicalFrom up (canonicalFrom up s) = canonicalFrom up s"
proof -
  have u: "upperChar (upperChar c) = upperChar c" for c
    by (auto simp: upperChar_def)
  have l: "lowerChar (lowerChar c) = lowerChar c" for c
    by (auto simp: lowerChar_def)
  have "char_of (45 :: nat) = CHR ''-''" by code_simp
  then have i: "c = CHR ''-'' \<longleftrightarrow> byte c = 45" for c using byte_char [of c 45] by (auto simp: byte_def)
  have m: "byte (char_of (byte c - 32)) = byte c - 32" if "byte c \<le> 122" for c
    using that by (intro byte_char_of) simp
  have b: "byte (upperChar c) = (if 97 \<le> byte c \<and> byte c \<le> 122 then byte c - 32 else byte c)"
    "byte (lowerChar c) = (if 65 \<le> byte c \<and> byte c \<le> 90 then byte c + 32 else byte c)" for c
    by (auto simp: upperChar_def lowerChar_def m)
  have d: "upperChar c = CHR ''-'' \<longleftrightarrow> c = CHR ''-''" "lowerChar c = CHR ''-'' \<longleftrightarrow> c = CHR ''-''" for c
    unfolding i b by auto
  show ?thesis by (induction s arbitrary: up) (simp_all add: u l d)
qed

lemma canonical_idem [simp]: "canonical (canonical n) = canonical n"
  by (simp add: canonical_def canonicalFrom_idem)

text \<open>A header map as the response writer builds it, with the given values for one name.\<close>

definition wf_header :: "header \<Rightarrow> bool" where
  "wf_header h \<longleftrightarrow> wf_map h \<and> (\<forall>k \<in> fst ` set h. canonical k = k)"

abbreviation origin :: string where
  "origin \<equiv> ''Access-Control-Allow-Origin''"

definition cors_ok :: "writer \<Rightarrow> bool" where
  "cors_ok w \<longleftrightarrow> wf_header (wHeader w) \<and> map_of (wHeader w) origin = Some [''*''] \<and>
     (case wSent w of None \<Rightarrow> True | Some (code, h) \<Rightarrow> wf_header h \<and> map_of h origin = Some [''*''])"

named_theorems cors \<open>the operations of the writer keep the origin header\<close>

lemma wf_header_Set: "wf_header h \<Longrightarrow> wf_header (Header_Set n v h)"
  by (auto simp: wf_header_def Header_Set_def wf_map_def distinct_update dom_update)

lemma cors_SetHeader [cors]: "cors_ok w \<Longrightarrow> canonical n \<noteq> origin \<Longrightarrow> cors_ok (SetHeader n v w)"
  by (auto simp: cors_ok_def SetHeader_def wf_header_Set)

lemma cors_WriteHeader [cors]: "cors_ok w \<Longrightarrow> cors_ok (WriteHeader code w)"
  by (auto simp: cors_ok_def WriteHeader_def split: option.splits)

lemma cors_Write [cors]: "cors_ok w \<Longrightarrow> cors_ok (Write bs w)"
  using cors_WriteHeader [of w 200] by (simp add: Write_def Let_def cors_ok_def)

lemma cors_names [simp]:
  "canonical ''X-Content-Type-Options'' = ''X-Content-Type-Options''" "canonical ''Location'' = ''Location''"
  by code_simp+

lemma cors_http_Error [cors]: "cors_ok w \<Longrightarrow> cors_ok (http_Error msg code w)"
  unfolding http_Error_def by (intro cors) simp_all

lemma cors_EncodeTo [cors]: "cors_ok w \<Longrightarrow> cors_ok (EncodeTo v w)"
  unfolding EncodeTo_def by (intro cors)

lemma cors_handlers [cors]:
  assumes "cors_ok w"
  shows "cors_ok (handleGet b key w)" "cors_ok (answerWrite res w)" "cors_ok (handleStatus b r w)"
    "cors_ok (handleRoot b r w)" "cors_ok (handleHealthz w)" "cors_ok (MetricsHandler txt w)"
    "cors_ok (answerConfigChange b res w)"
  using assms
  by (auto simp: handleGet_def answerWrite_def handleStatus_def handleRoot_def handleHealthz_def MetricsHandler_def
      answerConfigChange_def intro!: cors split: prod.split option.split)

lemma cors_requests [cors]:
  assumes "cors_ok w"
  shows "cors_ok (handlePut b r key w)" "cors_ok (handleDelete b r key w)"
    "cors_ok (handleAddNode s b r w)" "cors_ok (handleRemoveNode s b r w)"
  using assms
  by (auto simp: handlePut_def handleDelete_def handleAddNode_def handleRemoveNode_def Let_def
      intro!: cors split: prod.split option.split)

lemma cors_serveKey [cors]: "cors_ok w \<Longrightarrow> cors_ok (serveKey s b r w)"
  by (auto simp: serveKey_def Let_def intro!: cors split: option.split)

lemma cors_serveMux [cors]: "cors_ok w \<Longrightarrow> cors_ok (snd (serveMux now b r (s, w)))"
  by (auto simp: serveMux_def handleKV_eq Let_def intro!: cors)

lemma cors_serveAPI: "cors_ok (snd (serveAPI now b r s))"
proof -
  have "wf_header []" by (simp add: wf_header_def)
  then have "cors_ok (corsHeaders freshWriter)"
    by (simp add: cors_ok_def corsHeaders_def freshWriter_def SetHeader_def wf_header_Set)
  then show ?thesis
    by (auto simp: serveAPI_def recoveryMiddleware_def Let_def intro!: cors)
qed

lemma addAllHeaders_get:
  assumes "wf_header h" "canonical name = name" "map_of (wHeader w) name = Some old" "map_of h name = Some vs"
  shows "map_of (wHeader (addAllHeaders h w)) name = Some (old @ vs)"
proof -
  let ?add = "\<lambda>k w vs. foldl (\<lambda>w v. w\<lparr>wHeader := Header_Add k v (wHeader w)\<rparr>) w vs"
  have one: "map_of (wHeader (?add k w vs)) name = (if k = name then Some (old @ vs) else Some old)"
    if "canonical k = k" "map_of (wHeader w) name = Some old" for k w vs old
    using that by (induction vs arbitrary: w old) (auto simp: Header_Add_def update_conv')
  have "map_of (wHeader (addAllHeaders h w)) name = Some (old @ (case map_of h name of None \<Rightarrow> [] | Some vs \<Rightarrow> vs))"
    using assms(1,3)
  proof (induction h arbitrary: w old)
    case (Cons p h)
    obtain k us where p: "p = (k, us)" by fastforce
    have h: "wf_header h" "canonical k = k" "map_of h k = None" using Cons.prems(1) by (auto simp: wf_header_def p)
    have "addAllHeaders (p # h) w = addAllHeaders h (?add k w us)" by (simp add: addAllHeaders_def p)
    with Cons.IH [OF h(1)] one [OF h(2) Cons.prems(2), of us] h(3) show ?case by (auto simp: p)
  qed (simp add: addAllHeaders_def)
  with assms(4) show ?thesis by simp
qed

text \<open>
  A browser is turned away: the interface of a node sets the header that allows foreign
  origins, and so does the gateway before it adds the headers of the node's response. Every
  forwarded response therefore carries the header with two values, which browsers refuse.
\<close>

theorem gateway_duplicates_origin_header:
  assumes "serveGateway cl files c t q g = ((g', w'), sent)" "sent \<noteq> []"
    and "\<forall>fw. clDo cl (leaderAddr g) fw = Inr (asResponse (snd (serveAPI now b fw s)))"
  shows "\<exists>code h. wSent w' = Some (code, h) \<and> map_of h ''Access-Control-Allow-Origin'' = Some [''*'', ''*'']"
proof -
  from assms(1,2) obtain w where w: "gwMux cl files c t q (g, w) = ((g', w'), sent)" "wSent w = None"
    "map_of (wHeader w) origin = Some [''*'']"
    by (auto simp: serveGateway_def corsMiddleware_def Let_def freshWriter_def SetHeader_def split: if_splits)
  from gwMux_sent(1) [OF w(1) assms(2)] assms(2,3) obtain fw where
    "w' = (let resp = asResponse (snd (serveAPI now b fw s))
           in Write (fst (rsBody resp)) (WriteHeader (rsStatusCode resp) (addAllHeaders (rsHeader resp) w)))"
    by (auto simp: proxyRequest_def readAll_def Let_def split: prod.splits option.splits if_splits)
  moreover have "wf_header (rsHeader (asResponse (snd (serveAPI now b fw s))))"
    "map_of (rsHeader (asResponse (snd (serveAPI now b fw s)))) origin = Some [''*'']"
    using cors_serveAPI [of now b fw s] by (auto simp: cors_ok_def asResponse_def split: option.splits)
  ultimately show ?thesis
    using addAllHeaders_get [OF _ _ w(3), of "rsHeader (asResponse (snd (serveAPI now b fw s)))" "[''*'']"] w(2)
    by (simp add: Let_def)
qed

theorem gateway_duplicates_origin_header_witness:
  "\<exists>code h. wSent (snd (fst (serveGateway (demo_client\<lparr>clDo := (\<lambda>_ fw. Inr (asResponse
        (snd (serveAPI 0 demo_backend fw (NewServer ''cl'' [] False 0)))))\<rparr>) (\<lambda>r w. w) 0 ''t''
        (demo_write ''Bearer gw'') demo_gateway))) = Some (code, h) \<and>
     map_of h ''Access-Control-Allow-Origin'' = Some [''*'', ''*'']"
proof -
  let ?cl = "demo_client\<lparr>clDo := (\<lambda>_ fw. Inr (asResponse (snd (serveAPI 0 demo_backend fw (NewServer ''cl'' [] False 0)))))\<rparr>"
  let ?run = "serveGateway ?cl (\<lambda>r w. w) 0 ''t'' (demo_write ''Bearer gw'') demo_gateway"
  have q: "kvRequest ''PUT'' ''k'' ''v'' (demo_write ''Bearer gw'')"
    by (simp add: kvRequest_def demo_write_def MaxKeySize_def MaxValueSize_def)
  have g: "gwAuthenticate demo_gateway (demo_write ''Bearer gw'') = None" "leaderAddr demo_gateway \<noteq> []" by code_simp+
  obtain g1 h where h: "proxyHeader demo_gateway (demo_write ''Bearer gw'') = (g1, h)" by fastforce
  obtain w' fw where run: "?run = ((g1, w'), [(leaderAddr demo_gateway, fw)])"
    by (rule serveGateway_forwards [OF q _ g _ h refl, where cl = ?cl and files = "\<lambda>r w. w" and c = 0 and t = "''t''"])
      (simp_all add: demo_client_def)
  from gateway_duplicates_origin_header [OF this, of 0 demo_backend "NewServer ''cl'' [] False 0"]
  show ?thesis unfolding run by simp
qed

end
