(* ===== verification/Transport.thy ===== *)
theory Transport
  imports Prelude
begin

text \<open>
  The certificates of a node (\<^verbatim>\<open>src/transport/grpc.go\<close>): which files are generated when some are
  missing, and the TLS configurations that are built from them. Keys, certificates and their
  encodings are parameters, and so is what a file operation does; the files are a map.
\<close>

section \<open>Parameters\<close>

text \<open>
  The cryptographic library as one call sees it: the two keys it generates, the certificates
  it makes for them, the encodings, and the readers of the files.
\<close>

record 'k crypto =
  caKeyGen :: "'k result"
  nodeKeyGen :: "'k result"
  caCertOf :: "'k \<Rightarrow> bytes result"
  nodeCertOf :: "'k \<Rightarrow> 'k \<Rightarrow> bytes result"
  marshalECPrivateKey :: "'k \<Rightarrow> bytes result"
  pemEncode :: "string \<Rightarrow> bytes \<Rightarrow> bytes"
  appendCertsFromPEM :: "bytes \<Rightarrow> bool"
  loadX509KeyPair :: "bytes \<Rightarrow> bytes \<Rightarrow> (bytes \<times> bytes) result"

text \<open>How a write ends: before the file is opened, or with the encoding cut after some bytes.\<close>

datatype pem_outcome = PemOk | PemDirFails string | PemOpenFails string | PemEncodeFails nat string

record files =
  present :: "(string, bytes) gomap"
  directories :: "string list"
  outcomeOf :: "string \<Rightarrow> pem_outcome"

definition fileExists :: "string \<Rightarrow> files \<Rightarrow> bool" where
  "fileExists path fs \<longleftrightarrow> map_of (present fs) path \<noteq> None \<and> path \<notin> set (directories fs)"

definition writePEM :: "'k crypto \<Rightarrow> string \<Rightarrow> string \<Rightarrow> bytes \<Rightarrow> files \<Rightarrow> files \<times> string option" where
  "writePEM cr path blockType bs fs =
     (case outcomeOf fs path of
        PemDirFails e \<Rightarrow> (fs, Some (''failed to create dir: '' @ e))
      | PemOpenFails e \<Rightarrow> (fs, Some (''failed to create file '' @ path @ '': '' @ e))
      | PemEncodeFails n e \<Rightarrow>
          (fs\<lparr>present := AList.update path (take n (pemEncode cr blockType bs)) (present fs)\<rparr>, Some e)
      | PemOk \<Rightarrow> (fs\<lparr>present := AList.update path (pemEncode cr blockType bs) (present fs)\<rparr>, None))"

text \<open>A file is written only if it does not exist yet.\<close>

definition writeMissing :: "'k crypto \<Rightarrow> string \<Rightarrow> string \<Rightarrow> bytes \<Rightarrow> files \<Rightarrow> files \<times> string option" where
  "writeMissing cr path blockType bs fs =
     (if \<not> fileExists path fs then writePEM cr path blockType bs fs else (fs, None))"

section \<open>Generating what is missing\<close>

definition writeKey :: "'k crypto \<Rightarrow> string \<Rightarrow> 'k \<Rightarrow> files \<Rightarrow> files \<times> string option" where
  "writeKey cr keyPath nodeKey fs =
     (if \<not> fileExists keyPath fs
      then (case marshalECPrivateKey cr nodeKey of
              Inl e \<Rightarrow> (fs, Some (''failed to marshal node key: '' @ e))
            | Inr keyBytes \<Rightarrow> writePEM cr keyPath ''EC PRIVATE KEY'' keyBytes fs)
      else (fs, None))"

definition writeSet :: "'k crypto \<Rightarrow> string \<Rightarrow> string \<Rightarrow> string \<Rightarrow> bytes \<Rightarrow> bytes \<Rightarrow> 'k \<Rightarrow> files \<Rightarrow> files \<times> string option" where
  "writeSet cr caCertPath certPath keyPath caBytes nodeBytes nodeKey fs =
     (case writeMissing cr caCertPath ''CERTIFICATE'' caBytes fs of
        (fs1, Some e) \<Rightarrow> (fs1, Some e)
      | (fs1, None) \<Rightarrow>
          (case writeMissing cr certPath ''CERTIFICATE'' nodeBytes fs1 of
             (fs2, Some e) \<Rightarrow> (fs2, Some e)
           | (fs2, None) \<Rightarrow> writeKey cr keyPath nodeKey fs2))"

definition EnsureCertificatesExist :: "'k crypto \<Rightarrow> string \<Rightarrow> string \<Rightarrow> string \<Rightarrow> files \<Rightarrow> files \<times> string option" where
  "EnsureCertificatesExist cr caCertPath certPath keyPath fs =
     (if fileExists caCertPath fs \<and> fileExists certPath fs \<and> fileExists keyPath fs then (fs, None)
      else (case caKeyGen cr of
         Inl e \<Rightarrow> (fs, Some (''failed to generate CA key: '' @ e))
       | Inr caKey \<Rightarrow>
           (case caCertOf cr caKey of
              Inl e \<Rightarrow> (fs, Some (''failed to create CA certificate: '' @ e))
            | Inr caBytes \<Rightarrow>
                (case nodeKeyGen cr of
                   Inl e \<Rightarrow> (fs, Some (''failed to generate node key: '' @ e))
                 | Inr nodeKey \<Rightarrow>
                     (case nodeCertOf cr caKey nodeKey of
                        Inl e \<Rightarrow> (fs, Some (''failed to create node certificate: '' @ e))
                      | Inr nodeBytes \<Rightarrow>
                          writeSet cr caCertPath certPath keyPath caBytes nodeBytes nodeKey fs)))))"

section \<open>Credentials\<close>

record tlsConfig =
  Certificates :: "(bytes \<times> bytes) list"
  requireClientCert :: bool
  ClientCAs :: "bytes option"
  RootCAs :: "bytes option"
  ServerName :: string
  minTLS13 :: bool

definition readFile :: "string \<Rightarrow> files \<Rightarrow> bytes result" where
  "readFile path fs =
     (if path \<in> set (directories fs) then Inl ''is a directory''
      else (case map_of (present fs) path of None \<Rightarrow> Inl ''no such file or directory'' | Some bs \<Rightarrow> Inr bs))"

text \<open>The pool with the CA certificate and the key pair, which both loaders read.\<close>

definition loadPair :: "'k crypto \<Rightarrow> string \<Rightarrow> string \<Rightarrow> string \<Rightarrow> string \<Rightarrow> files \<Rightarrow> (bytes \<times> bytes \<times> bytes) result" where
  "loadPair cr side caCertPath certPath keyPath fs =
     (case readFile caCertPath fs of
        Inl e \<Rightarrow> Inl (''failed to read CA certificate: '' @ e)
      | Inr caCert \<Rightarrow>
          if \<not> appendCertsFromPEM cr caCert then Inl ''failed to append CA certificate to pool''
          else (case readFile certPath fs of
             Inl e \<Rightarrow> Inl (''failed to load '' @ side @ '' key pair: '' @ e)
           | Inr cert \<Rightarrow>
               (case readFile keyPath fs of
                  Inl e \<Rightarrow> Inl (''failed to load '' @ side @ '' key pair: '' @ e)
                | Inr key \<Rightarrow>
                    (case loadX509KeyPair cr cert key of
                       Inl e \<Rightarrow> Inl (''failed to load '' @ side @ '' key pair: '' @ e)
                     | Inr pair \<Rightarrow> Inr (caCert, pair)))))"

definition LoadServerCredentials :: "'k crypto \<Rightarrow> string \<Rightarrow> string \<Rightarrow> string \<Rightarrow> files \<Rightarrow> files \<times> tlsConfig result" where
  "LoadServerCredentials cr caCertPath serverCertPath serverKeyPath fs =
     (case EnsureCertificatesExist cr caCertPath serverCertPath serverKeyPath fs of
        (fs1, Some e) \<Rightarrow> (fs1, Inl (''failed to ensure certificates exist: '' @ e))
      | (fs1, None) \<Rightarrow>
          (fs1, case loadPair cr ''server'' caCertPath serverCertPath serverKeyPath fs1 of
             Inl e \<Rightarrow> Inl e
           | Inr (caCert, pair) \<Rightarrow>
               Inr \<lparr>Certificates = [pair], requireClientCert = True, ClientCAs = Some caCert, RootCAs = None,
                    ServerName = [], minTLS13 = True\<rparr>))"

definition LoadClientCredentials ::
  "'k crypto \<Rightarrow> string \<Rightarrow> string \<Rightarrow> string \<Rightarrow> string \<Rightarrow> files \<Rightarrow> files \<times> tlsConfig result" where
  "LoadClientCredentials cr caCertPath clientCertPath clientKeyPath serverName fs =
     (case EnsureCertificatesExist cr caCertPath clientCertPath clientKeyPath fs of
        (fs1, Some e) \<Rightarrow> (fs1, Inl (''failed to ensure certificates exist: '' @ e))
      | (fs1, None) \<Rightarrow>
          (fs1, case loadPair cr ''client'' caCertPath clientCertPath clientKeyPath fs1 of
             Inl e \<Rightarrow> Inl e
           | Inr (caCert, pair) \<Rightarrow>
               Inr \<lparr>Certificates = [pair], requireClientCert = False, ClientCAs = None, RootCAs = Some caCert,
                    ServerName = serverName, minTLS13 = True\<rparr>))"

section \<open>What is in the files afterwards\<close>

text \<open>A file that exists is never touched, and one that was missing holds what was generated.\<close>

lemma writePEM_ok:
  assumes "writePEM cr path ty bs fs = (fs', None)"
  shows "fs' = fs\<lparr>present := AList.update path (pemEncode cr ty bs) (present fs)\<rparr>"
  using assms by (auto simp: writePEM_def split: pem_outcome.splits)

lemma writeMissing_ok:
  assumes "writeMissing cr path ty bs fs = (fs', None)"
  shows "map_of (present fs') path = (if fileExists path fs then map_of (present fs) path else Some (pemEncode cr ty bs))"
    "p \<noteq> path \<Longrightarrow> map_of (present fs') p = map_of (present fs) p"
    "p \<noteq> path \<Longrightarrow> fileExists p fs' = fileExists p fs"
  using assms by (auto simp: writeMissing_def update_conv' fileExists_def split: if_splits dest!: writePEM_ok)

lemma writeKey_ok:
  assumes "writeKey cr path k fs = (fs', None)"
  shows "\<exists>kb. (fileExists path fs \<or> marshalECPrivateKey cr k = Inr kb) \<and>
    map_of (present fs') path = (if fileExists path fs then map_of (present fs) path
      else Some (pemEncode cr ''EC PRIVATE KEY'' kb))"
    "p \<noteq> path \<Longrightarrow> map_of (present fs') p = map_of (present fs) p"
  using assms by (auto simp: writeKey_def update_conv' split: if_splits sum.splits dest!: writePEM_ok)

text \<open>
  What a successful call leaves behind when not all of the files exist: each of them is the
  old file if there was one, and otherwise belongs to one fresh authority and one fresh node
  key. A missing certificate or key is therefore made for an authority whose certificate is
  not stored if there was a CA file already.
\<close>

theorem generated_certificates:
  assumes "EnsureCertificatesExist cr ca cert key fs = (fs', None)"
    and "\<not> (fileExists ca fs \<and> fileExists cert fs \<and> fileExists key fs)"
    and "distinct [ca, cert, key]"
  shows "\<exists>caKey nodeKey caB nodeB keyB. caKeyGen cr = Inr caKey \<and> nodeKeyGen cr = Inr nodeKey \<and>
    caCertOf cr caKey = Inr caB \<and> nodeCertOf cr caKey nodeKey = Inr nodeB \<and>
    (fileExists key fs \<or> marshalECPrivateKey cr nodeKey = Inr keyB) \<and>
    map_of (present fs') ca = (if fileExists ca fs then map_of (present fs) ca else Some (pemEncode cr ''CERTIFICATE'' caB)) \<and>
    map_of (present fs') cert = (if fileExists cert fs then map_of (present fs) cert else Some (pemEncode cr ''CERTIFICATE'' nodeB)) \<and>
    map_of (present fs') key = (if fileExists key fs then map_of (present fs) key else Some (pemEncode cr ''EC PRIVATE KEY'' keyB))"
proof -
  from assms(1,2) obtain caKey nodeKey caB nodeB where
    g: "caKeyGen cr = Inr caKey" "nodeKeyGen cr = Inr nodeKey" "caCertOf cr caKey = Inr caB"
      "nodeCertOf cr caKey nodeKey = Inr nodeB" "writeSet cr ca cert key caB nodeB nodeKey fs = (fs', None)"
    by (auto simp: EnsureCertificatesExist_def split: if_splits sum.splits)
  then obtain fs1 fs2 where w: "writeMissing cr ca ''CERTIFICATE'' caB fs = (fs1, None)"
    "writeMissing cr cert ''CERTIFICATE'' nodeB fs1 = (fs2, None)" "writeKey cr key nodeKey fs2 = (fs', None)"
    by (auto simp: writeSet_def split: prod.splits option.splits)
  note m = writeMissing_ok [OF w(1)] writeMissing_ok [OF w(2)] writeKey_ok(2) [OF w(3)]
  from writeKey_ok(1) [OF w(3)] g(1-4) assms(3) show ?thesis by (auto simp: m)
qed

text \<open>The files of an old authority with a fresh node certificate, for concrete keys (numbers).\<close>

definition demo_crypto :: "nat crypto" where
  "demo_crypto = \<lparr>caKeyGen = Inr 1, nodeKeyGen = Inr 2, caCertOf = (\<lambda>k. Inr (if k = 1 then ''ca1'' else ''ca'')),
     nodeCertOf = (\<lambda>c k. Inr (if c = 1 then ''signed by 1'' else ''signed'')), marshalECPrivateKey = (\<lambda>k. Inr ''key''),
     pemEncode = (\<lambda>ty bs. bs), appendCertsFromPEM = (\<lambda>bs. True), loadX509KeyPair = (\<lambda>c k. Inr (c, k))\<rparr>"

lemma stale_authority:
  "let fs = \<lparr>present = [(''ca.pem'', ''ca0'')], directories = [], outcomeOf = (\<lambda>_. PemOk)\<rparr>;
       fs' = fst (EnsureCertificatesExist demo_crypto ''ca.pem'' ''node.pem'' ''node.key'' fs)
   in map_of (present fs') ''ca.pem'' = Some ''ca0'' \<and> map_of (present fs') ''node.pem'' = Some ''signed by 1''"
  by code_simp

text \<open>Whatever the files are, both ends insist on TLS 1.3, and the server on a certificate of the client.\<close>

lemma credentials_mutual:
  "snd (LoadServerCredentials cr ca cert key fs) = Inr cfg \<Longrightarrow> requireClientCert cfg \<and> minTLS13 cfg \<and> ClientCAs cfg \<noteq> None"
  "snd (LoadClientCredentials cr ca cert key name fs) = Inr cfg' \<Longrightarrow> minTLS13 cfg' \<and> RootCAs cfg' \<noteq> None \<and> ServerName cfg' = name"
  by (auto simp: LoadServerCredentials_def LoadClientCredentials_def split: prod.splits option.splits sum.splits)

end
