(* ===== verification/Startup.thy ===== *)
theory Startup
  imports Service Cluster Transport
begin

text \<open>
  The two programs (\<^verbatim>\<open>src/cmd/node/main.go\<close>, \<^verbatim>\<open>src/cmd/gateway/main.go\<close>): what they make of their
  flags and environment variables, and the order in which a node is brought up. The flag
  values are given; serving, and the shutdown on a signal, are left out.
\<close>

section \<open>Flags of a node\<close>

definition parsePair :: "strmap \<Rightarrow> string \<Rightarrow> strmap" where
  "parsePair m pair = (case cutFirst (CHR ''='') pair of Some (k, v) \<Rightarrow> AList.update k v m | None \<Rightarrow> m)"

definition parsePeers :: "string \<Rightarrow> strmap" where
  "parsePeers s = (if s \<noteq> [] then foldl parsePair [] (splitOn (CHR '','') s) else [])"

definition orElse :: "string \<Rightarrow> string \<Rightarrow> string" where
  "orElse a b = (if a = [] then b else a)"

record nodeFlags =
  fId :: string
  fGrpcAddr :: string
  fHttpAddr :: string
  fPeers :: string
  fPeerHTTP :: string
  fStorageDir :: string
  fApiToken :: string
  fAdminToken :: string
  fAllowUnauthReads :: bool
  fSnapshotThreshold :: int
  fReadSafety :: string

text \<open>The defaults; \<open>getenv\<close> gives the environment variables.\<close>

definition resolveFlags :: "(string \<Rightarrow> string) \<Rightarrow> nodeFlags \<Rightarrow> nodeFlags" where
  "resolveFlags getenv f =
     f\<lparr>fId := orElse (fId f) ''node1'', fGrpcAddr := orElse (fGrpcAddr f) '':9000'',
       fHttpAddr := orElse (fHttpAddr f) (if getenv ''PORT'' \<noteq> [] then '':'' @ getenv ''PORT'' else '':8080''),
       fStorageDir := orElse (fStorageDir f) ''/data'',
       fApiToken := orElse (fApiToken f) (getenv ''KV_API_TOKEN''),
       fAdminToken := orElse (fAdminToken f) (getenv ''KV_ADMIN_TOKEN'')\<rparr>"

text \<open>
  Bringing up a node: the node and its HTTP interface, or the message with which the program
  ends. \<open>credErr\<close>, \<open>listenErr\<close> and \<open>httpErr\<close> are the outcomes of loading the credentials and of
  listening for the other nodes and for clients.
\<close>

definition bootNode ::
  "environment \<Rightarrow> string option \<Rightarrow> filesystem \<Rightarrow> (string \<Rightarrow> string) \<Rightarrow> string option \<Rightarrow> string option \<Rightarrow> string option \<Rightarrow>
   rat \<Rightarrow> nodeFlags \<Rightarrow> (raft \<times> Server) result" where
  "bootNode en openErr fs getenv credErr listenErr httpErr now f0 =
     (let f = resolveFlags getenv f0;
          ps = parsePeers (fPeers f);
          hs = parsePeers (fPeerHTTP f)
      in case NewRaft en openErr fs (fId f) ps (fStorageDir f) (fSnapshotThreshold f) of
           Inl e \<Rightarrow> Inl (''Failed to initialize Raft: '' @ e)
         | Inr r0 \<Rightarrow>
             let r1 = InitClusterConfig ps hs (SetReadSafety (fReadSafety f) r0)
             in case credErr of
                  Some e \<Rightarrow> Inl (''Failed to load server TLS credentials: '' @ e)
                | None \<Rightarrow>
                    (case listenErr of
                       Some e \<Rightarrow> Inl (''Failed to listen on gRPC address: '' @ e)
                     | None \<Rightarrow>
                         (case Start r1 of
                            (_, Some e) \<Rightarrow> Inl (''Failed to start Raft node: '' @ e)
                          | (r2, None) \<Rightarrow>
                              let s = NewServer (fApiToken f) (fAdminToken f) (fAllowUnauthReads f) now
                              in case httpErr of
                                   Some e \<Rightarrow> Inl (''Failed to start HTTP API: '' @ e)
                                 | None \<Rightarrow> Inr (r2, s))))"

section \<open>Flags of the gateway\<close>

record gatewayFlags =
  gfNodes :: string
  gfGatewayToken :: string
  gfClusterToken :: string
  gfFrontendDir :: string
  gfPollInterval :: int

text \<open>\<^verbatim>\<open>strings.TrimSpace\<close> of an address: ASCII white space at both ends (addresses are ASCII).\<close>

definition isTrimSpace :: "char \<Rightarrow> bool" where
  "isTrimSpace c \<longleftrightarrow> c = CHR '' '' \<or> (9 \<le> byte c \<and> byte c \<le> 13)"

definition TrimSpace :: "string \<Rightarrow> string" where
  "TrimSpace s = rev (dropWhile isTrimSpace (rev (dropWhile isTrimSpace s)))"

definition gatewayConfig :: "(string \<Rightarrow> string) \<Rightarrow> gatewayFlags \<Rightarrow> gwConfig" where
  "gatewayConfig getenv f =
     (let nodes = orElse (orElse (gfNodes f) (getenv ''NODE_ADDRS'')) ''127.0.0.1:8001,127.0.0.1:8002,127.0.0.1:8003''
      in \<lparr>NodeAddrs = map TrimSpace (splitOn (CHR '','') nodes),
          GatewayToken = orElse (gfGatewayToken f) (getenv ''GATEWAY_TOKEN''),
          ClusterToken = orElse (gfClusterToken f) (getenv ''KV_API_TOKEN''),
          FrontendDir = gfFrontendDir f, PollInterval = gfPollInterval f\<rparr>)"

text \<open>
  The gateway program: the gateway of these flags, and its polling loop. The loop receives a
  tick of its ticker, with what the client finds then and the clock, or the end of its
  context; the first tick comes one interval after the start.
\<close>

datatype pollEvent = Tick client string string | Done

fun pollLoop :: "pollEvent list \<Rightarrow> Gateway \<Rightarrow> Gateway" where
  "pollLoop [] g = g"
| "pollLoop (Done # es) g = g"
| "pollLoop (Tick cl now1 now2 # es) g = pollLoop es (pollAllNodes cl now1 now2 g)"

definition bootGateway :: "(string \<Rightarrow> string) \<Rightarrow> gatewayFlags \<Rightarrow> pollEvent list \<Rightarrow> Gateway" where
  "bootGateway getenv f es = pollLoop es (NewGateway (gatewayConfig getenv f))"

text \<open>Polling changes what is known of the nodes, never the configuration or the request numbers.\<close>

lemma pollLoop_frame:
  "gwCfg (pollLoop es g) = gwCfg g" "reqIDCounter (pollLoop es g) = reqIDCounter g"
proof -
  have "gwCfg (pollAllNodes cl a b g) = gwCfg g \<and> reqIDCounter (pollAllNodes cl a b g) = reqIDCounter g" for cl a b g
    by (simp add: pollAllNodes_def broadcastSSE_def Let_def split: prod.split)
  then have "gwCfg (pollLoop es g) = gwCfg g \<and> reqIDCounter (pollLoop es g) = reqIDCounter g"
    by (induction es g rule: pollLoop.induct) auto
  then show "gwCfg (pollLoop es g) = gwCfg g" "reqIDCounter (pollLoop es g) = reqIDCounter g" by auto
qed

text \<open>Until the first tick the gateway knows no leader and forwards nothing.\<close>

lemma gateway_before_first_tick:
  "snd (serveGateway cl files ch now r (bootGateway getenv f [])) = []"
proof -
  let ?g = "bootGateway getenv f []"
  have "leaderAddr ?g = []" by (simp add: bootGateway_def NewGateway_def)
  then show ?thesis
    by (simp add: serveGateway_def corsMiddleware_def gwMux_def handleKVProxy_def handleAdminProxy_def Let_def split: option.split)
qed

section \<open>What the flags give\<close>

fun joinComma :: "string list \<Rightarrow> string" where
  "joinComma [] = []"
| "joinComma [x] = x"
| "joinComma (x # y # xs) = x @ CHR '','' # joinComma (y # xs)"

lemma splitOn_part: "c \<notin> set x \<Longrightarrow> splitOn c (x @ c # rest) = x # splitOn c rest"
  by (induction x) auto

lemma splitOn_last: "c \<notin> set x \<Longrightarrow> splitOn c x = [x]"
  by (induction x) auto

lemma splitOn_join: "xs \<noteq> [] \<Longrightarrow> \<forall>x \<in> set xs. CHR '','' \<notin> set x \<Longrightarrow> splitOn (CHR '','') (joinComma xs) = xs"
  by (induction xs rule: joinComma.induct) (auto simp: splitOn_part splitOn_last)

definition printPeers :: "strmap \<Rightarrow> string" where
  "printPeers m = joinComma (map (\<lambda>(k, v). k @ CHR ''='' # v) m)"

text \<open>The flag of a map of peers without commas is read back as that map.\<close>

lemma parsePeers_print:
  assumes "wf_map m" "\<forall>(k, v) \<in> set m. CHR ''='' \<notin> set k \<and> CHR '','' \<notin> set k \<and> CHR '','' \<notin> set v"
  shows "parsePeers (printPeers m) = m"
proof (cases "m = []")
  case False
  have fold: "foldl parsePair acc (map (\<lambda>(k, v). k @ CHR ''='' # v) m) = acc @ m"
    if "wf_map (acc @ m)" "\<forall>(k, v) \<in> set m. CHR ''='' \<notin> set k" for acc m
    using that
  proof (induction m arbitrary: acc)
    case (Cons p m)
    obtain k v where p: "p = (k, v)" by fastforce
    have "k \<notin> fst ` set acc" using Cons.prems(1) by (auto simp: wf_map_def p)
    then have "AList.update k v acc = acc @ [(k, v)]" by (induction acc) auto
    moreover have "CHR ''='' \<notin> set k" using Cons.prems(2) by (simp add: p)
    ultimately have "parsePair acc (k @ CHR ''='' # v) = acc @ [p]" by (simp add: parsePair_def cutFirst_append p)
    with Cons.IH [of "acc @ [p]"] Cons.prems show ?case by (simp add: p)
  qed simp
  let ?l = "map (\<lambda>(k, v). k @ CHR ''='' # v) m"
  have "splitOn (CHR '','') (joinComma ?l) = ?l"
    using False assms(2) by (intro splitOn_join) auto
  moreover have "joinComma ?l \<noteq> []" using False by (cases m rule: list.exhaust; cases "tl m") auto
  ultimately show ?thesis using fold [of "[]" m] assms by (auto simp: parsePeers_def printPeers_def)
qed (simp add: parsePeers_def printPeers_def)

section \<open>A node that comes up from empty files\<close>

lemma Start_frame:
  assumes "Start r = (r', None)"
  shows "peerHTTPAddrs r' = peerHTTPAddrs r" "node_inv r' = node_inv r" "state r' = state r" "currentConfig r' = currentConfig r"
  using assms node_inv_cong [of r' r]
  by (auto simp: Start_def connectToPeers_def connectToPeersLocked_def startRun_def node_defs Let_def
      split: prod.splits option.splits if_splits)

section \<open>Properties\<close>

text \<open>
  C38. A node that comes up from empty files is a follower that keeps the index invariant and has
  the configuration of itself and the peers of its flag, but it knows no HTTP address, whatever
  the flag for the HTTP addresses of its peers says: \<^verbatim>\<open>NewRaft\<close> has set the configuration, so
  \<^verbatim>\<open>InitClusterConfig\<close> does nothing. In this state it answers every key-value request that
  passes its checks with 503 instead of redirecting it to the leader.
\<close>

theorem boot_drops_http_addresses:
  assumes "bootNode en openErr fs getenv credErr listenErr httpErr now f = Inr (r, s)"
    and "blank fs (fStorageDir (resolveFlags getenv f))"
  shows "node_inv r \<and> state r = Follower \<and> GetPeerHTTPAddrs r = [] \<and>
    currentConfig r = Some (ConfigFromPeers (parsePeers (fPeers f)) [] (fId (resolveFlags getenv f))) \<and>
    (\<forall>meth key body q t b. kvRequest meth key body q \<and> meth \<noteq> ''OPTIONS'' \<and> admitted t q s \<and>
       bkIsLeader b = IsLeader r \<and> bkPeerHTTP b = GetPeerHTTPAddrs r \<longrightarrow> statusOf (snd (serveAPI t b q s)) = 503)"
proof -
  let ?f = "resolveFlags getenv f" let ?ps = "parsePeers (fPeers ?f)"
  let ?n = "freshRaft en fs (fId ?f) ?ps (fStorageDir ?f) (fSnapshotThreshold ?f) (OpenWAL None)"
  have openErr: "openErr = None" using assms(1) by (auto simp: bootNode_def NewRaft_def Let_def split: option.splits)
  let ?r1 = "InitClusterConfig ?ps (parsePeers (fPeerHTTP ?f)) (SetReadSafety (fReadSafety ?f) ?n)"
  from assms(1) have "Start ?r1 = (r, None)"
    unfolding bootNode_def Let_def openErr NewRaft_blank [OF assms(2)] by (auto split: option.splits prod.splits)
  moreover have "peerHTTPAddrs ?r1 = []" "node_inv ?r1" "state ?r1 = Follower"
    "currentConfig ?r1 = Some (ConfigFromPeers ?ps [] (fId ?f))"
    by (simp_all add: InitClusterConfig_def SetReadSafety_def freshRaft_def node_inv_def wf_log_def lastLogIndex_def)
  moreover have "fPeers ?f = fPeers f" by (simp add: resolveFlags_def)
  ultimately have r: "node_inv r \<and> state r = Follower \<and> GetPeerHTTPAddrs r = [] \<and>
      currentConfig r = Some (ConfigFromPeers (parsePeers (fPeers f)) [] (fId ?f))"
    using Start_frame [of ?r1 r] by (simp add: GetPeerHTTPAddrs_def copyMap_def)
  have "statusOf (snd (serveAPI t b q s)) = 503"
    if q: "kvRequest meth key body q" "meth \<noteq> ''OPTIONS''" "admitted t q s" "bkIsLeader b = IsLeader r"
      "bkPeerHTTP b = GetPeerHTTPAddrs r" for meth key body q t b
  proof -
    have "TrimPrefix (rqPath q) ''/kv/'' = key" "key \<noteq> []" "length key \<le> MaxKeySize"
      using q(1) TrimPrefix_append(1) [of "''/kv/''" key] by (simp_all add: kvRequest_def)
    moreover have "\<not> fst (bkIsLeader b)" "bkPeerHTTP b = []" using q r by (simp_all add: IsLeader_def)
    moreover have "wSent (corsHeaders freshWriter) = None" by (simp add: freshWriter_def)
    ultimately show ?thesis
      using serveAPI_key [OF q(1,3,2)] q(3) by (simp add: serveKey_def Let_def admitted_def)
  qed
  with r show ?thesis by blast
qed

definition demo_flags :: nodeFlags where
  "demo_flags = \<lparr>fId = ''n1'', fGrpcAddr = [], fHttpAddr = [], fPeers = ''n2=h:9002,n3=h:9003'',
     fPeerHTTP = ''n2=h:8002,n3=h:8003'', fStorageDir = [], fApiToken = [], fAdminToken = [],
     fAllowUnauthReads = True, fSnapshotThreshold = 1000, fReadSafety = ''safe''\<rparr>"

theorem boot_drops_http_addresses_witness:
  "\<exists>r s. bootNode demo_env None [] (\<lambda>_. []) None None None 0 demo_flags = Inr (r, s) \<and> GetPeerHTTPAddrs r = [] \<and>
     parsePeers (fPeerHTTP demo_flags) = [(''n2'', ''h:8002''), (''n3'', ''h:8003'')]"
proof -
  have "\<not> isl (bootNode demo_env None [] (\<lambda>_. []) None None None 0 demo_flags)" by code_simp
  then obtain r s where b: "bootNode demo_env None [] (\<lambda>_. []) None None None 0 demo_flags = Inr (r, s)"
    by (cases "bootNode demo_env None [] (\<lambda>_. []) None None None 0 demo_flags") auto
  have "blank [] (fStorageDir (resolveFlags (\<lambda>_. []) demo_flags))" by (simp add: blank_def has_key_def)
  moreover have "parsePeers (fPeerHTTP demo_flags) = [(''n2'', ''h:8002''), (''n3'', ''h:8003'')]" by code_simp
  ultimately show ?thesis using boot_drops_http_addresses [OF b] b by blast
qed

end
