(* ===== verification/Metrics.thy ===== *)
theory Metrics
  imports Complex_Main Http Node
begin

text \<open>
  The metrics of a node (\<^verbatim>\<open>src/raft/metrics.go\<close>): gauges, counters and histograms with and
  without labels, the registry, and their text form. Counts are 64-bit words and wrap around;
  a \<^verbatim>\<open>float64\<close> is an exact rational number, and \<open>ff\<close> is \<^verbatim>\<open>strconv.FormatFloat\<close> in the format
  \<^verbatim>\<open>'f'\<close> with the shortest precision. A Go map is listed in the order of its representation.
\<close>

section \<open>Labels\<close>

definition joinFrom :: "nat \<Rightarrow> string \<Rightarrow> string list \<Rightarrow> string" where
  "joinFrom i0 res0 vs = fst (foldl (\<lambda>(res, i) v. (res @ (if i > 0 then ''|'' else []) @ v, Suc i)) (res0, i0) vs)"

definition joinLabels :: "string list \<Rightarrow> string" where
  "joinLabels values = joinFrom 0 [] values"

text \<open>
  Ranging over a string decodes its runes and \<^verbatim>\<open>string(c)\<close> encodes them again, which replaces
  invalid UTF-8: the loop runs over \<open>sanitize key\<close>.
\<close>

fun splitLoop :: "string list \<Rightarrow> string \<Rightarrow> string \<Rightarrow> string list" where
  "splitLoop res cur [] = res @ [cur]"
| "splitLoop res cur (c # cs) =
     (if c = CHR ''|'' then splitLoop (res @ [cur]) [] cs else splitLoop res (cur @ [c]) cs)"

definition splitLabels :: "string \<Rightarrow> string list" where
  "splitLabels key = (if key = [] then [] else splitLoop [] [] (sanitize key))"

fun formatFrom :: "nat \<Rightarrow> string list \<Rightarrow> string list \<Rightarrow> string" where
  "formatFrom i [] values = []"
| "formatFrom i (name # names) values =
     (if i > 0 then '','' else []) @ name @ ''=\"'' @ (if i < length values then values ! i else []) @ ''\"''
       @ formatFrom (Suc i) names values"

definition formatLabels :: "string list \<Rightarrow> string list \<Rightarrow> string" where
  "formatLabels names values = formatFrom 0 names values"

definition nl :: string where
  "nl = [CHR 0x0A]"

definition metricHead :: "string \<Rightarrow> string \<Rightarrow> string \<Rightarrow> string" where
  "metricHead name help kind =
     ''# HELP '' @ name @ '' '' @ help @ nl @ ''# TYPE '' @ name @ '' '' @ kind @ nl"

section \<open>Gauges and counters\<close>

record Gauge =
  gName :: string
  gHelp :: string
  gValue :: rat

definition NewGauge :: "string \<Rightarrow> string \<Rightarrow> Gauge" where
  "NewGauge name help = \<lparr>gName = name, gHelp = help, gValue = 0\<rparr>"

definition Gauge_Set :: "rat \<Rightarrow> Gauge \<Rightarrow> Gauge" where
  "Gauge_Set v g = g\<lparr>gValue := v\<rparr>"

definition Gauge_serialize :: "(rat \<Rightarrow> string) \<Rightarrow> Gauge \<Rightarrow> string" where
  "Gauge_serialize ff g = metricHead (gName g) (gHelp g) ''gauge'' @ gName g @ '' '' @ ff (gValue g) @ nl"

record Counter =
  cName :: string
  cHelp :: string
  cValue :: rat

definition NewCounter :: "string \<Rightarrow> string \<Rightarrow> Counter" where
  "NewCounter name help = \<lparr>cName = name, cHelp = help, cValue = 0\<rparr>"

definition Counter_Inc :: "Counter \<Rightarrow> Counter" where
  "Counter_Inc c = c\<lparr>cValue := cValue c + 1\<rparr>"

definition Counter_Add :: "rat \<Rightarrow> Counter \<Rightarrow> Counter" where
  "Counter_Add v c = c\<lparr>cValue := cValue c + v\<rparr>"

definition Counter_serialize :: "(rat \<Rightarrow> string) \<Rightarrow> Counter \<Rightarrow> string" where
  "Counter_serialize ff c = metricHead (cName c) (cHelp c) ''counter'' @ cName c @ '' '' @ ff (cValue c) @ nl"

record LabeledCounter =
  lcName :: string
  lcHelp :: string
  lcLabels :: "string list"
  lcValues :: "(string, rat) gomap"

definition NewLabeledCounter :: "string \<Rightarrow> string \<Rightarrow> string list \<Rightarrow> LabeledCounter" where
  "NewLabeledCounter name help labels = \<lparr>lcName = name, lcHelp = help, lcLabels = labels, lcValues = []\<rparr>"

definition get_rat :: "(string, rat) gomap \<Rightarrow> string \<Rightarrow> rat" where
  "get_rat m k = (case map_of m k of Some v \<Rightarrow> v | None \<Rightarrow> 0)"

definition LabeledCounter_Inc :: "string list \<Rightarrow> LabeledCounter \<Rightarrow> LabeledCounter" where
  "LabeledCounter_Inc labelValues lc =
     (let key = joinLabels labelValues
      in lc\<lparr>lcValues := AList.update key (get_rat (lcValues lc) key + 1) (lcValues lc)\<rparr>)"

definition LabeledCounter_serialize :: "(rat \<Rightarrow> string) \<Rightarrow> LabeledCounter \<Rightarrow> string" where
  "LabeledCounter_serialize ff lc =
     metricHead (lcName lc) (lcHelp lc) ''counter'' @
     concat (map (\<lambda>(key, val). lcName lc @ ''{'' @ formatLabels (lcLabels lc) (splitLabels key) @ ''} '' @ ff val @ nl)
       (lcValues lc))"

section \<open>Histograms\<close>

record Histogram =
  hName :: string
  hHelp :: string
  hBuckets :: "rat list"
  hCounts :: "64 word list"
  hSum :: rat
  hCount :: "64 word"

definition newHist :: "string \<Rightarrow> string \<Rightarrow> rat list \<Rightarrow> Histogram" where
  "newHist name help buckets =
     \<lparr>hName = name, hHelp = help, hBuckets = buckets, hCounts = replicate (length buckets) 0, hSum = 0, hCount = 0\<rparr>"

text \<open>The loop increments the count of every bucket whose bound is not below the value.\<close>

definition countBuckets :: "rat \<Rightarrow> rat list \<Rightarrow> 64 word list \<Rightarrow> 64 word list" where
  "countBuckets v bs cs = map2 (\<lambda>b c. if v \<le> b then c + 1 else c) bs cs"

definition Histogram_Observe :: "rat \<Rightarrow> Histogram \<Rightarrow> Histogram" where
  "Histogram_Observe v h =
     h\<lparr>hSum := hSum h + v, hCount := hCount h + 1, hCounts := countBuckets v (hBuckets h) (hCounts h)\<rparr>"

text \<open>The running total of the serializing loop, bucket by bucket.\<close>

fun cumulate :: "64 word \<Rightarrow> 64 word list \<Rightarrow> 64 word list" where
  "cumulate acc [] = []"
| "cumulate acc (c # cs) = (acc + c) # cumulate (acc + c) cs"

definition FormatUint :: "64 word \<Rightarrow> string" where
  "FormatUint w = show_nat (unat w)"

text \<open>The lines of one histogram; \<open>labelStr\<close> is empty without labels.\<close>

definition bucketLine :: "string \<Rightarrow> string \<Rightarrow> string \<Rightarrow> string \<Rightarrow> string" where
  "bucketLine name labelStr le val = name @ ''_bucket{'' @ labelStr @ ''le=\"'' @ le @ ''\"} '' @ val @ nl"

definition histLines :: "(rat \<Rightarrow> string) \<Rightarrow> string \<Rightarrow> string \<Rightarrow> string \<Rightarrow> Histogram \<Rightarrow> string" where
  "histLines ff name labelStr braces h =
     concat (map2 (\<lambda>b c. bucketLine name labelStr (ff b) (FormatUint c)) (hBuckets h) (cumulate 0 (hCounts h))) @
     bucketLine name labelStr ''+Inf'' (FormatUint (hCount h)) @
     name @ ''_sum'' @ braces @ '' '' @ ff (hSum h) @ nl @
     name @ ''_count'' @ braces @ '' '' @ FormatUint (hCount h) @ nl"

definition Histogram_serialize :: "(rat \<Rightarrow> string) \<Rightarrow> Histogram \<Rightarrow> string" where
  "Histogram_serialize ff h = metricHead (hName h) (hHelp h) ''histogram'' @ histLines ff (hName h) [] [] h"

record LabeledHistogram =
  lhName :: string
  lhHelp :: string
  lhLabels :: "string list"
  lhBuckets :: "rat list"
  lhHists :: "(string, Histogram) gomap"

definition NewLabeledHistogram :: "string \<Rightarrow> string \<Rightarrow> string list \<Rightarrow> rat list \<Rightarrow> LabeledHistogram" where
  "NewLabeledHistogram name help labels buckets =
     \<lparr>lhName = name, lhHelp = help, lhLabels = labels, lhBuckets = buckets, lhHists = []\<rparr>"

definition LabeledHistogram_Observe :: "rat \<Rightarrow> string list \<Rightarrow> LabeledHistogram \<Rightarrow> LabeledHistogram" where
  "LabeledHistogram_Observe v labelValues lh =
     (let key = joinLabels labelValues;
          h = (case map_of (lhHists lh) key of
                 Some h \<Rightarrow> h | None \<Rightarrow> newHist (lhName lh) (lhHelp lh) (lhBuckets lh))
      in lh\<lparr>lhHists := AList.update key (Histogram_Observe v h) (lhHists lh)\<rparr>)"

definition LabeledHistogram_serialize :: "(rat \<Rightarrow> string) \<Rightarrow> LabeledHistogram \<Rightarrow> string" where
  "LabeledHistogram_serialize ff lh =
     metricHead (lhName lh) (lhHelp lh) ''histogram'' @
     concat (map (\<lambda>(key, h). let labelStr = formatLabels (lhLabels lh) (splitLabels key)
                             in histLines ff (lhName lh) (labelStr @ '','') (''{'' @ labelStr @ ''}'') h)
       (lhHists lh))"

section \<open>The registry\<close>

datatype serializable =
    MGauge Gauge
  | MCounter Counter
  | MLabeledCounter LabeledCounter
  | MHistogram Histogram
  | MLabeledHistogram LabeledHistogram

fun serialize :: "(rat \<Rightarrow> string) \<Rightarrow> serializable \<Rightarrow> string" where
  "serialize ff (MGauge g) = Gauge_serialize ff g"
| "serialize ff (MCounter c) = Counter_serialize ff c"
| "serialize ff (MLabeledCounter lc) = LabeledCounter_serialize ff lc"
| "serialize ff (MHistogram h) = Histogram_serialize ff h"
| "serialize ff (MLabeledHistogram lh) = LabeledHistogram_serialize ff lh"

definition serializeAll :: "(rat \<Rightarrow> string) \<Rightarrow> serializable list \<Rightarrow> string" where
  "serializeAll ff ms = foldl (\<lambda>result m. result @ serialize ff m) [] ms"

text \<open>The metrics of the process, in the order in which they are registered.\<close>

record metrics =
  RaftCurrentTerm :: Gauge
  RaftLeaderElectionsTotal :: Counter
  RaftCommitIndex :: Gauge
  RaftLogEntriesTotal :: Counter
  RaftRole :: Gauge
  RaftReplicationLagMs :: LabeledHistogram
  KVRequestDurationMs :: LabeledHistogram
  KVRequestsTotal :: LabeledCounter
  WALFsyncDurationMs :: Histogram

definition initialMetrics :: metrics where
  "initialMetrics =
     \<lparr>RaftCurrentTerm = NewGauge ''raft_current_term'' ''Current Raft term'',
      RaftLeaderElectionsTotal = NewCounter ''raft_leader_elections_total'' ''Total leader elections'',
      RaftCommitIndex = NewGauge ''raft_commit_index'' ''Current commit index'',
      RaftLogEntriesTotal = NewCounter ''raft_log_entries_total'' ''Total log entries appended'',
      RaftRole = NewGauge ''raft_role'' ''Node role (0=follower, 1=candidate, 2=leader)'',
      RaftReplicationLagMs = NewLabeledHistogram ''raft_replication_lag_ms'' ''Replication lag in ms''
        [''peer''] [1, 2, 5, 10, 25, 50, 100, 250, 500],
      KVRequestDurationMs = NewLabeledHistogram ''kv_request_duration_ms'' ''Request latency in ms''
        [''method''] [1 / 2, 1, 2, 5, 10, 25, 50, 100],
      KVRequestsTotal = NewLabeledCounter ''kv_requests_total'' ''Total KV requests'' [''method'', ''status''],
      WALFsyncDurationMs = newHist ''wal_fsync_duration_ms'' ''WAL fsync latency in ms''
        [1 / 10, 1 / 2, 1, 2, 5, 10, 25]\<rparr>"

definition registered :: "metrics \<Rightarrow> serializable list" where
  "registered m =
     [MGauge (RaftCurrentTerm m), MCounter (RaftLeaderElectionsTotal m), MGauge (RaftCommitIndex m),
      MCounter (RaftLogEntriesTotal m), MGauge (RaftRole m), MLabeledHistogram (RaftReplicationLagMs m),
      MLabeledHistogram (KVRequestDurationMs m), MLabeledCounter (KVRequestsTotal m),
      MHistogram (WALFsyncDurationMs m)]"

definition RecordRequestMetrics :: "string \<Rightarrow> rat \<Rightarrow> bool \<Rightarrow> metrics \<Rightarrow> metrics" where
  "RecordRequestMetrics method durationMs ok m =
     m\<lparr>KVRequestDurationMs := LabeledHistogram_Observe durationMs [method] (KVRequestDurationMs m),
       KVRequestsTotal := LabeledCounter_Inc [method, if ok then ''success'' else ''error''] (KVRequestsTotal m)\<rparr>"

text \<open>What the effects of the node model do to the metrics.\<close>

fun recordEffect :: "effect \<Rightarrow> metrics \<Rightarrow> metrics" where
  "recordEffect (SetGauge name v) m =
     (if name = ''raft_role'' then m\<lparr>RaftRole := Gauge_Set (of_int v) (RaftRole m)\<rparr>
      else if name = ''raft_current_term'' then m\<lparr>RaftCurrentTerm := Gauge_Set (of_int v) (RaftCurrentTerm m)\<rparr>
      else m\<lparr>RaftCommitIndex := Gauge_Set (of_int v) (RaftCommitIndex m)\<rparr>)"
| "recordEffect (IncCounter name) m =
     (if name = ''raft_leader_elections_total''
      then m\<lparr>RaftLeaderElectionsTotal := Counter_Inc (RaftLeaderElectionsTotal m)\<rparr>
      else m\<lparr>RaftLogEntriesTotal := Counter_Inc (RaftLogEntriesTotal m)\<rparr>)"
| "recordEffect (ObserveLag ms peer) m =
     m\<lparr>RaftReplicationLagMs := LabeledHistogram_Observe (of_int ms) [peer] (RaftReplicationLagMs m)\<rparr>"
| "recordEffect _ m = m"

section \<open>Labels survive their key\<close>

definition proper_labels :: "string list \<Rightarrow> bool" where
  "proper_labels vs \<longleftrightarrow> vs \<noteq> [] \<and> vs \<noteq> [[]] \<and>
     (\<forall>v \<in> set vs. \<forall>c \<in> set v. c \<noteq> CHR ''|'' \<and> byte c < 128)"

lemma joinFrom_Suc: "joinFrom (Suc i) res vs = res @ concat (map (\<lambda>v. CHR ''|'' # v) vs)"
  by (induction vs arbitrary: i res) (simp_all add: joinFrom_def)

lemma joinLabels_Cons: "joinLabels (v # vs) = v @ concat (map (\<lambda>v. CHR ''|'' # v) vs)"
  using joinFrom_Suc [of 0 v vs] by (simp add: joinLabels_def joinFrom_def)

lemma sanitize_ascii: "\<forall>c \<in> set s. byte c < 128 \<Longrightarrow> sanitize s = s"
  by (induction s) (simp_all add: sanitize.simps)

lemma splitLoop_part:
  "\<forall>c \<in> set v. c \<noteq> CHR ''|'' \<Longrightarrow> splitLoop res cur (v @ rest) = splitLoop res (cur @ v) rest"
  by (induction v arbitrary: cur) auto

lemma splitLoop_parts:
  "\<forall>v \<in> set vs. \<forall>c \<in> set v. c \<noteq> CHR ''|'' \<Longrightarrow>
   splitLoop res cur (concat (map (\<lambda>v. CHR ''|'' # v) vs)) = res @ cur # vs"
  by (induction vs arbitrary: res cur) (simp_all add: splitLoop_part)

lemma split_joinLabels:
  assumes "proper_labels vs"
  shows "splitLabels (joinLabels vs) = vs"
proof -
  from assms obtain v us where vs: "vs = v # us" by (cases vs) (auto simp: proper_labels_def)
  from assms have c: "\<forall>x \<in> set vs. \<forall>c \<in> set x. c \<noteq> CHR ''|''" and a: "\<forall>x \<in> set vs. \<forall>c \<in> set x. byte c < 128"
    by (simp_all add: proper_labels_def)
  have "byte CHR ''|'' < 128" by (simp add: byte_def)
  then have "\<forall>c \<in> set (joinLabels vs). byte c < 128"
    using a by (auto simp: vs joinLabels_Cons)
  then have "sanitize (joinLabels vs) = joinLabels vs" by (rule sanitize_ascii)
  moreover have "joinLabels vs \<noteq> []" using assms by (auto simp: vs joinLabels_Cons proper_labels_def)
  moreover have "splitLoop [] [] (joinLabels vs) = vs"
    using c by (simp add: vs joinLabels_Cons splitLoop_part splitLoop_parts)
  ultimately show ?thesis by (simp add: splitLabels_def)
qed

lemma get_rat_update: "get_rat (AList.update k v m) k' = (if k' = k then v else get_rat m k')"
  by (simp add: get_rat_def update_conv')

section \<open>Properties\<close>

text \<open>
  Labelled counters count exactly: after any sequence of increments with proper label
  values (ASCII, without the separator), the value kept for a list of labels is the number of
  increments with exactly that list, and the key is split into exactly these labels again
  when the counter is written out.
\<close>

theorem labeled_counter_counts:
  assumes "\<forall>l \<in> set (vs # calls). proper_labels l"
  shows "get_rat (lcValues (foldl (\<lambda>lc l. LabeledCounter_Inc l lc) (NewLabeledCounter name help ls) calls))
      (joinLabels vs) = of_nat (count_list calls vs) \<and> splitLabels (joinLabels vs) = vs"
proof -
  have inj: "joinLabels l = joinLabels vs \<longleftrightarrow> l = vs" if "l \<in> set calls" for l
    using that assms split_joinLabels by (metis list.set_intros)
  have "get_rat (lcValues (foldl (\<lambda>lc l. LabeledCounter_Inc l lc) lc calls)) (joinLabels vs) =
      get_rat (lcValues lc) (joinLabels vs) + of_nat (count_list calls vs)" for lc
    using inj
  proof (induction calls arbitrary: lc)
    case (Cons l calls)
    have "joinLabels vs = joinLabels l \<longleftrightarrow> l = vs" using Cons.prems [of l] by auto
    then show ?case
      using Cons.IH [of "LabeledCounter_Inc l lc"] Cons.prems
      by (simp add: LabeledCounter_Inc_def Let_def get_rat_update)
  qed simp
  then show ?thesis
    using split_joinLabels assms by (simp add: NewLabeledCounter_def get_rat_def)
qed

theorem labeled_counter_counts_witness:
  "get_rat (lcValues (foldl (\<lambda>lc l. LabeledCounter_Inc l lc)
      (NewLabeledCounter ''kv_requests_total'' ''help'' [''method'', ''status''])
      [[''GET'', ''success''], [''PUT'', ''success''], [''GET'', ''success'']])) (joinLabels [''GET'', ''success'']) = 2 \<and>
   splitLabels (joinLabels [''GET'', ''success'']) = [''GET'', ''success'']"
  using labeled_counter_counts [of "[''GET'', ''success'']"
      "[[''GET'', ''success''], [''PUT'', ''success''], [''GET'', ''success'']]"]
  by (simp add: proper_labels_def byte_def)


end
