(* ===== verification/Bench.thy ===== *)
theory Bench
  imports Service Metrics
begin

text \<open>
  The load generator (\<^verbatim>\<open>src/bench/main.go\<close>): the requests of its workers, the counting of
  their results, and the report. \<open>newReq\<close> is \<^verbatim>\<open>http.NewRequest\<close>, which parses the URL. The
  workers share only counters that they change atomically and a list under a lock, so a run
  is a list of iterations in the order in which they end; each brings its worker, its random
  numbers, the time that it took and the call that it makes. A percentile index \<^verbatim>\<open>int(n*q)\<close> is
  computed exactly, which agrees with \<^verbatim>\<open>float64\<close> for every length that fits into memory.
\<close>

section \<open>Data\<close>

record benchFlags =
  bfUrl :: string
  bfToken :: string
  bfConcurrency :: int
  bfDuration :: int
  bfOp :: string

definition benchDefaults :: benchFlags where
  "benchDefaults = \<lparr>bfUrl = ''http://127.0.0.1:8001'', bfToken = ''mysecrettoken'', bfConcurrency = 50,
     bfDuration = 5, bfOp = ''PUT''\<rparr>"

text \<open>The random numbers of one iteration: \<^verbatim>\<open>Intn(1000)\<close>, \<^verbatim>\<open>Float32() < 0.5\<close> and \<^verbatim>\<open>Intn(10000)\<close>.\<close>

record draw =
  dKey :: int
  dCoin :: bool
  dVal :: int

record bench =
  bReqID :: "nat \<Rightarrow> int"
  bOps :: int
  bErrs :: int
  bLatencies :: "rat list"
  bSent :: "request list"

definition benchInit :: bench where
  "benchInit = \<lparr>bReqID = (\<lambda>w. 1), bOps = 0, bErrs = 0, bLatencies = [], bSent = []\<rparr>"

section \<open>A worker\<close>

definition benchKey :: "draw \<Rightarrow> string" where
  "benchKey d = ''bench_key_'' @ FormatInt (dKey d)"

definition benchClient :: "nat \<Rightarrow> string" where
  "benchClient w = ''bench-client-'' @ FormatInt (int w)"

definition opType :: "benchFlags \<Rightarrow> draw \<Rightarrow> string" where
  "opType fl d = (if bfOp fl = ''MIXED'' then (if dCoin d then ''PUT'' else ''GET'') else bfOp fl)"

definition benchRequest ::
  "(string \<Rightarrow> string \<Rightarrow> bytes \<Rightarrow> request result) \<Rightarrow> benchFlags \<Rightarrow> nat \<Rightarrow> int \<Rightarrow> draw \<Rightarrow> request result" where
  "benchRequest newReq fl w reqID d =
     (let reqURL = bfUrl fl @ ''/kv/'' @ benchKey d;
          made = (if opType fl d = ''PUT''
                  then map_sum id (\<lambda>q. q\<lparr>rqHeader := Header_Set ''X-Request-ID'' (FormatInt reqID)
                                            (Header_Set ''X-Client-ID'' (benchClient w) (rqHeader q))\<rparr>)
                         (newReq ''PUT'' reqURL (''payload_'' @ FormatInt (dVal d)))
                  else newReq ''GET'' reqURL [])
      in map_sum id (\<lambda>q. if bfToken fl \<noteq> []
             then q\<lparr>rqHeader := Header_Set ''Authorization'' (''Bearer '' @ bfToken fl) (rqHeader q)\<rparr> else q) made)"

text \<open>The result of \<^verbatim>\<open>client.Do\<close>: an error, or the status of the response.\<close>

definition countResult :: "nat result \<Rightarrow> rat \<Rightarrow> bench \<Rightarrow> bench" where
  "countResult res elapsed st =
     (case res of
        Inl e \<Rightarrow> st\<lparr>bErrs := bErrs st + 1\<rparr>
      | Inr code \<Rightarrow> if code \<ge> 400 then st\<lparr>bErrs := bErrs st + 1\<rparr>
                    else st\<lparr>bOps := bOps st + 1, bLatencies := bLatencies st @ [elapsed]\<rparr>)"

type_synonym 's iteration = "nat \<times> draw \<times> rat \<times> (request \<Rightarrow> 's \<Rightarrow> nat result \<times> 's)"

fun benchStep ::
  "(string \<Rightarrow> string \<Rightarrow> bytes \<Rightarrow> request result) \<Rightarrow> benchFlags \<Rightarrow> 's iteration \<Rightarrow> bench \<times> 's \<Rightarrow> bench \<times> 's" where
  "benchStep newReq fl (w, d, elapsed, call) (st, s) =
     (let made = benchRequest newReq fl w (bReqID st w) d;
          st1 = (if opType fl d = ''PUT'' then st\<lparr>bReqID := (bReqID st)(w := bReqID st w + 1)\<rparr> else st)
      in case made of
           Inl e \<Rightarrow> (st1\<lparr>bErrs := bErrs st1 + 1\<rparr>, s)
         | Inr q \<Rightarrow> (case call q s of
                       (res, s') \<Rightarrow> (countResult res elapsed (st1\<lparr>bSent := bSent st1 @ [q]\<rparr>), s')))"

fun benchRun ::
  "(string \<Rightarrow> string \<Rightarrow> bytes \<Rightarrow> request result) \<Rightarrow> benchFlags \<Rightarrow> 's iteration list \<Rightarrow> bench \<times> 's \<Rightarrow> bench \<times> 's" where
  "benchRun newReq fl [] st = st"
| "benchRun newReq fl (x # xs) st = benchRun newReq fl xs (benchStep newReq fl x st)"

section \<open>The report\<close>

definition throughput :: "int \<Rightarrow> rat \<Rightarrow> rat" where
  "throughput ops totalDuration = of_int ops / totalDuration"

text \<open>The element of the sorted list at \<^verbatim>\<open>int(n * pct/100)\<close>; \<open>None\<close> is an index out of range.\<close>

definition percentile :: "nat \<Rightarrow> rat list \<Rightarrow> rat option" where
  "percentile pct xs =
     (let i = length xs * pct div 100 in if i < length xs then Some (sort xs ! i) else None)"

text \<open>What is printed at the end; \<open>f2\<close> is the format \<^verbatim>\<open>%.2f\<close>, and \<open>None\<close> a panic.\<close>

definition benchReport :: "(rat \<Rightarrow> string) \<Rightarrow> benchFlags \<Rightarrow> rat \<Rightarrow> bench \<Rightarrow> string option" where
  "benchReport f2 fl totalDuration st =
     (if bLatencies st = []
      then Some (''Benchmark finished: 0 successful operations (Errors: '' @ FormatInt (bErrs st) @
                 ''). Is the cluster running?'' @ nl)
      else (case (percentile 50 (bLatencies st), percentile 95 (bLatencies st), percentile 99 (bLatencies st)) of
              (Some p50, Some p95, Some p99) \<Rightarrow> Some
                (''==================== BENCHMARK RESULTS ===================='' @ nl @
                 ''Operation          : '' @ bfOp fl @ nl @
                 ''Concurrency        : '' @ FormatInt (bfConcurrency fl) @ nl @
                 ''Total Operations   : '' @ FormatInt (bOps st) @ nl @
                 ''Total Errors       : '' @ FormatInt (bErrs st) @ nl @
                 ''Throughput (req/s) : '' @ f2 (throughput (bOps st) totalDuration) @ nl @
                 ''p50 Latency        : '' @ f2 p50 @ '' ms'' @ nl @
                 ''p95 Latency        : '' @ f2 p95 @ '' ms'' @ nl @
                 ''p99 Latency        : '' @ f2 p99 @ '' ms'' @ nl @
                 ''==========================================================='' @ nl)
            | _ \<Rightarrow> None))"

section \<open>Counting\<close>

lemma percentile_in_range: "xs \<noteq> [] \<Longrightarrow> pct < 100 \<Longrightarrow> percentile pct xs = Some (sort xs ! (length xs * pct div 100))"
proof -
  assume a: "xs \<noteq> []" "pct < 100"
  then have "length xs * pct < length xs * 100" by simp
  then have "length xs * pct div 100 < length xs" by (simp add: less_mult_imp_div_less)
  then show ?thesis by (simp add: percentile_def Let_def)
qed

lemma benchReport_total: "benchReport f2 fl totalDuration st \<noteq> None"
  by (simp add: benchReport_def percentile_in_range)

text \<open>At most the share \<open>pct\<close> of the samples is below the percentile, and more than it is not above.\<close>

lemma sorted_split:
  fixes xs :: "rat list"
  assumes "sorted xs" "i < length xs"
  shows "length (filter (\<lambda>x. x < xs ! i) xs) \<le> i" "i < length (filter (\<lambda>x. x \<le> xs ! i) xs)"
proof -
  have "filter (\<lambda>x. x < xs ! i) (drop i xs) = []"
    using assms by (auto simp: filter_empty_conv in_set_conv_nth not_less intro!: sorted_nth_mono)
  then have "filter (\<lambda>x. x < xs ! i) xs = filter (\<lambda>x. x < xs ! i) (take i xs)"
    by (metis append_take_drop_id append_Nil2 filter_append)
  then show "length (filter (\<lambda>x. x < xs ! i) xs) \<le> i"
    using length_filter_le [of _ "take i xs"] by (metis assms(2) length_take less_imp_le min.absorb2)
  have "filter (\<lambda>x. x \<le> xs ! i) (take (Suc i) xs) = take (Suc i) xs"
    using assms by (auto simp: filter_id_conv in_set_conv_nth less_Suc_eq_le intro!: sorted_nth_mono)
  then have "length (take (Suc i) xs) \<le> length (filter (\<lambda>x. x \<le> xs ! i) xs)"
    by (metis append_take_drop_id filter_append le_add1 length_append)
  then show "i < length (filter (\<lambda>x. x \<le> xs ! i) xs)" using assms(2) by simp
qed

lemma length_filter_sort: "length (filter P (sort xs)) = length (filter P (xs :: rat list))"
  by (metis mset_filter mset_sort size_mset)

lemma percentile_splits:
  assumes "percentile pct xs = Some p"
  shows "length (filter (\<lambda>x. x < p) xs) * 100 \<le> length xs * pct" "length xs * pct < 100 * length (filter (\<lambda>x. x \<le> p) xs)"
proof -
  let ?i = "length xs * pct div 100"
  have i: "?i < length (sort xs)" and p: "p = sort xs ! ?i"
    using assms by (auto simp: percentile_def Let_def split: if_splits)
  note s = sorted_split [OF sorted_sort i, folded p, unfolded length_filter_sort]
  then have "length (filter (\<lambda>x. x < p) xs) * 100 \<le> ?i * 100" by simp
  also have "\<dots> \<le> length xs * pct" by simp
  finally show "length (filter (\<lambda>x. x < p) xs) * 100 \<le> length xs * pct" .
  from s(2) show "length xs * pct < 100 * length (filter (\<lambda>x. x \<le> p) xs)"
    by (metis div_less_iff_less_mult mult.commute zero_less_numeral)
qed

section \<open>The requests\<close>

text \<open>
  What the load generator needs of \<^verbatim>\<open>http.NewRequest\<close>: behind a base URL that is a scheme and a
  host, the rest of the URL is the path of the request, and the request is new.
\<close>

definition makes_requests :: "(string \<Rightarrow> string \<Rightarrow> bytes \<Rightarrow> request result) \<Rightarrow> string \<Rightarrow> bool" where
  "makes_requests newReq url \<longleftrightarrow> (\<forall>m d body. \<exists>q. newReq m (url @ ''/kv/'' @ benchKey d) body = Inr q \<and>
     rqMethod q = m \<and> rqPath q = ''/kv/'' @ benchKey d \<and> rqQuery q = [] \<and> rqHeader q = [] \<and> rqBody q = (body, None))"

lemma header_names [simp]:
  "canonical ''X-Request-ID'' = ''X-Request-Id''" "canonical ''X-Client-ID'' = ''X-Client-Id''"
  "canonical ''Authorization'' = ''Authorization''"
  by code_simp+

lemma benchRequest_made:
  assumes "makes_requests newReq (bfUrl fl)"
  obtains q where "benchRequest newReq fl w i d = Inr q" "rqPath q = ''/kv/'' @ benchKey d" "rqQuery q = []"
    "rqMethod q = (if opType fl d = ''PUT'' then ''PUT'' else ''GET'')"
    "opType fl d = ''PUT'' \<longrightarrow> Header_Get (rqHeader q) ''X-Client-ID'' = benchClient w \<and>
       Header_Get (rqHeader q) ''X-Request-ID'' = FormatInt i \<and> rqBody q = (''payload_'' @ FormatInt (dVal d), None)"
proof (cases "opType fl d = ''PUT''")
  case True
  obtain q where "newReq ''PUT'' (bfUrl fl @ ''/kv/'' @ benchKey d) (''payload_'' @ FormatInt (dVal d)) = Inr q"
    "rqMethod q = ''PUT''" "rqPath q = ''/kv/'' @ benchKey d" "rqQuery q = []" "rqHeader q = []"
    "rqBody q = (''payload_'' @ FormatInt (dVal d), None)"
    using assms unfolding makes_requests_def by blast
  with True that show thesis by (simp add: benchRequest_def Let_def Header_Set_def Header_Get_def)
next
  case False
  obtain q where "newReq ''GET'' (bfUrl fl @ ''/kv/'' @ benchKey d) [] = Inr q"
    "rqMethod q = ''GET''" "rqPath q = ''/kv/'' @ benchKey d" "rqQuery q = []"
    using assms unfolding makes_requests_def by blast
  with False that show thesis by (simp add: benchRequest_def Let_def)
qed

section \<open>Against the rate limiter\<close>

text \<open>
  A call of the interface of a node at time \<open>now\<close>; \<open>follow\<close> is what the client gets when it follows a
  redirect.
\<close>

definition apiCall :: "(writer \<Rightarrow> nat result) \<Rightarrow> rat \<Rightarrow> backend \<Rightarrow> request \<Rightarrow> Server \<Rightarrow> nat result \<times> Server" where
  "apiCall follow now b q s =
     (let w = snd (serveAPI now b q s)
      in (if statusOf w div 100 = 3 then follow w else Inr (statusOf w), fst (serveAPI now b q s)))"

lemma serveAPI_limits:
  assumes "rqPath q = ''/kv/'' @ key" "rqMethod q \<noteq> ''OPTIONS''"
  shows "limiter (fst (serveAPI now b q s)) = fst (Allow now (limiter s))"
    "\<not> snd (Allow now (limiter s)) \<Longrightarrow> statusOf (snd (serveAPI now b q s)) = 429"
proof -
  have "HasPrefix (rqPath q) ''/kv/''" using assms(1) by (simp add: HasPrefix_def)
  moreover from this have "rqPath q \<notin> {''/healthz'', ''/status'', ''/admin/addnode'', ''/admin/removenode'', ''/metrics''}"
    by (auto simp: HasPrefix_def)
  ultimately have m: "serveMux now b q (s, w) = handleKV now b q (s, w)" for w by (simp add: serveMux_def)
  show "limiter (fst (serveAPI now b q s)) = fst (Allow now (limiter s))"
    using assms(2) by (simp add: serveAPI_def m handleKV_def Let_def case_prod_unfold)
  assume "\<not> snd (Allow now (limiter s))"
  then show "statusOf (snd (serveAPI now b q s)) = 429"
    using assms(2) by (simp add: serveAPI_def recoveryMiddleware_def m handleKV_def Let_def case_prod_unfold
        corsHeaders_def freshWriter_def)
qed

lemma benchRun_limited:
  assumes "makes_requests newReq (bfUrl fl)"
  shows "bOps (fst (benchRun newReq fl (map (\<lambda>(w, d, e, now, b). (w, d, e, apiCall follow now b)) its) (st, s)))
    \<le> bOps st + int (allowed (map (\<lambda>(w, d, e, now, b). now) its) (limiter s))"
proof (induction its arbitrary: st s)
  case (Cons x its)
  obtain w d e now b where x: "x = (w, d, e, now, b)" by (cases x) auto
  let ?it = "(w, d, e, apiCall follow now b)"
  obtain q where q: "benchRequest newReq fl w (bReqID st w) d = Inr q" "rqPath q = ''/kv/'' @ benchKey d"
    "rqMethod q \<noteq> ''OPTIONS''"
    by (rule benchRequest_made [OF assms, of w "bReqID st w" d]) (auto split: if_splits)
  note l = serveAPI_limits [OF q(2,3), where now = now and b = b and s = s]
  obtain st' s' where s': "benchStep newReq fl ?it (st, s) = (st', s')" by fastforce
  then have "limiter s' = fst (Allow now (limiter s))" using q l(1) by (auto simp: apiCall_def Let_def)
  moreover have "bOps st' \<le> bOps st + (if snd (Allow now (limiter s)) then 1 else 0)"
    using s' q l(2) by (auto simp: apiCall_def countResult_def Let_def split: sum.splits if_splits)
  moreover note Cons.IH [of st' s']
  ultimately show ?case by (simp add: x s' del: benchStep.simps split: if_splits)
qed simp

section \<open>Properties\<close>

text \<open>
  The load generator measures the rate limiter: in a run against one node, of whatever
  operation and with however many workers, at most 100 + 50 T operations succeed when the
  first and the last call are T seconds apart, and the reported throughput of a run that
  lasts \<open>dur\<close> seconds is at most 50 + 100 / \<open>dur\<close> per second.
\<close>

theorem benchmark_rate_limited:
  assumes "makes_requests newReq (bfUrl fl)" "its \<noteq> []"
    and "sorted (t0 # map (\<lambda>(w, d, e, now, b). now) its)" "T = map (\<lambda>(w, d, e, now, b). now) its"
    and "st = fst (benchRun newReq fl (map (\<lambda>(w, d, e, now, b). (w, d, e, apiCall follow now b)) its)
           (benchInit, NewServer auth admin unauth t0))"
    and "last T - hd T \<le> dur" "0 < dur"
  shows "of_int (bOps st) \<le> 100 + 50 * (last T - hd T) \<and> throughput (bOps st) dur \<le> 50 + 100 / dur"
proof -
  let ?s = "NewServer auth admin unauth t0"
  obtain t ts where T: "T = t # ts" using assms(2,4) by (cases its) auto
  have "bOps st \<le> int (allowed T (limiter ?s))"
    using benchRun_limited [OF assms(1), of follow its benchInit ?s] by (simp add: assms(4,5) benchInit_def)
  then have "(of_int (bOps st) :: rat) \<le> of_nat (allowed T (limiter ?s))"
    by (metis of_int_le_iff of_int_of_nat_eq)
  also have "\<dots> \<le> 100 + 50 * (last T - hd T)"
  proof -
    have l: "bucket_ok (limiter ?s)" "lastRefilled (limiter ?s) = t0" "rate (limiter ?s) = 50" "capacity (limiter ?s) = 100"
      by (simp_all add: NewServer_def NewRateLimiter_def bucket_ok_def)
    then show ?thesis using allowed_within [of "limiter ?s" t ts] assms(3) unfolding l assms(4) [symmetric] T by simp
  qed
  finally have *: "of_int (bOps st) \<le> 100 + 50 * (last T - hd T)" .
  also have "\<dots> \<le> (50 + 100 / dur) * dur" using assms(6,7) by (simp add: distrib_right)
  finally show ?thesis using * assms(7) by (simp add: throughput_def divide_le_eq)
qed

text \<open>Requests behind the default URL, and a run of two workers against a node that has no leader yet.\<close>

definition demo_newReq :: "string \<Rightarrow> string \<Rightarrow> bytes \<Rightarrow> request result" where
  "demo_newReq m url body = Inr \<lparr>rqMethod = m, rqPath = drop (length (bfUrl benchDefaults)) url, rqQuery = [], rqRawQuery = [],
     rqHeader = [], rqBody = (body, None), rqRemoteAddr = []\<rparr>"

lemma demo_newReq_makes: "makes_requests demo_newReq (bfUrl benchDefaults)"
  by (simp add: makes_requests_def demo_newReq_def)

definition demo_draw :: draw where
  "demo_draw = \<lparr>dKey = 7, dCoin = True, dVal = 42\<rparr>"

theorem benchmark_rate_limited_witness:
  "let st = fst (benchRun demo_newReq benchDefaults
       [(0, demo_draw, 3, apiCall (\<lambda>w. Inl ''no'') 1 (demo_service 7 (demo_lone []))),
        (1, demo_draw, 5, apiCall (\<lambda>w. Inl ''no'') 2 (demo_service 7 (demo_lone [])))]
       (benchInit, NewServer ''mysecrettoken'' [] False 0))
   in of_int (bOps st) \<le> (100 + 50 * (2 - 1) :: rat) \<and> throughput (bOps st) 2 \<le> 50 + 100 / 2"
proof -
  have "of_int (bOps st) \<le> (100 + 50 * (last [1, 2] - hd [1, 2]) :: rat) \<and> throughput (bOps st) 2 \<le> 50 + 100 / 2"
    if "st = fst (benchRun demo_newReq benchDefaults
         [(0, demo_draw, 3, apiCall f 1 b), (1, demo_draw, 5, apiCall f 2 b)] (benchInit, NewServer au [] False 0))" for st f b au
    by (rule benchmark_rate_limited [where its = "[(0, demo_draw, 3, 1, b), (1, demo_draw, 5, 2, b)]", OF demo_newReq_makes])
      (simp_all only: that list.map prod.case, simp_all)
  then show ?thesis unfolding Let_def by simp
qed

section \<open>A second run\<close>

text \<open>The command that the state machine executes for a PUT request (\<^verbatim>\<open>handlePut\<close>).\<close>

definition putCommand :: "request \<Rightarrow> Command" where
  "putCommand q =
     (case extractClientMetadata q (fst (rqBody q)) of
        (clientID, requestID, val) \<Rightarrow> sanitizeCommand
          \<lparr>Op = ''PUT'', Key = TrimPrefix (rqPath q) ''/kv/'', Val = val, ClientID = clientID, RequestID = requestID\<rparr>)"

text \<open>The writes of a run, and how many of them a worker made.\<close>

definition benchWrites :: "bench \<Rightarrow> Command list" where
  "benchWrites st = map putCommand (filter (\<lambda>q. rqMethod q = ''PUT'') (bSent st))"

definition putsOf :: "benchFlags \<Rightarrow> nat \<Rightarrow> 's iteration list \<Rightarrow> nat" where
  "putsOf fl w its = length (filter (\<lambda>(v, d, _). v = w \<and> opType fl d = ''PUT'') its)"

lemma Sscanf_d_FormatInt:
  assumes "0 < i" "i < 2 ^ 63"
  shows "Sscanf_d (FormatInt i) 0 = i"
proof -
  obtain c cs where c: "FormatInt i = c # cs" "isDigit c" "list_all isDigit (c # cs)"
    using assms(1) show_nat_digits [of "nat i"] show_nat_nonempty [of "nat i"]
    by (cases "show_nat (nat i)") (auto simp: FormatInt_def)
  have "skipScanSpace (c # cs) = c # cs" "c \<noteq> CHR ''-''" "c \<noteq> CHR ''+''"
    using c(2) by (auto simp: isDigit_def byte_def isScanSpace_def)
  moreover have "takeWhile isDigit (c # cs) = c # cs"
    using c(3) by (simp only: takeWhile_eq_all_conv list_all_iff)
  ultimately show ?thesis
    using ParseInt_FormatInt [of i] assms c(1) by (simp add: Sscanf_d_def Let_def)
qed

lemma payload_not_json: "UnmarshalPayload (''payload_'' @ s) = None"
  by (simp add: UnmarshalPayload_def json_parse_def skipWs_def parseNum_def parseInt_def isSpace_def isDigit_def byte_def)

lemma putCommand_bench:
  assumes "makes_requests newReq (bfUrl fl)" "opType fl d = ''PUT''" "0 < i" "i < 2 ^ 63"
    and "benchRequest newReq fl w i d = Inr q"
  shows "rqMethod q = ''PUT''" "ClientID (putCommand q) = sanitize (benchClient w)" "RequestID (putCommand q) = i"
    "counts (putCommand q)"
proof -
  obtain q' where q': "benchRequest newReq fl w i d = Inr q'" "rqQuery q' = []" "rqMethod q' = ''PUT''"
    "Header_Get (rqHeader q') ''X-Client-ID'' = benchClient w" "Header_Get (rqHeader q') ''X-Request-ID'' = FormatInt i"
    "rqBody q' = (''payload_'' @ FormatInt (dVal d), None)"
    using benchRequest_made [OF assms(1), of w i d] assms(2) by metis
  have q: "q' = q" using q'(1) assms(5) by simp
  have "benchClient w \<noteq> []" by (simp add: benchClient_def)
  moreover have "FormatInt i \<noteq> []" by (simp add: FormatInt_def)
  ultimately have "extractClientMetadata q (fst (rqBody q)) = (benchClient w, i, ''payload_'' @ FormatInt (dVal d))"
    using q'(2-6) assms(3) Sscanf_d_FormatInt [OF assms(3,4)] payload_not_json
    by (simp add: extractClientMetadata_def Let_def q)
  moreover have "sanitize ''PUT'' = ''PUT''" by code_simp
  ultimately show "ClientID (putCommand q) = sanitize (benchClient w)" "RequestID (putCommand q) = i" "counts (putCommand q)"
    using assms(3) \<open>benchClient w \<noteq> []\<close> by (simp_all add: putCommand_def sanitizeCommand_def counts_def tagged_def known_op_def)
  show "rqMethod q = ''PUT''" using q'(3) q by simp
qed

text \<open>Command \<open>c\<close> is the write with number \<open>i\<close> of worker \<open>w\<close>.\<close>

definition wrote :: "nat \<Rightarrow> int \<Rightarrow> Command \<Rightarrow> bool" where
  "wrote w i c \<longleftrightarrow> counts c \<and> ClientID c = sanitize (benchClient w) \<and> RequestID c = i"

lemma countResult_frame [simp]:
  "bReqID (countResult res e st) = bReqID st" "bSent (countResult res e st) = bSent st"
  by (simp_all add: countResult_def split: sum.split)

lemma benchStep_writes:
  assumes "makes_requests newReq (bfUrl fl)" "0 < bReqID st w" "bReqID st w < 2 ^ 63"
    and "benchStep newReq fl (w, d, e, call) (st, s) = (st', s')"
  shows "if opType fl d = ''PUT''
    then bReqID st' = (bReqID st)(w := bReqID st w + 1) \<and>
      (\<exists>c. benchWrites st' = benchWrites st @ [c] \<and> wrote w (bReqID st w) c)
    else bReqID st' = bReqID st \<and> benchWrites st' = benchWrites st"
proof -
  obtain q where q: "benchRequest newReq fl w (bReqID st w) d = Inr q"
    "rqMethod q = (if opType fl d = ''PUT'' then ''PUT'' else ''GET'')"
    using benchRequest_made [OF assms(1), of w "bReqID st w" d] by metis
  show ?thesis
    using assms(4) q putCommand_bench [OF assms(1) _ assms(2,3) q(1)]
    by (auto simp: benchWrites_def wrote_def Let_def split: prod.splits)
qed

lemma benchRun_writes:
  assumes "makes_requests newReq (bfUrl fl)"
  shows "\<forall>w. 0 < bReqID st w \<and> bReqID st w + int (length its) \<le> 2 ^ 63 \<Longrightarrow>
    \<exists>new. benchWrites (fst (benchRun newReq fl its (st, s))) = benchWrites st @ new \<and>
      (\<forall>c \<in> set new. \<exists>w i. wrote w i c \<and> bReqID st w \<le> i \<and> i < bReqID st w + int (putsOf fl w its)) \<and>
      (\<forall>w i. bReqID st w \<le> i \<and> i < bReqID st w + int (putsOf fl w its) \<longrightarrow> (\<exists>c \<in> set new. wrote w i c))"
proof (induction its arbitrary: st s)
  case (Cons x its)
  obtain w d e call where x: "x = (w, d, e, call)" by (cases x) auto
  obtain st' s' where s': "benchStep newReq fl x (st, s) = (st', s')" by fastforce
  have w: "0 < bReqID st w" "bReqID st w < 2 ^ 63" using Cons.prems by (auto dest!: spec [of _ w])
  note step = benchStep_writes [OF assms w s' [unfolded x]]
  have p: "putsOf fl v (x # its) = (if v = w \<and> opType fl d = ''PUT'' then 1 else 0) + putsOf fl v its" for v
    by (simp add: putsOf_def x)
  have r: "bReqID st' v = bReqID st v + (if v = w \<and> opType fl d = ''PUT'' then 1 else 0)" for v
    using step by (auto split: if_splits)
  have "0 < bReqID st' v \<and> bReqID st' v + int (length its) \<le> 2 ^ 63" for v
    using Cons.prems r by (auto dest!: spec [of _ v])
  with Cons.IH [of st' s'] obtain new where new: "benchWrites (fst (benchRun newReq fl its (st', s'))) = benchWrites st' @ new"
    "\<forall>c \<in> set new. \<exists>w i. wrote w i c \<and> bReqID st' w \<le> i \<and> i < bReqID st' w + int (putsOf fl w its)"
    "\<forall>w i. bReqID st' w \<le> i \<and> i < bReqID st' w + int (putsOf fl w its) \<longrightarrow> (\<exists>c \<in> set new. wrote w i c)" by blast
  show ?case
  proof (cases "opType fl d = ''PUT''")
    case True
    with step obtain c where c: "benchWrites st' = benchWrites st @ [c]" "wrote w (bReqID st w) c" by auto
    have "\<exists>v i. wrote v i c' \<and> bReqID st v \<le> i \<and> i < bReqID st v + int (putsOf fl v (x # its))" if "c' \<in> set (c # new)" for c'
    proof (cases "c' = c")
      case True
      then show ?thesis using c(2) \<open>opType fl d = ''PUT''\<close> by (intro exI [of _ w] exI [of _ "bReqID st w"]) (simp add: p)
    next
      case False
      with that new(2) obtain v i where "wrote v i c'" "bReqID st' v \<le> i" "i < bReqID st' v + int (putsOf fl v its)" by auto
      then show ?thesis unfolding r by (intro exI [of _ v] exI [of _ i]) (auto simp: p split: if_splits)
    qed
    moreover have "\<exists>c' \<in> set (c # new). wrote v i c'"
      if "bReqID st v \<le> i" "i < bReqID st v + int (putsOf fl v (x # its))" for v i
      using that c(2) new(3) [rule_format, of v i] unfolding p r by (cases "v = w \<and> i = bReqID st w") (auto split: if_splits)
    ultimately show ?thesis using new(1) c(1) by (intro exI [of _ "c # new"]) (simp add: s' del: benchStep.simps)
  next
    case False
    then show ?thesis using new step unfolding p r by (intro exI [of _ new]) (simp add: s' del: benchStep.simps)
  qed
qed (simp add: putsOf_def)

text \<open>
  C40. A second run of the load generator writes nothing: the client names and the request
  numbers of its workers are the same in every run, so when no worker gets further than in
  an earlier run whose writes were executed, in whatever order and with whatever else in
  between, every write of the later run is taken for a repetition. It is answered with
  success and leaves the store and the deduplication table unchanged.
\<close>

theorem benchmark_rerun_writes_nothing:
  fixes its1 :: "'s iteration list" and its2 :: "'t iteration list"
  assumes "makes_requests newReq (bfUrl fl)" "int (length its1) < 2 ^ 63" "int (length its2) < 2 ^ 63"
    and "\<forall>w. putsOf fl w its2 \<le> putsOf fl w its1"
    and "set (benchWrites (fst (benchRun newReq fl its1 (benchInit, s1)))) \<subseteq> set cmds1"
    and "set cmds2 \<subseteq> set (benchWrites (fst (benchRun newReq fl its2 (benchInit, s2))))"
  shows "applyAll cmds2 (applyAll cmds1 st) = applyAll cmds1 st"
proof -
  let ?S = "applyAll cmds1 st"
  have b: "bReqID benchInit w = 1" "benchWrites benchInit = []" for w by (simp_all add: benchInit_def benchWrites_def)
  have one: "\<forall>w i. 1 \<le> i \<and> i < 1 + int (putsOf fl w its1) \<longrightarrow> (\<exists>c \<in> set cmds1. wrote w i c)"
    using benchRun_writes [OF assms(1), of benchInit its1 s1] assms(2,5) by (fastforce simp: b)
  have two: "\<forall>c \<in> set cmds2. \<exists>w i. wrote w i c \<and> 1 \<le> i \<and> i < 1 + int (putsOf fl w its2)"
    using benchRun_writes [OF assms(1), of benchInit its2 s2] assms(3,6) by (fastforce simp: b)
  have "applyStore c ?S = ?S" if c2: "c \<in> set cmds2" for c
  proof -
    from two c2 obtain w i where c: "wrote w i c" "1 \<le> i" "i < 1 + int (putsOf fl w its2)" by blast
    moreover have "int (putsOf fl w its2) \<le> int (putsOf fl w its1)" using assms(4) by simp
    ultimately obtain c1 where c1: "c1 \<in> set cmds1" "wrote w i c1" using one by force
    then have "i \<le> seenId ?S c1" using kvm.seen_after [of c1 cmds1 st] by (simp add: wrote_def applyAll_run)
    then show ?thesis using c(1) c1(2) by (intro kvm.skip) (auto simp: wrote_def seenId_def)
  qed
  then have "foldl (\<lambda>s c. applyStore c s) ?S cmds2 = ?S" by (induction cmds2) auto
  then show ?thesis by (simp add: applyAll_def [of cmds2])
qed

theorem benchmark_rerun_writes_nothing_witness:
  "let ok = (\<lambda>q s. (Inr 200, s));
       run1 = fst (benchRun demo_newReq benchDefaults [(0, demo_draw, 3, ok)] (benchInit, ()));
       run2 = fst (benchRun demo_newReq benchDefaults [(0, demo_draw\<lparr>dVal := 43\<rparr>, 3, ok)] (benchInit, ()));
       st = applyAll (benchWrites run2) (applyAll (benchWrites run1) ([], []))
   in map_of (fst st) ''bench_key_7'' = Some ''payload_42'' \<and> bOps run2 = 1"
proof -
  let ?ok = "\<lambda>q s. (Inr 200, s)" and ?b = "(benchInit, ())"
  let ?w = "\<lambda>d. benchWrites (fst (benchRun demo_newReq benchDefaults [(0, d, 3, ?ok)] ?b))"
  have "applyAll (?w (demo_draw\<lparr>dVal := 43\<rparr>)) (applyAll (?w demo_draw) ([], [])) = applyAll (?w demo_draw) ([], [])"
    by (rule benchmark_rerun_writes_nothing [OF demo_newReq_makes _ _ _ subset_refl subset_refl]) (simp_all add: putsOf_def opType_def)
  moreover have "map_of (fst (applyAll (?w demo_draw) ([], []))) ''bench_key_7'' = Some ''payload_42''" by code_simp
  moreover have "bOps (fst (benchRun demo_newReq benchDefaults [(0, demo_draw\<lparr>dVal := 43\<rparr>, 3, ?ok)] ?b)) = 1" by code_simp
  ultimately show ?thesis unfolding Let_def by (simp only:)
qed

end
