(* ===== verification/Spec2Isabelle.thy ===== *)
theory Spec2Isabelle
  imports Timers Recovery Votes SnapTransfer Leadership Restart Catchup Fuel Startup Bench
begin

text \<open>
  A replicated key-value store on the Raft consensus protocol, written in Go.

  \<^bold>\<open>The program.\<close> A node keeps a replicated log of client commands (\<^verbatim>\<open>src/raft/raft.go\<close>,
  \<^verbatim>\<open>src/raft/config.go\<close>), which it writes to a write-ahead log and compacts into snapshots
  (\<^verbatim>\<open>src/storage\<close>). Nodes talk to each other over gRPC with mutual TLS (\<^verbatim>\<open>src/proto\<close>,
  \<^verbatim>\<open>src/transport\<close>). Clients reach a node through an HTTP interface (\<^verbatim>\<open>src/api\<close>); a gateway
  (\<^verbatim>\<open>src/gateway\<close>) stands before the nodes of a cluster and forwards requests to the leader. The
  programs \<^verbatim>\<open>src/cmd/node\<close> and \<^verbatim>\<open>src/cmd/gateway\<close> put these together, and \<^verbatim>\<open>src/bench\<close> is a load
  generator for the HTTP interface.

  \<^bold>\<open>The theories\<close>, in the order in which they build on each other:

  \<^item> \<open>Prelude\<close>: byte strings, Go maps as association lists, results, shared lemmas.
  \<^item> \<open>Config\<close>: \<^verbatim>\<open>config.go\<close> without the envelope, membership and the majority test. The locale
    \<open>quorum_test\<close> is what elections and reads need of a majority test; it is interpreted on the
    test of a configuration here and on the member sets of a steady cluster in \<open>Ballots\<close>.
  \<^item> \<open>Proto\<close>: the messages. \<open>WAL\<close>: \<^verbatim>\<open>wal.go\<close> on the bytes of the file, with CRC-32 and torn
    writes. \<open>Json\<close>, \<open>Envelope\<close>: the part of \<^verbatim>\<open>encoding/json\<close> that is used, and the coding of
    commands and configurations as log entries; \<open>Fuel\<close> shows that the parser never runs out of
    fuel. \<open>Store\<close>: the effect of a command on the store
    and the deduplication table, with the locale \<open>dedup_machine\<close> for machines that execute a
    numbered request at most once. \<open>Snapshot\<close>: \<^verbatim>\<open>snapshot.go\<close> with every failure of a save.
  \<^item> \<open>Node\<close>, \<open>Apply\<close>, \<open>Consensus\<close>: \<^verbatim>\<open>raft.go\<close>. The record \<open>raft\<close> is the struct \<^verbatim>\<open>Raft\<close> together with the
    outside world as the node sees it (\<open>env\<close>: the codec of the WAL, outcomes of file operations,
    the clock) and the effects that it has caused (\<open>outbox\<close>: answers on channels, goroutines
    that were started, metrics). One definition per function under \<^verbatim>\<open>r.mu\<close>; \<open>handleEvent\<close> is
    the body of the loop of \<^verbatim>\<open>run\<close>. \<open>Reads\<close>: the calls that run outside that loop, as functions of
    the states of the node at the moments at which they hold the lock.
  \<^item> \<open>LogInv\<close>, \<open>NodeInv\<close>, \<open>Timers\<close>, \<open>Clients\<close>, \<open>Replication\<close>, \<open>Votes\<close>, \<open>Recovery\<close>, \<open>SnapTransfer\<close>,
    \<open>Machine\<close>: what holds of one node, or of one node and its files, in any run
    (\<open>node_run\<close>).
  \<^item> \<open>Steady\<close>, \<open>Ballots\<close>, \<open>Cluster\<close>, \<open>Leadership\<close>: a cluster of nodes over a network that delays,
    reorders, duplicates and loses messages, as the step relation \<open>cstep\<close>. \<open>MapTypes\<close>: the
    representation invariant of a node.
  \<^item> \<open>History\<close>: an abstract protocol on terms, votes and logs, with the argument that what a
    majority has accepted stays. \<open>Tracking\<close>: every handler of a node is a sequence of steps of
    that protocol. \<open>Safety\<close>: the cluster therefore refines the protocol, and inherits its safety.
    \<open>Catchup\<close>: the rounds between a leader and a follower whose logs differ.
  \<^item> \<open>Persist\<close>, \<open>Restart\<close>: the term and the vote on disk through every handler, and the cluster in
    which nodes also crash and are started again from their files, as the step relation \<open>rstep\<close>.
  \<^item> \<open>Http\<close>, \<open>Api\<close>, \<open>Metrics\<close>, \<open>Gateway\<close>: the HTTP layers and \<^verbatim>\<open>metrics.go\<close>. A handler is a function
    from the request and the response writer to the writer. \<open>Service\<close>: the interface before the
    node and the gateway before the interface; the locale \<open>kv_node\<close> is what the interface needs
    of a node, interpreted on a leader that is alone in its cluster.
  \<^item> \<open>Transport\<close>: certificates and TLS settings. \<open>Startup\<close>: the two programs. \<open>Bench\<close>: the load
    generator, by itself and before the interface of a node.

  \<^bold>\<open>What is shown.\<close> The properties carry the numbers C1 to C40, the most important first.

  \<^item> The cluster: C1 (no two nodes commit different entries at an index), C2 (every later leader has
    what was committed), C3 (one leader per term), C4 (also when nodes crash and restart), C5 (log
    matching), C10 (the repair of a follower's log ends, with the leader's log).
  \<^item> Elections and reads: C6 and C7 (reads through the read index), C13 (votes), C17, C26, C27
    (majorities and membership), C24 (timers).
  \<^item> Log and state machine: C8, C9 (the store executes the committed commands, each request
    once), C11 (indexes, terms), C12 (AppendEntries), C18 (every client is answered once),
    C19 (snapshot transfer), C23 (every map of a node is well formed).
  \<^item> Durability and coding: C14, C16, C20, C31, C32 (files, crashes, corruption), C28, C29
    (entries).
  \<^item> HTTP: C15 (PUT, DELETE and GET end to end), C21, C22 (access control), C25 (rate limit), C30
    (leader tracking).
  \<^item> Behaviour that contradicts the intent, stated as what the code does: C33 (half of an even
    cluster passes the majority test), C34 (compaction forgets uncommitted entries on disk),
    C35 (a late snapshot), C36 (a restarted node obeys a deposed leader and gives up an entry that
    it acknowledged, since an adopted term is not persisted), C37 (writes lost after a gateway
    restart), C38 (ignored flag), C39 (bucket counts), C40 (a second run of the load generator).
    Theory \<open>Transport\<close> shows in \<open>stale_authority\<close> that a partly deleted set of certificates is
    completed with files that do not fit together, \<open>labelLine_labelled\<close> of \<open>Gateway\<close> that the
    labels of merged metrics are malformed, \<open>gateway_duplicates_origin_header\<close> of \<open>Service\<close> that
    forwarded responses carry a header twice, and \<open>benchmark_rate_limited\<close> of \<open>Bench\<close> that the
    load generator cannot measure more than the rate limit.
  \<^item> Further: a vote binds across a crash and an adopted term does not (\<open>Votes\<close>), redelivery of
    AppendEntries (\<open>Replication\<close>), retries (\<open>Store\<close>), saving and loading (\<open>Snapshot\<close>), a write on
    a lone leader (\<open>Machine\<close>), labelled counters (\<open>Metrics\<close>), the gateway before its first poll
    (\<open>Startup\<close>), the percentiles of the report (\<open>Bench\<close>).

  \<^bold>\<open>Bounds and representation.\<close> All loops are total functions. Two take fuel: the JSON parser, one
  above twice the length of its input, which is enough for every input (\<open>json_parse_fuel\<close>), and
  the rounds of \<open>exchange\<close>, for which \<^verbatim>\<open>nextIndex\<close> is enough (C10). Terms and indexes (\<^verbatim>\<open>int64\<close>)
  are unbounded integers, since they grow by one; where a number is read from text the range of \<^verbatim>\<open>int64\<close> is checked. Counts of
  metrics and the request counter of the gateway are 64-bit words that wrap around, the
  lengths and checksums of the WAL are 32-bit words. A \<^verbatim>\<open>float64\<close> is an exact rational number.
  A Go map is the list of its pairs in some order; every property holds for every order.

  \<^bold>\<open>Parameters.\<close> The protobuf encoding of WAL records, dialling and TLS, the HTTP client of the
  gateway, float formatting, the cryptographic library and the clock are arguments of the
  definitions; a property that relies on them has the documented behaviour as a hypothesis.

  \<^bold>\<open>Not modelled.\<close> The protobuf wire format and the gRPC stubs (generated code); log output; the
  simulated network delay; the scheduling of goroutines other than as the order of events;
  sockets, signals and shutdown of the programs; redirects that the library's request router
  makes itself; the frontend and the tests. C1 to C5 are shown for a steady membership of odd
  size: with an even number of members the majority test itself is wrong (C33). Of these only C4
  allows restarts: a restarted node keeps its votes, but it may come up in an older term and then
  lose what it has acknowledged (C36), or come up without it (C34). C1, C2, C5 and C10 are
  shown for logs that are not compacted, since a snapshot may undo what was applied (C35). In these
  cases the general statements do not hold of the code. C4, too, is shown for logs that are not
  compacted and for disks that do not fail.
\<close>

end
